(* ===== verification/Prelude.thy ===== *)
theory Prelude
  imports Main "HOL-Library.Word"
begin

text \<open>
  The vocabulary every component shares: bytes and machine words, Go's panics and blocking
  operations as values, slicing, and the parts of Go's \<open>io\<close> package the program calls
  (\<open>io.ReadFull\<close>, \<open>io.CopyN\<close>, a writer that may fail).  Every later theory imports this one.

  \<^item> A Go \<open>string\<close> and a \<open>[]byte\<close> are both a list of 8-bit words; \<open>lit\<close> turns a literal into one.
  \<^item> A Go computation that may panic or block for ever returns an \<open>outcome\<close>.
  \<^item> A reader is the list of bytes that are still to arrive before the end of the stream.  The
    loops inside \<open>io.ReadFull\<close> and \<open>io.CopyN\<close> hide how the bytes are cut into packets.
  \<^item> A writer records the bytes that left and how many more the other side will still take:
    \<open>None\<close> is a connection that does not fail.  All lemmas hold for every such budget.
\<close>

unbundle bit_operations_syntax

section \<open>Bytes, words, outcomes\<close>

type_synonym byte = "8 word"
type_synonym bytes = "8 word list"
type_synonym gostring = "8 word list"
type_synonym u16 = "16 word"
type_synonym u64 = "64 word"

text \<open>A string literal of the source as bytes.\<close>

definition lit :: "string \<Rightarrow> gostring" where
  "lit s = map of_char s"

text \<open>The run-time panics of Go that the modelled code can raise.\<close>

datatype panic =
    SliceBounds
  | IndexRange
  | NilDeref
  | NilMapWrite
  | CloseClosed
  | SendClosed

text \<open>What a piece of Go code does: return, panic, or block for ever.\<close>

datatype 'a outcome = Returns 'a | Panics panic | Blocks

fun obind :: "'a outcome \<Rightarrow> ('a \<Rightarrow> 'b outcome) \<Rightarrow> 'b outcome" where
  "obind (Returns x) f = f x"
| "obind (Panics p) f = Panics p"
| "obind Blocks f = Blocks"

fun returns :: "'a outcome \<Rightarrow> bool" where
  "returns (Returns x) = True"
| "returns (Panics p) = False"
| "returns Blocks = False"

text \<open>The errors of the \<open>io\<close> package and of a failed write.\<close>

datatype ioerr = EOF | UnexpectedEOF | WriteFailed

named_theorems wire_eval \<open>equations that compute concrete encodings\<close>
named_theorems outcome_simps \<open>how outcomes compose\<close>

lemma obind_eq_Returns [outcome_simps]:
  "obind x f = Returns y \<longleftrightarrow> (\<exists>v. x = Returns v \<and> f v = Returns y)"
  by (cases x) auto

lemma obind_eq_Panics [outcome_simps]:
  "obind x f = Panics p \<longleftrightarrow> x = Panics p \<or> (\<exists>v. x = Returns v \<and> f v = Panics p)"
  by (cases x) auto

lemma obind_eq_Blocks [outcome_simps]:
  "obind x f = Blocks \<longleftrightarrow> x = Blocks \<or> (\<exists>v. x = Returns v \<and> f v = Blocks)"
  by (cases x) auto

lemma obind_assoc: "obind (obind x f) g = obind x (\<lambda>v. obind (f v) g)"
  by (cases x) auto

lemma returns_iff: "returns x \<longleftrightarrow> (\<exists>v. x = Returns v)"
  by (cases x) auto

text \<open>The countdown of a byte loop falls below its guard.\<close>

lemma neg_uints_less [simp]: "- uint x - uint y < 4"
  using uint_ge_0 [of x] uint_ge_0 [of y] by linarith

lemma unat16_less [simp]: "unat (u :: u16) < 65536"
  using unsigned_less [of u, where 'a = nat] by simp

section \<open>Slices\<close>

text \<open>
  \<open>b[lo:hi]\<close> of Go.  The upper bound is checked against the length: where the code could also
  reach into the spare capacity behind a slice, \<open>slice_cap\<close> takes the bytes that lie there.
\<close>

definition slice :: "nat \<Rightarrow> nat \<Rightarrow> 'a list \<Rightarrow> 'a list outcome" where
  "slice lo hi b =
     (if lo \<le> hi \<and> hi \<le> length b then Returns (take (hi - lo) (drop lo b))
      else Panics SliceBounds)"

text \<open>\<open>b[lo:]\<close>\<close>

definition slice_from :: "nat \<Rightarrow> 'a list \<Rightarrow> 'a list outcome" where
  "slice_from lo b = (if lo \<le> length b then Returns (drop lo b) else Panics SliceBounds)"

text \<open>\<open>b[lo:hi]\<close> of a slice whose backing array goes on with the bytes \<open>spare\<close>.\<close>

definition slice_cap :: "'a list \<Rightarrow> nat \<Rightarrow> nat \<Rightarrow> 'a list \<Rightarrow> 'a list outcome" where
  "slice_cap spare lo hi b = slice lo hi (b @ spare)"

lemma slice_simps [simp]:
  "lo \<le> hi \<Longrightarrow> hi \<le> length b \<Longrightarrow> slice lo hi b = Returns (take (hi - lo) (drop lo b))"
  "\<not> lo \<le> hi \<Longrightarrow> slice lo hi b = Panics SliceBounds"
  "\<not> hi \<le> length b \<Longrightarrow> slice lo hi b = Panics SliceBounds"
  by (simp_all add: slice_def)

lemma slice_from_simps [simp]:
  "lo \<le> length b \<Longrightarrow> slice_from lo b = Returns (drop lo b)"
  "\<not> lo \<le> length b \<Longrightarrow> slice_from lo b = Panics SliceBounds"
  by (simp_all add: slice_from_def)

lemma slice_prefix [simp]: "length a = n \<Longrightarrow> slice 0 n (a @ r) = Returns a"
  by (simp add: slice_def)

lemma slice_middle [simp]:
  "length a = n \<Longrightarrow> n + length c = m \<Longrightarrow> slice n m (a @ c @ r) = Returns c"
  by (auto simp: slice_def)

lemma slice_from_prefix [simp]: "length a = n \<Longrightarrow> slice_from n (a @ r) = Returns r"
  by (auto simp: slice_from_def)

lemma slice_cap_within [simp]:
  "hi \<le> length b \<Longrightarrow> slice_cap spare lo hi b = slice lo hi b"
  by (simp add: slice_cap_def slice_def)

section \<open>Reading and writing\<close>

text \<open>\<open>io.ReadFull(r, buf)\<close> with \<open>len(buf) = n\<close>: the bytes read and the rest of the input.\<close>

definition ReadFull :: "nat \<Rightarrow> bytes \<Rightarrow> ioerr + bytes \<times> bytes" where
  "ReadFull n r =
     (if n \<le> length r then Inr (take n r, drop n r)
      else Inl (if r = [] then EOF else UnexpectedEOF))"

text \<open>
  \<open>io.CopyN(dst, r, n)\<close>: what is copied, what is left to read, and the error.  A negative \<open>n\<close>
  reads nothing and is no error: \<open>io.LimitReader\<close> is at its end at once, and zero bytes
  written is not fewer than \<open>n\<close>.
\<close>

definition CopyN :: "int \<Rightarrow> bytes \<Rightarrow> bytes \<times> bytes \<times> ioerr option" where
  "CopyN n r =
     (if n \<le> int (length r) then (take (nat n) r, drop (nat n) r, None)
      else (r, [], Some EOF))"

lemma ReadFull_append [simp]: "length a = n \<Longrightarrow> ReadFull n (a @ r) = Inr (a, r)"
  by (auto simp: ReadFull_def)

lemma ReadFull_Inr:
  "ReadFull n r = Inr (a, r') \<longleftrightarrow> r = a @ r' \<and> length a = n"
  by (auto simp: ReadFull_def)

lemma CopyN_append [simp]: "n = int (length a) \<Longrightarrow> CopyN n (a @ r) = (a, r, None)"
  by (auto simp: CopyN_def)

lemma CopyN_whole [simp]: "n = int (length a) \<Longrightarrow> CopyN n a = (a, [], None)"
  using CopyN_append [of n a "[]"] by simp

lemma CopyN_nonpos [simp]: "n \<le> 0 \<Longrightarrow> CopyN n r = ([], r, None)"
  by (auto simp: CopyN_def)

lemma CopyN_ok:
  "CopyN n r = (a, r', None) \<Longrightarrow> r = a @ r' \<and> length a = nat n"
  by (auto simp: CopyN_def split: if_splits)

lemma CopyN_conserves: "CopyN n r = (a, r', e) \<Longrightarrow> r = a @ r'"
  by (auto simp: CopyN_def split: if_splits)

text \<open>The other end of a connection: the bytes that left, and how many more it will take.\<close>

record conn_out =
  out :: bytes
  room :: "nat option"

text \<open>
  \<open>Write(p)\<close> of a connection: all of \<open>p\<close>, or a prefix and an error (the contract of
  \<open>io.Writer\<close>: a short write returns an error).
\<close>

definition conn_Write :: "conn_out \<Rightarrow> bytes \<Rightarrow> conn_out \<times> nat \<times> ioerr option" where
  "conn_Write w p =
     (case room w of
        None \<Rightarrow> (w\<lparr>out := out w @ p\<rparr>, length p, None)
      | Some k \<Rightarrow>
          if length p \<le> k
          then (w\<lparr>out := out w @ p, room := Some (k - length p)\<rparr>, length p, None)
          else (w\<lparr>out := out w @ take k p, room := Some 0\<rparr>, k, Some WriteFailed))"

text \<open>
  \<open>utils.WriteAll\<close> is a function of another repository: the model takes it as an argument
  (type \<open>write_all\<close>), and the laws it is used with are the locale \<open>writes_all\<close>.
\<close>

type_synonym write_all = "conn_out \<Rightarrow> bytes \<Rightarrow> conn_out \<times> nat \<times> ioerr option"

locale writes_all =
  fixes wa :: write_all
  assumes wa_ok: "wa w b = (w', n, None) \<Longrightarrow> out w' = out w @ b \<and> n = length b"
    and wa_err: "wa w b = (w', n, Some e) \<Longrightarrow>
      n < length b \<and> out w' = out w @ take n b"
    and wa_unlimited: "room w = None \<Longrightarrow>
      (\<exists>w' n. wa w b = (w', n, None) \<and> room w' = None)"
begin

lemma wa_prefix: "wa w b = (w', n, e) \<Longrightarrow> out w' = out w @ take n b \<and> n \<le> length b"
  using wa_ok [of w b w' n] wa_err [of w b w' n] by (cases e) (auto intro: less_imp_le)

lemma wa_total:
  assumes "room w = None"
  obtains w' where "wa w b = (w', length b, None)" "out w' = out w @ b" "room w' = None"
  using wa_unlimited [OF assms, of b] wa_ok [of w b] by metis

end

interpretation conn: writes_all conn_Write
  by unfold_locales (auto simp: conn_Write_def split: option.splits if_splits)

text \<open>
  The package \<open>github.com/johnietre/utils\<close> is not part of the repository.  What the program
  calls of it is one argument of the model: \<open>utils.WriteAll\<close>, \<open>utils.CloneSlice\<close>, and
  whether a goroutine may take a lock of the package (\<open>RWMutex.Apply\<close>, \<open>LockedWriter.LockWriter\<close>)
  a second time while it holds it.
\<close>

record utils =
  WriteAll :: write_all
  CloneSlice :: "bytes \<Rightarrow> bytes"
  reentrant :: bool

locale utils_contract = writes_all "WriteAll U" for U :: utils +
  assumes clone_id: "CloneSlice U b = b"

lemma utils_WriteAll:
  assumes "utils_contract U"
  shows "WriteAll U w b = (w', n, e) \<Longrightarrow> out w' = out w @ take n b \<and> n \<le> length b"
    and "WriteAll U w b = (w', n, None) \<Longrightarrow> n = length b"
    and "WriteAll U w b = (w', n, Some x) \<Longrightarrow> n < length b"
    and "room w = None \<Longrightarrow> \<exists>w'. WriteAll U w b = (w', length b, None) \<and>
      out w' = out w @ b \<and> room w' = None"
proof -
  have wa: "writes_all (WriteAll U)"
    using assms by (rule utils_contract.axioms(1))
  show "WriteAll U w b = (w', n, e) \<Longrightarrow> out w' = out w @ take n b \<and> n \<le> length b"
    by (rule writes_all.wa_prefix [OF wa])
  show "WriteAll U w b = (w', n, None) \<Longrightarrow> n = length b"
    by (drule writes_all.wa_ok [OF wa]) simp
  show "WriteAll U w b = (w', n, Some x) \<Longrightarrow> n < length b"
    by (drule writes_all.wa_err [OF wa]) simp
  show "room w = None \<Longrightarrow> \<exists>w'. WriteAll U w b = (w', length b, None) \<and>
      out w' = out w @ b \<and> room w' = None"
    by (erule writes_all.wa_total [OF wa, of w b]) blast
qed

lemma utils_CloneSlice: "utils_contract U \<Longrightarrow> CloneSlice U b = b"
  by (rule utils_contract.clone_id)

lemma conn_Write_unlimited [simp]:
  "room w = None \<Longrightarrow> conn_Write w p = (w\<lparr>out := out w @ p\<rparr>, length p, None)"
  by (simp add: conn_Write_def)

text \<open>An instance for concrete runs: a plain connection, a copy, ordinary (non-reentrant) locks.\<close>

definition plain_utils :: utils where
  "plain_utils = \<lparr>WriteAll = conn_Write, CloneSlice = (\<lambda>b. b), reentrant = False\<rparr>"

interpretation plain: utils_contract plain_utils
  by unfold_locales
    (auto simp: plain_utils_def conn_Write_def split: option.splits if_splits)

lemma plain_utils_sel [simp]:
  "WriteAll plain_utils = conn_Write"
  "CloneSlice plain_utils b = b"
  "reentrant plain_utils = False"
  by (simp_all add: plain_utils_def)

section \<open>Decimal numbers\<close>

text \<open>\<open>fmt.Sprint\<close> of an integer.\<close>

fun dec_nat :: "nat \<Rightarrow> gostring" where
  "dec_nat n = (if n < 10 then [of_nat (48 + n)] else dec_nat (n div 10) @ [of_nat (48 + n mod 10)])"

declare dec_nat.simps [simp del]

section \<open>Accepting connections\<close>

text \<open>
  The loop of a server over a listener with state \<open>'l\<close>: the connections it starts a handler on, and
  where it is after \<open>n\<close> rounds; with an error when it has returned it.
\<close>

fun serve_rounds :: "('l \<Rightarrow> ('l \<times> ('e + 'c)) outcome) \<Rightarrow> nat \<Rightarrow> 'l \<Rightarrow> 'c list \<times> ('l \<times> 'e option) outcome" where
  "serve_rounds accept 0 l = ([], Returns (l, None))"
| "serve_rounds accept (Suc n) l =
     (case accept l of
        Returns (l', Inl e) \<Rightarrow> ([], Returns (l', Some e))
      | Returns (l', Inr c) \<Rightarrow> (case serve_rounds accept n l' of (cs, x) \<Rightarrow> (c # cs, x))
      | Blocks \<Rightarrow> ([], Blocks)
      | Panics p \<Rightarrow> ([], Panics p))"

lemma serve_rounds_add:
  "serve_rounds accept (m + n) l =
     (case serve_rounds accept m l of
        (cs, Returns (l', None)) \<Rightarrow> (case serve_rounds accept n l' of (ds, x) \<Rightarrow> (cs @ ds, x))
      | y \<Rightarrow> y)"
  by (induction m arbitrary: l) (auto split: outcome.splits prod.splits sum.splits option.splits)

end
