(* ===== verification/Wire.thy ===== *)
theory Wire
  imports Prelude
begin

text \<open>
  \<open>go/other.go\<close>: the little-endian helpers every other file encodes and decodes with.
  \<open>le_put n u\<close> is the \<open>n\<close> bytes of \<open>u\<close>, lowest first, and \<open>le_get\<close> reads them back: the
  two bodies of \<open>encoding/binary\<close>'s \<open>LittleEndian\<close>.  \<open>place*\<close> writes into a buffer at an
  offset (\<open>place2(buf[i:], u)\<close>) and panics, as the library does, when it is too short.

  The locale \<open>le_codec\<close> is what the rest of the development uses of them: a fixed width, and
  that reading undoes writing.  It is interpreted for the 2-byte and the 8-byte helpers.
\<close>

primrec le_put :: "nat \<Rightarrow> 'a::len word \<Rightarrow> bytes" where
  "le_put 0 u = []"
| "le_put (Suc n) u = ucast u # le_put n (drop_bit 8 u)"

primrec le_get :: "bytes \<Rightarrow> 'a::len word" where
  "le_get [] = 0"
| "le_get (b # bs) = ucast b OR push_bit 8 (le_get bs)"

definition append2 :: "bytes \<Rightarrow> u16 \<Rightarrow> bytes" where
  "append2 buf u = buf @ le_put 2 u"

definition place2 :: "nat \<Rightarrow> u16 \<Rightarrow> bytes \<Rightarrow> bytes outcome" where
  "place2 i u buf =
     (if i + 2 \<le> length buf then Returns (take i buf @ le_put 2 u @ drop (i + 2) buf)
      else if i \<le> length buf then Panics IndexRange else Panics SliceBounds)"

definition get2 :: "bytes \<Rightarrow> u16 outcome" where
  "get2 buf = (if 2 \<le> length buf then Returns (le_get (take 2 buf)) else Panics IndexRange)"

definition append8 :: "bytes \<Rightarrow> u64 \<Rightarrow> bytes" where
  "append8 buf u = buf @ le_put 8 u"

definition place8 :: "nat \<Rightarrow> u64 \<Rightarrow> bytes \<Rightarrow> bytes outcome" where
  "place8 i u buf =
     (if i + 8 \<le> length buf then Returns (take i buf @ le_put 8 u @ drop (i + 8) buf)
      else if i \<le> length buf then Panics IndexRange else Panics SliceBounds)"

definition get8 :: "bytes \<Rightarrow> u64 outcome" where
  "get8 buf = (if 8 \<le> length buf then Returns (le_get (take 8 buf)) else Panics IndexRange)"

section \<open>Reading undoes writing\<close>

lemma length_le_put [simp]: "length (le_put n u) = n"
  by (induction n arbitrary: u) auto

lemma bit_le_cons:
  "bit (ucast (b :: byte) OR push_bit 8 (w :: 'a::len word)) i \<longleftrightarrow>
     i < LENGTH('a) \<and> (if i < 8 then bit b i else bit w (i - 8))"
  by (auto simp: bit_simps dest: bit_imp_le_length)

lemma le_get_put: "le_get (le_put n u) = take_bit (8 * n) (u :: 'a::len word)"
proof (induction n arbitrary: u)
  case (Suc n)
  show ?case
    by (rule bit_word_eqI)
      (auto simp: Suc.IH bit_le_cons bit_take_bit_iff bit_drop_bit_eq bit_ucast_iff)
qed simp

lemma le_put_cong:
  "(\<And>i. i < 8 * n \<Longrightarrow> bit (u :: 'a::len word) i = bit v i) \<Longrightarrow> le_put n u = le_put n v"
proof (induction n arbitrary: u v)
  case (Suc n)
  have "ucast u = (ucast v :: byte)"
    by (rule bit_word_eqI) (use Suc.prems in \<open>auto simp: bit_simps\<close>)
  moreover have "le_put n (drop_bit 8 u) = le_put n (drop_bit 8 v)"
    by (rule Suc.IH) (use Suc.prems in \<open>auto simp: bit_simps\<close>)
  ultimately show ?case by simp
qed simp

lemma le_put_get:
  "8 * length bs \<le> LENGTH('a) \<Longrightarrow> le_put (length bs) (le_get bs :: 'a::len word) = bs"
proof (induction bs)
  case (Cons b bs)
  have "ucast (ucast b OR push_bit 8 (le_get bs :: 'a word)) = b"
    by (rule bit_word_eqI) (use Cons.prems in \<open>auto simp: bit_simps\<close>)
  moreover have "le_put (length bs) (drop_bit 8 (ucast b OR push_bit 8 (le_get bs :: 'a word)))
      = le_put (length bs) (le_get bs :: 'a word)"
    by (rule le_put_cong)
      (use Cons.prems in \<open>auto simp: bit_simps dest: bit_imp_le_length\<close>)
  ultimately show ?case using Cons by simp
qed simp

lemma le_put_numeral [wire_eval]:
  "le_put (numeral k) u = ucast u # le_put (pred_numeral k) (drop_bit 8 u)"
  by (simp add: numeral_eq_Suc)

locale le_codec =
  fixes put :: "'a::len word \<Rightarrow> bytes"
    and get :: "bytes \<Rightarrow> 'a word outcome"
    and width :: nat
  assumes length_put: "length (put u) = width"
    and get_put: "get (put u @ rest) = Returns u"
    and get_short: "length b < width \<Longrightarrow> get b = Panics IndexRange"
begin

lemma put_inject: "put u @ r = put v @ s \<longleftrightarrow> u = v \<and> r = s"
proof
  assume eq: "put u @ r = put v @ s"
  then have "get (put u @ r) = get (put v @ s)" by simp
  then have "u = v" by (simp add: get_put)
  with eq show "u = v \<and> r = s" by simp
qed simp

lemma get_put_end: "get (put u) = Returns u"
  using get_put [of u "[]"] by simp

end

interpretation le16: le_codec "\<lambda>u :: u16. le_put 2 u" get2 2
  by unfold_locales (auto simp: get2_def le_get_put take_bit_word_eq_self)

interpretation le64: le_codec "\<lambda>u :: u64. le_put 8 u" get8 8
  by unfold_locales (auto simp: get8_def le_get_put take_bit_word_eq_self)

lemmas get2_put [simp] = le16.get_put le16.get_put_end
lemmas get8_put [simp] = le64.get_put le64.get_put_end

lemma get2_Returns_iff: "get2 b = Returns u \<longleftrightarrow> 2 \<le> length b \<and> u = le_get (take 2 b)"
  by (auto simp: get2_def)

lemma get2_long [simp]: "2 \<le> length b \<Longrightarrow> get2 b = Returns (le_get (take 2 b))"
  by (simp add: get2_def)

lemma get8_long [simp]: "8 \<le> length b \<Longrightarrow> get8 b = Returns (le_get (take 8 b))"
  by (simp add: get8_def)

lemma le_get2_put [simp]: "le_get (take 2 (le_put 2 (u :: u16) @ r)) = u"
  by (simp add: le_get_put take_bit_word_eq_self)

lemma le_get_put_exact [simp]:
  "le_get (le_put 2 (u :: u16)) = u"
  "le_get (le_put 8 (w :: u64)) = w"
  by (simp_all add: le_get_put take_bit_word_eq_self)

lemma le_get8_put [simp]: "le_get (take 8 (le_put 8 (u :: u64) @ r)) = u"
  by (simp add: le_get_put take_bit_word_eq_self)

section \<open>Fixed-size frame heads\<close>

text \<open>
  The frame heads (21, 20 and 17 bytes) are arrays of constant size, filled and read at constant
  offsets inside them.  \<open>put_at\<close> is \<open>place*\<close> at such an offset, \<open>u16_at\<close> and \<open>u64_at\<close> are
  \<open>get2(buf[i:])\<close> and \<open>get8(buf[i:])\<close>.
\<close>

definition put_at :: "nat \<Rightarrow> bytes \<Rightarrow> bytes \<Rightarrow> bytes" where
  "put_at i bs buf = take i buf @ bs @ drop (i + length bs) buf"

definition u16_at :: "nat \<Rightarrow> bytes \<Rightarrow> u16" where
  "u16_at i buf = le_get (take 2 (drop i buf))"

definition u64_at :: "nat \<Rightarrow> bytes \<Rightarrow> u64" where
  "u64_at i buf = le_get (take 8 (drop i buf))"

lemma place2_put_at: "i + 2 \<le> length buf \<Longrightarrow> place2 i u buf = Returns (put_at i (le_put 2 u) buf)"
  by (simp add: place2_def put_at_def)

lemma place8_put_at: "i + 8 \<le> length buf \<Longrightarrow> place8 i u buf = Returns (put_at i (le_put 8 u) buf)"
  by (simp add: place8_def put_at_def)

lemma get2_u16_at: "i + 2 \<le> length buf \<Longrightarrow> get2 (drop i buf) = Returns (u16_at i buf)"
  by (simp add: u16_at_def)

lemma get8_u64_at: "i + 8 \<le> length buf \<Longrightarrow> get8 (drop i buf) = Returns (u64_at i buf)"
  by (simp add: u64_at_def)

lemma u16_at_append [simp]: "length a = i \<Longrightarrow> u16_at i (a @ le_put 2 u @ r) = u"
  by (auto simp: u16_at_def)

lemma u64_at_append [simp]: "length a = i \<Longrightarrow> u64_at i (a @ le_put 8 u @ r) = u"
  by (auto simp: u64_at_def)

section \<open>Lengths read as signed integers\<close>

text \<open>The source converts an 8-byte length with \<open>int64(...)\<close>: the top bit makes it negative.\<close>

lemma sint64: "sint (u :: u64) = (if unat u < 2 ^ 63 then int (unat u) else int (unat u) - 2 ^ 64)"
proof -
  have t: "take_bit 64 (uint u) = uint u"
    using unsigned_less [of u, where 'a = int] by (simp add: take_bit_int_eq_self)
  have "sint u = uint u - 2 ^ 64 * of_bool (bit (uint u) 63)"
    unfolding sint_uint by (simp add: signed_take_bit_eq_take_bit_minus t)
  moreover have "- (2 ^ 63) \<le> sint u" "sint u < 2 ^ 63"
    using sint_ge [of u] sint_lt [of u] by simp_all
  moreover have "uint u < 2 ^ 63 \<longleftrightarrow> unat u < 2 ^ 63"
    by (simp flip: nat_uint_eq add: nat_less_iff)
  ultimately show ?thesis
    using uint_ge_0 [of u] of_nat_unat [of u, where ?'a = int] 
    by (cases "bit (uint u) 63") (auto simp del: of_nat_unat)
qed

lemma sint64_nonneg: "0 \<le> sint (u :: u64) \<Longrightarrow> sint u = int (unat u)"
  and sint64_le: "sint (u :: u64) \<le> int (unat u)"
  and sint64_of_nat: "n < 2 ^ 63 \<Longrightarrow> sint (of_nat n :: u64) = int n"
proof -
  have "unat u < 2 ^ 64" using unsigned_less [of u, where 'a = nat] by simp
  then have b: "int (unat u) < 2 ^ 64" by (metis of_nat_less_iff of_nat_numeral of_nat_power)
  show "sint u \<le> int (unat u)"
    unfolding sint64 by (simp del: of_nat_unat)
  show "sint u = int (unat u)" if "0 \<le> sint u"
    using that b unfolding sint64 by (simp del: of_nat_unat split: if_splits)
  show "n < 2 ^ 63 \<Longrightarrow> sint (of_nat n :: u64) = int n"
    by (simp add: signed_of_nat signed_take_bit_int_eq_self)
qed

lemma unat64_of_nat [simp]: "n < 2 ^ 63 \<Longrightarrow> unat (of_nat n :: u64) = n"
  by (simp add: unat_of_nat take_bit_nat_eq_self)

section \<open>Streams of frames\<close>

text \<open>
  Every message of the protocol is a frame written by one side and read by the other.
  \<open>frame_codec\<close> is the contract between a writer and a reader: reading takes exactly the bytes
  of the frame off the input.  Its lemmas hold for every frame type: frames are unambiguous,
  and a sequence of frames written back to back is read back in order.
\<close>

fun read_frames :: "(bytes \<Rightarrow> 'e + 'g \<times> bytes) \<Rightarrow> nat \<Rightarrow> bytes \<Rightarrow> 'e + 'g list \<times> bytes" where
  "read_frames rd 0 r = Inr ([], r)"
| "read_frames rd (Suc n) r =
     (case rd r of
        Inl e \<Rightarrow> Inl e
      | Inr (f, r') \<Rightarrow>
          (case read_frames rd n r' of
             Inl e \<Rightarrow> Inl e
           | Inr (fs, r'') \<Rightarrow> Inr (f # fs, r'')))"

locale frame_codec =
  fixes enc :: "'f \<Rightarrow> bytes"
    and rd :: "bytes \<Rightarrow> 'e + 'g \<times> bytes"
    and ok :: "'f \<Rightarrow> bool"
    and res :: "'f \<Rightarrow> 'g"
  assumes rd_enc: "ok f \<Longrightarrow> rd (enc f @ rest) = Inr (res f, rest)"
begin

lemma unambiguous:
  assumes "ok f" "ok g" "enc f @ r = enc g @ s"
  shows "res f = res g \<and> r = s"
proof -
  have "rd (enc f @ r) = rd (enc g @ s)" using assms(3) by simp
  then show ?thesis using assms(1,2) by (simp add: rd_enc)
qed

lemma read_sequence:
  "list_all ok fs \<Longrightarrow>
     read_frames rd (length fs) (concat (map enc fs) @ rest) = Inr (map res fs, rest)"
  by (induction fs) (simp_all add: rd_enc)

end

end
