(* ===== verification/Headers.thy ===== *)
theory Headers
  imports Wire "HOL-Library.Multiset"
begin

text \<open>
  \<open>Headers\<close> of \<open>go/req_resp.go\<close>: request and response headers, held either as the raw bytes
  of the wire or, once parsed, as a map.  One definition per method, in the order of the file.

  \<^item> A Go map is an \<open>option\<close> (\<open>None\<close> is the nil map: reading it finds nothing, storing into it
    panics) of a HOL map.  The order in which \<open>range\<close> visits a map is chosen by the run time at
    each loop, so a method that ranges over the map takes that order as its argument \<open>kvs\<close>;
    \<open>iterates kvs m\<close> says that \<open>kvs\<close> lists the entries of \<open>m\<close>, each once.
  \<^item> The loops over the raw bytes keep the source's variables: \<open>l\<close> counts the bytes left, \<open>b\<close>
    is the slice that moves along.  \<open>Parse\<close> adds the two 16-bit lengths in 16 bits.
  \<^item> \<open>decode\<close> is the specification the byte loops are compared with: it splits a byte string
    into its complete entries and the rest, on natural numbers.
\<close>

section \<open>State\<close>

type_synonym kvlist = "(gostring \<times> gostring) list"
type_synonym gomap = "(gostring \<rightharpoonup> gostring) option"

definition MaxHeadersLen :: nat where
  "MaxHeadersLen = 2 ^ 16 - 1"

datatype hdrerr = ErrHeadersTooLarge

record headers =
  hbytes :: bytes
  hm :: gomap
  parsed :: bool

definition lookup :: "gomap \<Rightarrow> gostring \<Rightarrow> gostring option" where
  "lookup m k = (case m of None \<Rightarrow> None | Some f \<Rightarrow> f k)"

definition iterates :: "kvlist \<Rightarrow> gomap \<Rightarrow> bool" where
  "iterates kvs m \<longleftrightarrow> distinct (map fst kvs) \<and> map_of kvs = lookup m"

definition NewHeaders :: "bool \<Rightarrow> headers" where
  "NewHeaders p = \<lparr>hbytes = [], hm = (if p then Some Map.empty else None), parsed = p\<rparr>"

definition newHeaders :: "bytes \<Rightarrow> headers" where
  "newHeaders b = \<lparr>hbytes = b, hm = None, parsed = False\<rparr>"

section \<open>Construction from an HTTP header\<close>

text \<open>
  The three functions meant to be passed as \<open>f\<close>.  In the source both parameters of each are
  of type \<open>[]string\<close>; the first is ignored.
\<close>

definition GetFirstValue :: "gostring list \<Rightarrow> gostring list \<Rightarrow> gostring" where
  "GetFirstValue ks vs = (if length vs = 0 then [] else vs ! 0)"

definition GetLastValue :: "gostring list \<Rightarrow> gostring list \<Rightarrow> gostring" where
  "GetLastValue ks vs = (if length vs \<noteq> 0 then vs ! (length vs - 1) else [])"

fun strings_Join :: "gostring list \<Rightarrow> gostring \<Rightarrow> gostring" where
  "strings_Join [] sep = []"
| "strings_Join [x] sep = x"
| "strings_Join (x # y # r) sep = x @ sep @ strings_Join (y # r) sep"

definition JoinValues :: "gostring list \<Rightarrow> gostring list \<Rightarrow> gostring" where
  "JoinValues ks vs = strings_Join vs (lit '','')"

text \<open>The encoding of one entry, appended as the source appends it.\<close>

definition append_kv :: "bytes \<Rightarrow> gostring \<Rightarrow> gostring \<Rightarrow> bytes" where
  "append_kv b k v =
     append2 (append2 b (of_nat (length k))) (of_nat (length v)) @ k @ v"

type_synonym httpheader = "(gostring \<times> gostring list) list"

fun http_fill :: "(gostring \<Rightarrow> gostring list \<Rightarrow> gostring) \<Rightarrow> httpheader \<Rightarrow>
    (gostring \<rightharpoonup> gostring) \<Rightarrow> (gostring \<rightharpoonup> gostring)" where
  "http_fill f [] m = m"
| "http_fill f ((k, vs) # r) m = http_fill f r (m(k \<mapsto> f k vs))"

fun http_encode :: "(gostring \<Rightarrow> gostring list \<Rightarrow> gostring) \<Rightarrow> httpheader \<Rightarrow>
    bytes \<Rightarrow> hdrerr + bytes" where
  "http_encode f [] b = Inr b"
| "http_encode f ((k, vs) # r) b =
     (let v = f k vs; kl = length k; vl = length v in
      if 4 + kl + vl + length b > MaxHeadersLen then Inl ErrHeadersTooLarge
      else http_encode f r (append_kv b k v))"

definition FromHTTPHeader :: "httpheader \<Rightarrow> bool \<Rightarrow>
    (gostring \<Rightarrow> gostring list \<Rightarrow> gostring) \<Rightarrow> hdrerr + headers" where
  "FromHTTPHeader h p f =
     (if p then Inr \<lparr>hbytes = [], hm = Some (http_fill f h Map.empty), parsed = True\<rparr>
      else case http_encode f h [] of
        Inl e \<Rightarrow> Inl e
      | Inr b \<Rightarrow> Inr (newHeaders b))"

text \<open>The entries that do not fit stay in the HTTP header.\<close>

fun http_encodeP :: "(gostring \<Rightarrow> gostring list \<Rightarrow> gostring) \<Rightarrow> httpheader \<Rightarrow>
    bytes \<Rightarrow> bytes \<times> httpheader" where
  "http_encodeP f [] b = (b, [])"
| "http_encodeP f ((k, vs) # r) b =
     (let v = f k vs; kl = length k; vl = length v in
      if 4 + kl + vl + length b > MaxHeadersLen
      then (let (b', left) = http_encodeP f r b in (b', (k, vs) # left))
      else http_encodeP f r (append_kv b k v))"

definition FromHTTPHeaderP :: "httpheader \<Rightarrow> bool \<Rightarrow>
    (gostring \<Rightarrow> gostring list \<Rightarrow> gostring) \<Rightarrow> headers \<times> httpheader option" where
  "FromHTTPHeaderP h p f =
     (if p
      then (\<lparr>hbytes = [], hm = Some (http_fill f h Map.empty), parsed = True\<rparr>, None)
      else let (b, left) = http_encodeP f h [] in (newHeaders b, Some left))"

section \<open>Methods\<close>

definition Headers_Clone :: "utils \<Rightarrow> headers \<Rightarrow> headers" where
  "Headers_Clone U h =
     (if \<not> parsed h then newHeaders (CloneSlice U (hbytes h))
      else \<lparr>hbytes = [], hm = Some (lookup (hm h)), parsed = True\<rparr>)"

definition IsParsed :: "headers \<Rightarrow> bool" where
  "IsParsed h = parsed h"

text \<open>
  The loop of \<open>Parse\<close>.  \<open>kl + vl\<close> is the 16-bit sum.  When it wraps, the upper bound of
  \<open>h.bytes[kl:kvl]\<close> is below the lower one and the slice expression panics, whatever the
  capacity of \<open>h.bytes\<close>.
\<close>

function parse_loop :: "nat \<Rightarrow> bytes \<Rightarrow> (gostring \<rightharpoonup> gostring) \<Rightarrow>
    (gostring \<rightharpoonup> gostring) outcome" where
  "parse_loop l b m =
     (if l < 4 then Returns m
      else
        obind (get2 b) (\<lambda>kl.
        obind (slice_from 2 b) (\<lambda>b2.
        obind (get2 b2) (\<lambda>vl.
        obind (slice_from 4 b) (\<lambda>b4.
          let l4 = l - 4; kvl = unat (kl + vl) in
          if kvl > l4 then Returns m
          else
            obind (slice 0 (unat kl) b4) (\<lambda>k.
            obind (slice (unat kl) kvl b4) (\<lambda>v.
            obind (slice_from kvl b4) (\<lambda>b'.
              parse_loop (l4 - kvl) b' (m(k \<mapsto> v))))))))))"
  by pat_completeness auto
termination by (relation "measure (\<lambda>(l, b, m). l)") auto

definition Headers_Parse :: "headers \<Rightarrow> (headers \<times> gomap) outcome" where
  "Headers_Parse h =
     (if parsed h then Returns (h, hm h)
      else obind (parse_loop (length (hbytes h)) (hbytes h) Map.empty) (\<lambda>m.
        Returns (\<lparr>hbytes = [], hm = Some m, parsed = True\<rparr>, Some m)))"

fun encode_loop :: "bytes \<Rightarrow> nat \<Rightarrow> kvlist \<Rightarrow> hdrerr + bytes" where
  "encode_loop b headersLen [] = Inr b"
| "encode_loop b headersLen ((k, v) # r) =
     (let headersLen' = headersLen + (length k + length v) in
      if headersLen' > MaxHeadersLen then Inl ErrHeadersTooLarge
      else encode_loop (append_kv b k v) headersLen' r)"

definition Headers_Encode :: "kvlist \<Rightarrow> headers \<Rightarrow> headers \<times> (hdrerr + bytes)" where
  "Headers_Encode kvs h =
     (if \<not> parsed h then (h, Inr (hbytes h))
      else case encode_loop [] 0 kvs of
        Inl e \<Rightarrow> (h, Inl e)
      | Inr b \<Rightarrow> (newHeaders b, Inr b))"

fun encodeP_loop :: "bytes \<Rightarrow> nat \<Rightarrow> kvlist \<Rightarrow> gomap \<Rightarrow> bytes \<times> gomap" where
  "encodeP_loop b headersLen [] m = (b, m)"
| "encodeP_loop b headersLen ((k, v) # r) m =
     (let kvl = length k + length v; headersLen' = headersLen + kvl in
      if headersLen' > MaxHeadersLen then encodeP_loop b (headersLen' - kvl) r m
      else encodeP_loop (append_kv b k v) headersLen' r (map_option (\<lambda>f. f(k := None)) m))"

definition Headers_EncodeP :: "kvlist \<Rightarrow> headers \<Rightarrow> headers \<times> bytes \<times> gomap" where
  "Headers_EncodeP kvs h =
     (if \<not> parsed h then (h, hbytes h, None)
      else let (b, m) = encodeP_loop [] 0 kvs (hm h) in (newHeaders b, b, m))"

definition EncodedLen :: "kvlist \<Rightarrow> headers \<Rightarrow> nat" where
  "EncodedLen kvs h =
     (if \<not> parsed h then length (hbytes h)
      else foldl (\<lambda>l (k, v). l + (4 + length k + length v)) 0 kvs)"

text \<open>
  The search of \<open>GetChecked\<close>: the two lengths are added as \<open>int\<close>s, and the bound is the
  length of the slice itself.
\<close>

function get_loop :: "nat \<Rightarrow> bytes \<Rightarrow> gostring \<Rightarrow> (gostring \<times> bool) outcome" where
  "get_loop l b key =
     (if l < 4 then Returns ([], False)
      else
        obind (get2 b) (\<lambda>klw.
        obind (slice_from 2 b) (\<lambda>b2.
        obind (get2 b2) (\<lambda>vlw.
        obind (slice_from 4 b) (\<lambda>b4.
          let kl = unat klw; vl = unat vlw; kvl = kl + vl in
          if kvl > length b4 then Returns ([], False)
          else
            obind (slice 0 kl b4) (\<lambda>k.
              if kl = length key \<and> k = key
              then obind (slice kl kvl b4) (\<lambda>v. Returns (v, True))
              else obind (slice_from kvl b4) (\<lambda>b'. get_loop (l - 4 - kvl) b' key)))))))"
  by pat_completeness auto
termination by (relation "measure (\<lambda>(l, b, key). l)") auto

definition GetChecked :: "gostring \<Rightarrow> headers \<Rightarrow> (gostring \<times> bool) outcome" where
  "GetChecked key h =
     (if parsed h
      then Returns (case lookup (hm h) key of Some v \<Rightarrow> (v, True) | None \<Rightarrow> ([], False))
      else get_loop (length (hbytes h)) (hbytes h) key)"

definition Headers_Get :: "gostring \<Rightarrow> headers \<Rightarrow> gostring outcome" where
  "Headers_Get key h = obind (GetChecked key h) (\<lambda>(v, ok). Returns v)"

definition Headers_Set :: "gostring \<Rightarrow> gostring \<Rightarrow> headers \<Rightarrow> (headers \<times> bool) outcome" where
  "Headers_Set key value h =
     (if parsed h
      then (case hm h of
              None \<Rightarrow> Panics NilMapWrite
            | Some m \<Rightarrow> Returns (h\<lparr>hm := Some (m(key \<mapsto> value))\<rparr>, True))
      else
        let kl = length key; vl = length value in
        if 4 + kl + vl + length (hbytes h) > MaxHeadersLen then Returns (h, False)
        else
          obind (place2 0 (of_nat kl) (replicate 4 0)) (\<lambda>buf.
          obind (place2 2 (of_nat vl) buf) (\<lambda>buf'.
            Returns (h\<lparr>hbytes := hbytes h @ buf' @ key @ value\<rparr>, True))))"

definition SetAll :: "gomap \<Rightarrow> kvlist \<Rightarrow> headers \<Rightarrow> headers \<times> bool" where
  "SetAll m kvs h =
     (let h1 = h\<lparr>hm := m\<rparr> in
      if parsed h1 then (h1, True)
      else let (h2, r) = Headers_Encode kvs (h1\<lparr>parsed := True\<rparr>) in
        (h2\<lparr>hm := None, parsed := False\<rparr>, case r of Inl e \<Rightarrow> False | Inr b \<Rightarrow> True))"

definition SetAllP :: "gomap \<Rightarrow> kvlist \<Rightarrow> headers \<Rightarrow> headers \<times> gomap" where
  "SetAllP m kvs h =
     (let h1 = h\<lparr>hm := m\<rparr> in
      if parsed h1 then (h1, None)
      else let (h2, b, rest) = Headers_EncodeP kvs (h1\<lparr>parsed := True\<rparr>) in (h2, rest))"

text \<open>
  The search of \<open>RemoveChecked\<close>.  The bound \<open>l\<close> is compared before the 4 bytes of the
  lengths are taken off it.  An entry that overruns the slice by at most 4 bytes passes the
  test; each slice expression it can reach then panics (\<open>h.bytes[i+4+kvl:]\<close> or \<open>b[kvl:]\<close>, if
  not an earlier one), whatever the capacity.
\<close>

function remove_loop :: "nat \<Rightarrow> int \<Rightarrow> bytes \<Rightarrow> gostring \<Rightarrow> bytes \<Rightarrow>
    (bytes \<times> gostring \<times> bool) outcome" where
  "remove_loop i l b key hb =
     (if l < 4 then Returns (hb, [], False)
      else
        obind (get2 b) (\<lambda>klw.
        obind (slice_from 2 b) (\<lambda>b2.
        obind (get2 b2) (\<lambda>vlw.
        obind (slice_from 4 b) (\<lambda>b4.
          let kl = unat klw; vl = unat vlw; kvl = kl + vl in
          if int kvl > l then Returns (hb, [], False)
          else
            obind (if kl = length key
                   then obind (slice 0 kl b4) (\<lambda>k. Returns (k = key))
                   else Returns False) (\<lambda>found.
              if found
              then
                obind (slice kl kvl b4) (\<lambda>val.
                obind (slice 0 i hb) (\<lambda>before.
                obind (slice_from (i + 4 + kvl) hb) (\<lambda>after.
                  Returns (before @ after, val, True))))
              else
                obind (slice_from kvl b4) (\<lambda>b'.
                  remove_loop (i + (4 + kvl)) (l - 4 - int kvl) b' key hb)))))))"
  by pat_completeness auto
termination by (relation "measure (\<lambda>(i, l, b, key, hb). nat l)") auto

definition RemoveChecked :: "gostring \<Rightarrow> headers \<Rightarrow> (headers \<times> gostring \<times> bool) outcome" where
  "RemoveChecked key h =
     (if parsed h
      then Returns (h\<lparr>hm := map_option (\<lambda>f. f(key := None)) (hm h)\<rparr>,
             case lookup (hm h) key of Some v \<Rightarrow> (v, True) | None \<Rightarrow> ([], False))
      else obind (remove_loop 0 (int (length (hbytes h))) (hbytes h) key (hbytes h))
             (\<lambda>(b, v, ok). Returns (h\<lparr>hbytes := b\<rparr>, v, ok)))"

definition Headers_Remove :: "gostring \<Rightarrow> headers \<Rightarrow> (headers \<times> gostring) outcome" where
  "Headers_Remove key h = obind (RemoveChecked key h) (\<lambda>(h', v, ok). Returns (h', v))"

text \<open>
  \<open>Range\<close>: the callback \<open>f\<close> carries its own state.  Over raw bytes the slice \<open>b\<close> only moves past
  the 4 length bytes; \<open>spare\<close> are the bytes behind the slice in its array, which \<open>b[:kl]\<close> and
  \<open>b[kl:kvl]\<close> may reach.
\<close>

fun range_map :: "('s \<Rightarrow> gostring \<Rightarrow> gostring \<Rightarrow> bool \<times> 's) \<Rightarrow> kvlist \<Rightarrow> 's \<Rightarrow> 's" where
  "range_map f [] s = s"
| "range_map f ((k, v) # r) s =
     (let (go, s') = f s k v in if \<not> go then s' else range_map f r s')"

function range_loop :: "bytes \<Rightarrow> ('s \<Rightarrow> gostring \<Rightarrow> gostring \<Rightarrow> bool \<times> 's) \<Rightarrow> int \<Rightarrow>
    bytes \<Rightarrow> 's \<Rightarrow> 's outcome" where
  "range_loop spare f l b s =
     (if l < 4 then Returns s
      else
        obind (get2 b) (\<lambda>klw.
        obind (slice_from 2 b) (\<lambda>b2.
        obind (get2 b2) (\<lambda>vlw.
        obind (slice_from 4 b) (\<lambda>b4.
          let kl = unat klw; vl = unat vlw; kvl = kl + vl in
          if int kvl > l then Returns s
          else
            obind (slice_cap spare 0 kl b4) (\<lambda>k.
            obind (slice_cap spare kl kvl b4) (\<lambda>v.
              let (go, s') = f s k v in
              if \<not> go then Returns s'
              else range_loop spare f (l - 4 - int kvl) b4 s')))))))"
  by pat_completeness auto
termination by (relation "measure (\<lambda>(spare, f, l, b, s). nat l)") auto

definition Headers_Range :: "bytes \<Rightarrow> ('s \<Rightarrow> gostring \<Rightarrow> gostring \<Rightarrow> bool \<times> 's) \<Rightarrow>
    kvlist \<Rightarrow> headers \<Rightarrow> 's \<Rightarrow> 's outcome" where
  "Headers_Range spare f kvs h s =
     (if parsed h then Returns (range_map f kvs s)
      else range_loop spare f (int (length (hbytes h))) (hbytes h) s)"

declare parse_loop.simps [simp del] get_loop.simps [simp del]
  remove_loop.simps [simp del] range_loop.simps [simp del]

section \<open>The wire format: a specification on natural numbers\<close>

definition enc_kv :: "gostring \<Rightarrow> gostring \<Rightarrow> bytes" where
  "enc_kv k v = append_kv [] k v"

definition wire :: "kvlist \<Rightarrow> bytes" where
  "wire kvs = concat (map (\<lambda>(k, v). enc_kv k v) kvs)"

definition fits :: "gostring \<times> gostring \<Rightarrow> bool" where
  "fits kv \<longleftrightarrow> length (fst kv) < 2 ^ 16 \<and> length (snd kv) < 2 ^ 16"

text \<open>The two lengths an encoded entry starts with.\<close>

definition klen :: "bytes \<Rightarrow> nat" where
  "klen b = unat (le_get (take 2 b) :: u16)"

definition vlen :: "bytes \<Rightarrow> nat" where
  "vlen b = unat (le_get (take 2 (drop 2 b)) :: u16)"

text \<open>The first complete entry of a byte string and what follows it.\<close>

definition entry :: "bytes \<Rightarrow> (gostring \<times> gostring \<times> bytes) option" where
  "entry b =
     (if 4 \<le> length b \<and> klen b + vlen b \<le> length b - 4
      then Some (take (klen b) (drop 4 b), take (vlen b) (drop (4 + klen b) b),
             drop (4 + klen b + vlen b) b)
      else None)"

function decode :: "bytes \<Rightarrow> kvlist \<times> bytes" where
  "decode b =
     (case entry b of
        None \<Rightarrow> ([], b)
      | Some (k, v, r) \<Rightarrow> (let (kvs, rest) = decode r in ((k, v) # kvs, rest)))"
  by pat_completeness auto
termination
  by (relation "measure length") (auto simp: entry_def split: if_splits)

declare decode.simps [simp del]

lemma append_kv_eq: "append_kv b k v = b @ enc_kv k v"
  by (simp add: append_kv_def enc_kv_def append2_def)

lemma enc_kv_eq:
  "enc_kv k v = le_put 2 (of_nat (length k) :: u16) @ le_put 2 (of_nat (length v) :: u16) @ k @ v"
  by (simp add: append_kv_def enc_kv_def append2_def)

lemma length_enc_kv [simp]: "length (enc_kv k v) = 4 + length k + length v"
  by (simp add: enc_kv_eq)

lemma wire_simps [simp]:
  "wire [] = []"
  "wire ((k, v) # kvs) = enc_kv k v @ wire kvs"
  "wire (kvs @ kvs') = wire kvs @ wire kvs'"
  by (simp_all add: wire_def)

lemma length_wire: "length (wire kvs) = (\<Sum>(k, v) \<leftarrow> kvs. 4 + length k + length v)"
  by (induction kvs) auto

lemma fits_Pair [simp]: "fits (k, v) \<longleftrightarrow> length k < 2 ^ 16 \<and> length v < 2 ^ 16"
  by (simp add: fits_def)

lemma unat_of_nat16 [simp]: "n < 2 ^ 16 \<Longrightarrow> unat (of_nat n :: u16) = n"
  by (simp add: unat_of_nat)

lemma klen_enc [simp]: "length k < 2 ^ 16 \<Longrightarrow> klen (enc_kv k v @ r) = length k"
  by (simp add: klen_def enc_kv_eq)

lemma vlen_enc [simp]: "length v < 2 ^ 16 \<Longrightarrow> vlen (enc_kv k v @ r) = length v"
  by (simp add: vlen_def enc_kv_eq)

lemma entry_enc:
  assumes "fits (k, v)"
  shows "entry (enc_kv k v @ r) = Some (k, v, r)"
proof -
  have "drop 4 (enc_kv k v @ r) = k @ v @ r"
    by (simp add: enc_kv_eq)
  moreover have "drop (4 + n) (enc_kv k v @ r) = drop n (drop 4 (enc_kv k v @ r))" for n
    by (simp add: add.commute)
  moreover have "drop (4 + length k + length v) (enc_kv k v @ r) = r"
    by simp
  moreover have "drop (length k) (k @ v @ r) = v @ r"
    by simp
  ultimately show ?thesis
    using assms by (simp add: entry_def del: drop_append)
qed

lemma le_put2_get: "2 \<le> length b \<Longrightarrow> le_put 2 (le_get (take 2 b) :: u16) = take 2 b"
  using le_put_get [of "take 2 b", where 'a = 16] by simp

lemma entry_SomeD:
  assumes "entry b = Some (k, v, r)"
  shows "b = enc_kv k v @ r" and "fits (k, v)"
proof -
  have len: "4 \<le> length b" "klen b + vlen b \<le> length b - 4"
    and k: "k = take (klen b) (drop 4 b)" and v: "v = take (vlen b) (drop (4 + klen b) b)"
    and r: "r = drop (4 + klen b + vlen b) b"
    using assms by (auto simp: entry_def split: if_splits)
  have lk: "length k = klen b" and lv: "length v = vlen b"
    using k v len by auto
  have "le_put 2 (of_nat (length k) :: u16) = take 2 b"
    using len by (simp add: lk klen_def le_put2_get)
  moreover have "le_put 2 (of_nat (length v) :: u16) = take 2 (drop 2 b)"
    using len by (simp add: lv vlen_def le_put2_get)
  moreover have "b = take 2 b @ take 2 (drop 2 b) @ drop 4 b"
    by (metis append_take_drop_id drop_drop numeral_Bit0)
  moreover have "drop 4 b = k @ v @ r"
    by (metis k v r append_take_drop_id drop_drop add.commute add.left_commute)
  ultimately show "b = enc_kv k v @ r"
    by (simp add: enc_kv_eq)
  show "fits (k, v)"
    by (simp add: lk lv klen_def vlen_def)
qed

lemma decode_enc: "fits (k, v) \<Longrightarrow>
    decode (enc_kv k v @ r) = ((k, v) # fst (decode r), snd (decode r))"
  by (subst decode.simps) (simp add: entry_enc split: prod.split)

lemma decode_stop: "entry b = None \<Longrightarrow> decode b = ([], b)"
  by (subst decode.simps) simp

lemma decode_wire: "list_all fits kvs \<Longrightarrow> entry r = None \<Longrightarrow> decode (wire kvs @ r) = (kvs, r)"
  by (induction kvs) (auto simp: decode_stop decode_enc)

lemma entry_Nil [simp]: "entry [] = None"
  by (simp add: entry_def)

text \<open>Every byte string is the wire form of its entries and a rest with no complete entry.\<close>

lemma decode_sound:
  "decode b = (kvs, r) \<Longrightarrow> b = wire kvs @ r \<and> list_all fits kvs \<and> entry r = None"
proof (induction b arbitrary: kvs rule: decode.induct)
  case (1 b)
  show ?case
  proof (cases "entry b")
    case None
    with "1.prems" show ?thesis by (simp add: decode_stop)
  next
    case (Some e)
    obtain k v b' where e: "e = (k, v, b')" by (cases e)
    have b: "b = enc_kv k v @ b'" "fits (k, v)"
      using entry_SomeD Some e by auto
    with "1.prems" obtain kvs' where d: "decode b' = (kvs', r)" "kvs = (k, v) # kvs'"
      by (auto simp: decode_enc prod_eq_iff)
    from "1.IH" [OF Some e [symmetric] refl d(1)] b d show ?thesis by simp
  qed
qed

lemma decode_cases:
  obtains kvs r where "b = wire kvs @ r" "list_all fits kvs" "entry r = None"
    "decode b = (kvs, r)"
  using decode_sound [of b "fst (decode b)" "snd (decode b)"] by fastforce

section \<open>The loops compute the specification\<close>

lemma header_reads:
  assumes "4 \<le> length b"
  shows "get2 b = Returns (le_get (take 2 b))"
    and "slice_from 2 b = Returns (drop 2 b)"
    and "get2 (drop 2 b) = Returns (le_get (take 2 (drop 2 b)))"
    and "slice_from 4 b = Returns (drop 4 b)"
  using assms by auto

lemma unat_sum16: "unat (le_get (take 2 b) + le_get (take 2 (drop 2 b)) :: u16) = (klen b + vlen b) mod 65536"
  by (simp add: klen_def vlen_def unat_word_ariths)

lemma drop4_enc [simp]: "drop 4 (enc_kv k v @ r) = k @ v @ r"
  by (simp add: enc_kv_eq)

lemma drop_enc [simp]:
  "drop 4 (enc_kv k v) = k @ v"
  "drop (length k + 4) (enc_kv k v) = v"
proof -
  show d: "drop 4 (enc_kv k v) = k @ v"
    using drop4_enc [of k v "[]"] by simp
  show "drop (length k + 4) (enc_kv k v) = v"
    using d drop_drop [of "length k" 4 "enc_kv k v"] by simp
qed

definition small :: "gostring \<times> gostring \<Rightarrow> bool" where
  "small kv \<longleftrightarrow> length (fst kv) + length (snd kv) < 2 ^ 16"

definition wraps :: "bytes \<Rightarrow> bool" where
  "wraps b \<longleftrightarrow> 4 \<le> length b \<and> 2 ^ 16 \<le> klen b + vlen b \<and> klen b + vlen b - 2 ^ 16 \<le> length b - 4"

lemma parse_step:
  "4 \<le> length b \<Longrightarrow> parse_loop (length b) b m =
    (let kvl = (klen b + vlen b) mod 65536 in
     if kvl > length b - 4 then Returns m
     else obind (slice 0 (klen b) (drop 4 b)) (\<lambda>k.
       obind (slice (klen b) kvl (drop 4 b)) (\<lambda>v.
         parse_loop (length b - 4 - kvl) (drop kvl (drop 4 b)) (m(k \<mapsto> v)))))"
  by (subst parse_loop.simps) (auto simp: header_reads unat_sum16 Let_def klen_def)

lemma klen_less: "klen b < 65536" and vlen_less: "vlen b < 65536"
  by (simp_all add: klen_def vlen_def)

lemma obind_const_panic: "obind (slice lo hi b) (\<lambda>k. Panics SliceBounds) = Panics SliceBounds"
  by (cases "lo \<le> hi \<and> hi \<le> length b") (auto simp: slice_def)

lemma parse_wrap:
  assumes "4 \<le> length b" "65536 \<le> klen b + vlen b" "klen b + vlen b - 65536 \<le> length b - 4"
  shows "parse_loop (length b) b m = Panics SliceBounds"
proof -
  have e: "(klen b + vlen b) mod 65536 = klen b + vlen b - 65536"
    using assms klen_less [of b] vlen_less [of b] by (simp add: mod_nat_eqI)
  have lt: "klen b + vlen b - 65536 < klen b"
    using assms vlen_less [of b] by linarith
  show ?thesis
    using assms lt by (simp add: parse_step e obind_const_panic)
qed

lemma parse_stop:
  "entry b = None \<Longrightarrow> parse_loop (length b) b m = (if wraps b then Panics SliceBounds else Returns m)"
proof (cases "4 \<le> length b")
  case False
  then show ?thesis by (subst parse_loop.simps) (simp add: wraps_def)
next
  case True
  assume "entry b = None"
  then have over: "length b - 4 < klen b + vlen b" using True by (auto simp: entry_def split: if_splits)
  show ?thesis
  proof (cases "klen b + vlen b < 65536")
    case small: True
    then show ?thesis using True over by (simp add: parse_step wraps_def)
  next
    case big: False
    have e: "(klen b + vlen b) mod 65536 = klen b + vlen b - 65536"
      using big klen_less [of b] vlen_less [of b] by (simp add: mod_nat_eqI)
    show ?thesis using True big parse_wrap [of b m] by (auto simp: wraps_def parse_step e)
  qed
qed

lemma parse_entry:
  "fits (k, v) \<Longrightarrow> parse_loop (length (enc_kv k v @ r)) (enc_kv k v @ r) m =
    (if small (k, v) then parse_loop (length r) r (m(k \<mapsto> v)) else Panics SliceBounds)"
proof (cases "small (k, v)")
  case True
  assume f: "fits (k, v)"
  show ?thesis
    using f True by (subst parse_step) (auto simp: small_def)
next
  case False
  assume f: "fits (k, v)"
  then show ?thesis
    using False parse_wrap [of "enc_kv k v @ r" m] by (simp add: small_def)
qed

lemma parse_wire:
  "list_all fits kvs \<Longrightarrow> entry r = None \<Longrightarrow>
   parse_loop (length (wire kvs @ r)) (wire kvs @ r) m =
     (if list_all small kvs \<and> \<not> wraps r then Returns (m ++ map_of (rev kvs)) else Panics SliceBounds)"
proof (induction kvs arbitrary: m)
  case Nil
  then show ?case by (simp add: parse_stop)
next
  case (Cons kv kvs)
  obtain k v where kv: "kv = (k, v)" by (cases kv)
  have "parse_loop (length (wire (kv # kvs) @ r)) (wire (kv # kvs) @ r) m =
    (if small (k, v) then parse_loop (length (wire kvs @ r)) (wire kvs @ r) (m(k \<mapsto> v)) else Panics SliceBounds)"
    using parse_entry [of k v "wire kvs @ r" m] Cons.prems by (simp add: kv)
  then show ?case
    using Cons by (simp add: kv map_add_def fun_eq_iff split: option.split)
qed

lemma get_step:
  "4 \<le> length b \<Longrightarrow> get_loop (length b) b key =
    (if klen b + vlen b > length b - 4 then Returns ([], False)
     else if take (klen b) (drop 4 b) = key
     then Returns (take (vlen b) (drop (4 + klen b) b), True)
     else get_loop (length b - 4 - (klen b + vlen b)) (drop (4 + klen b + vlen b) b) key)"
proof -
  assume len: "4 \<le> length b"
  then have l: "\<not> length b < 4" by simp
  have "get_loop (length b) b key =
    (if klen b + vlen b > length (drop 4 b) then Returns ([], False)
     else obind (slice 0 (klen b) (drop 4 b)) (\<lambda>k.
       if klen b = length key \<and> k = key
       then obind (slice (klen b) (klen b + vlen b) (drop 4 b)) (\<lambda>v. Returns (v, True))
       else obind (slice_from (klen b + vlen b) (drop 4 b)) (\<lambda>b'.
         get_loop (length b - 4 - (klen b + vlen b)) b' key)))"
    by (subst get_loop.simps)
      (simp only: header_reads [OF len] l obind.simps Let_def klen_def vlen_def if_False)
  with len show ?thesis by (auto simp: ac_simps)
qed

lemma get_wire:
  "list_all fits kvs \<Longrightarrow> entry r = None \<Longrightarrow>
   get_loop (length (wire kvs @ r)) (wire kvs @ r) key =
     Returns (case map_of kvs key of Some v \<Rightarrow> (v, True) | None \<Rightarrow> ([], False))"
proof (induction kvs)
  case Nil
  show ?case
  proof (cases "4 \<le> length r")
    case True
    with Nil show ?thesis by (auto simp: get_step entry_def split: if_splits)
  next
    case False
    then show ?thesis by (simp add: get_loop.simps [of "length r"])
  qed
next
  case (Cons kv kvs)
  obtain k v where kv: "kv = (k, v)" by (cases kv)
  have "fits (k, v)" using Cons.prems kv by simp
  then have "get_loop (length (enc_kv k v @ x)) (enc_kv k v @ x) key =
    (if k = key then Returns (v, True) else get_loop (length x) x key)" for x
    by (subst get_step) (auto simp: add.commute)
  from this [of "wire kvs @ r"] Cons show ?case by (simp add: kv)
qed

fun del_first :: "gostring \<Rightarrow> kvlist \<Rightarrow> kvlist" where
  "del_first key [] = []"
| "del_first key ((k, v) # r) = (if k = key then r else (k, v) # del_first key r)"

text \<open>The rest of a byte string that \<open>RemoveChecked\<close> runs past the end of.\<close>

definition overruns :: "bytes \<Rightarrow> bool" where
  "overruns b \<longleftrightarrow> 4 \<le> length b \<and> length b - 4 < klen b + vlen b \<and> klen b + vlen b \<le> length b"

lemma remove_step:
  "4 \<le> length b \<Longrightarrow> remove_loop i (int (length b)) b key hb =
    (if klen b + vlen b > length b then Returns (hb, [], False)
     else if klen b + vlen b > length b - 4 \<and> klen b = length key \<and> klen b > length b - 4
     then Panics SliceBounds
     else if take (klen b) (drop 4 b) = key \<and> klen b = length key
     then obind (slice (klen b) (klen b + vlen b) (drop 4 b)) (\<lambda>val.
       obind (slice 0 i hb) (\<lambda>before.
       obind (slice_from (i + 4 + (klen b + vlen b)) hb) (\<lambda>after.
         Returns (before @ after, val, True))))
     else obind (slice_from (klen b + vlen b) (drop 4 b)) (\<lambda>b'.
       remove_loop (i + (4 + (klen b + vlen b))) (int (length b) - 4 - int (klen b + vlen b))
         b' key hb))"
proof -
  assume len: "4 \<le> length b"
  then have l: "\<not> int (length b) < 4" by simp
  have "remove_loop i (int (length b)) b key hb =
    (if int (klen b + vlen b) > int (length b) then Returns (hb, [], False)
     else obind (if klen b = length key
                 then obind (slice 0 (klen b) (drop 4 b)) (\<lambda>k. Returns (k = key))
                 else Returns False) (\<lambda>found.
       if found
       then obind (slice (klen b) (klen b + vlen b) (drop 4 b)) (\<lambda>val.
         obind (slice 0 i hb) (\<lambda>before.
         obind (slice_from (i + 4 + (klen b + vlen b)) hb) (\<lambda>after.
           Returns (before @ after, val, True))))
       else obind (slice_from (klen b + vlen b) (drop 4 b)) (\<lambda>b'.
         remove_loop (i + (4 + (klen b + vlen b))) (int (length b) - 4 - int (klen b + vlen b))
           b' key hb)))"
    by (subst remove_loop.simps)
      (simp only: header_reads [OF len] l obind.simps Let_def klen_def vlen_def if_False)
  then show ?thesis by auto
qed

lemma remove_stop:
  assumes "entry r = None"
  shows "remove_loop i (int (length r)) r key hb =
    (if overruns r then Panics SliceBounds else Returns (hb, [], False))"
proof (cases "4 \<le> length r")
  case False
  then show ?thesis by (subst remove_loop.simps) (simp add: overruns_def)
next
  case True
  then have "length r - 4 < klen r + vlen r"
    using assms by (auto simp: entry_def split: if_splits)
  then show ?thesis
    using True by (auto simp: remove_step overruns_def)
qed

lemma remove_entry:
  assumes "fits (k, v)" and "length pre = i"
  shows "remove_loop i (int (length (enc_kv k v @ r))) (enc_kv k v @ r) key (pre @ enc_kv k v @ r) =
    (if k = key then Returns (pre @ r, v, True)
     else remove_loop (i + length (enc_kv k v)) (int (length r)) r key (pre @ enc_kv k v @ r))"
  using assms by (subst remove_step) (auto simp: add.commute add.left_commute)

lemma remove_wire:
  "list_all fits kvs \<Longrightarrow> entry r = None \<Longrightarrow> length pre = i \<Longrightarrow>
   remove_loop i (int (length (wire kvs @ r))) (wire kvs @ r) key (pre @ wire kvs @ r) =
     (case map_of kvs key of
        Some v \<Rightarrow> Returns (pre @ wire (del_first key kvs) @ r, v, True)
      | None \<Rightarrow> if overruns r then Panics SliceBounds
                else Returns (pre @ wire kvs @ r, [], False))"
proof (induction kvs arbitrary: pre i)
  case Nil
  then show ?case by (simp add: remove_stop)
next
  case (Cons kv kvs)
  obtain k v where kv: "kv = (k, v)" by (cases kv)
  have step: "remove_loop i (int (length (wire (kv # kvs) @ r))) (wire (kv # kvs) @ r) key
      (pre @ wire (kv # kvs) @ r) =
    (if k = key then Returns (pre @ wire kvs @ r, v, True)
     else remove_loop (i + length (enc_kv k v)) (int (length (wire kvs @ r))) (wire kvs @ r) key
       ((pre @ enc_kv k v) @ wire kvs @ r))"
    using remove_entry [of k v pre i "wire kvs @ r" key] Cons.prems by (simp add: kv)
  show ?case
    unfolding step using Cons.prems Cons.IH [of "pre @ enc_kv k v" "i + length (enc_kv k v)"]
    by (simp add: kv del: length_enc_kv split: option.split)
qed

lemma range_step:
  "4 \<le> length b \<Longrightarrow> \<not> l < 4 \<Longrightarrow> range_loop spare f l b s =
    (if int (klen b + vlen b) > l then Returns s
     else obind (slice_cap spare 0 (klen b) (drop 4 b)) (\<lambda>k.
       obind (slice_cap spare (klen b) (klen b + vlen b) (drop 4 b)) (\<lambda>v.
         let (go, s') = f s k v in
         if \<not> go then Returns s'
         else range_loop spare f (l - 4 - int (klen b + vlen b)) (drop 4 b) s')))"
  by (subst range_loop.simps)
    (simp only: header_reads obind.simps Let_def klen_def vlen_def if_False)

text \<open>One round of \<open>Range\<close>: the slice moves past the lengths only, not past the entry.\<close>

lemma range_entry:
  assumes "fits (k, v)"
  shows "range_loop spare f (int (length (enc_kv k v @ r))) (enc_kv k v @ r) s =
    (let (go, s') = f s k v in
     if go then range_loop spare f (int (length r)) (k @ v @ r) s' else Returns s')"
proof -
  have "klen (enc_kv k v @ r) = length k" "vlen (enc_kv k v @ r) = length v"
    using assms by simp_all
  then show ?thesis
    by (subst range_step) (auto simp: Let_def split: prod.split)
qed

lemma range_stop:
  "int (klen b + vlen b) > l \<Longrightarrow> 4 \<le> length b \<or> l < 4 \<Longrightarrow> range_loop spare f l b s = Returns s"
proof (cases "l < 4")
  case True
  then show ?thesis by (subst range_loop.simps) simp
next
  case False
  then show "int (klen b + vlen b) > l \<Longrightarrow> 4 \<le> length b \<or> l < 4 \<Longrightarrow> ?thesis"
    by (simp add: range_step)
qed

section \<open>Encoding, parsing and looking up\<close>

lemma lookup_simps [simp]: "lookup (Some f) = f" "lookup None = Map.empty"
  by (simp_all add: lookup_def fun_eq_iff)

lemma encode_loop_Inr:
  "encode_loop b n kvs = Inr b' \<longleftrightarrow>
     b' = b @ wire kvs \<and> (kvs = [] \<or> n + (\<Sum>(k, v) \<leftarrow> kvs. length k + length v) \<le> MaxHeadersLen)"
proof (induction kvs arbitrary: b n)
  case (Cons kv kvs)
  then show ?case
    by (cases kv) (cases kvs; auto simp: Let_def append_kv_eq)
qed auto

lemma encode_loop_small: "encode_loop b n kvs = Inr b' \<Longrightarrow> list_all small kvs"
proof (induction kvs arbitrary: b n)
  case (Cons kv kvs)
  then show ?case
    by (cases kv) (auto simp: Let_def small_def MaxHeadersLen_def split: if_splits)
qed simp

lemma small_fits: "small kv \<Longrightarrow> fits kv"
  by (auto simp: small_def fits_def)

lemma list_all_small_fits: "list_all small kvs \<Longrightarrow> list_all fits kvs"
  by (auto simp: list_all_iff small_fits)

lemma map_of_rev_distinct: "distinct (map fst kvs) \<Longrightarrow> map_of (rev kvs) = map_of kvs"
  by (simp add: map_of_inject_set rev_map [symmetric] distinct_rev)

lemma Parse_newHeaders:
  "decode b = (kvs, r) \<Longrightarrow> Headers_Parse (newHeaders b) =
     (if list_all small kvs \<and> \<not> wraps r
      then Returns (\<lparr>hbytes = [], hm = Some (map_of (rev kvs)), parsed = True\<rparr>, Some (map_of (rev kvs)))
      else Panics SliceBounds)"
  using decode_sound [of b kvs r] parse_wire [of kvs r Map.empty]
  by (auto simp: Headers_Parse_def newHeaders_def)

lemma no_wrap_Nil [simp]: "\<not> wraps []"
  by (simp add: wraps_def)

lemma Parse_wire:
  "list_all small kvs \<Longrightarrow> Headers_Parse (newHeaders (wire kvs)) =
     Returns (\<lparr>hbytes = [], hm = Some (map_of (rev kvs)), parsed = True\<rparr>, Some (map_of (rev kvs)))"
  using decode_wire [of kvs "[]"] Parse_newHeaders [of "wire kvs" kvs "[]"]
  by (simp add: list_all_small_fits)

lemma GetChecked_newHeaders:
  "decode b = (kvs, r) \<Longrightarrow> GetChecked key (newHeaders b) =
     Returns (case map_of kvs key of Some v \<Rightarrow> (v, True) | None \<Rightarrow> ([], False))"
  using decode_sound [of b kvs r] get_wire [of kvs r key]
  by (auto simp: GetChecked_def newHeaders_def)

lemma RemoveChecked_newHeaders:
  "decode b = (kvs, r) \<Longrightarrow> RemoveChecked key (newHeaders b) =
     (case map_of kvs key of
        Some v \<Rightarrow> Returns (newHeaders (wire (del_first key kvs) @ r), v, True)
      | None \<Rightarrow> if overruns r then Panics SliceBounds else Returns (newHeaders b, [], False))"
  using decode_sound [of b kvs r] remove_wire [of kvs r "[]" 0 key]
  by (auto simp: RemoveChecked_def newHeaders_def split: option.split)

lemma Set_newHeaders:
  "Headers_Set k v (newHeaders b) =
     (if 4 + length k + length v + length b > MaxHeadersLen then Returns (newHeaders b, False)
      else Returns (newHeaders (b @ enc_kv k v), True))"
  by (auto simp: Headers_Set_def newHeaders_def Let_def place2_def enc_kv_eq numeral_eq_Suc)

lemma decode_append_enc:
  "decode b = (kvs, []) \<Longrightarrow> fits (k, v) \<Longrightarrow> decode (b @ enc_kv k v) = (kvs @ [(k, v)], [])"
  using decode_sound [of b kvs "[]"] decode_wire [of "kvs @ [(k, v)]" "[]"] by simp

lemma encodeP_spec:
  "encodeP_loop b n kvs m = (b', m') \<Longrightarrow>
     \<exists>enc left. b' = b @ wire enc \<and> mset kvs = mset enc + mset left \<and>
       m' = map_option (\<lambda>f. f |` (- set (map fst enc))) m \<and>
       n + (\<Sum>(k, v) \<leftarrow> enc. length k + length v) \<le> max n MaxHeadersLen"
proof (induction kvs arbitrary: b n m)
  case Nil
  then show ?case by (cases m) (auto intro!: exI [of _ "[]"] simp: restrict_map_def)
next
  case (Cons kv kvs)
  obtain k v where kv: "kv = (k, v)" by (cases kv)
  show ?case
  proof (cases "n + (length k + length v) > MaxHeadersLen")
    case True
    then have "encodeP_loop b n kvs m = (b', m')"
      using Cons.prems by (simp add: kv Let_def)
    from Cons.IH [OF this] obtain enc left where
      "b' = b @ wire enc" "mset kvs = mset enc + mset left"
      "m' = map_option (\<lambda>f. f |` (- set (map fst enc))) m"
      "n + (\<Sum>(k, v) \<leftarrow> enc. length k + length v) \<le> max n MaxHeadersLen"
      by blast
    then show ?thesis
      by (intro exI [of _ enc] exI [of _ "kv # left"]) simp
  next
    case False
    then have "encodeP_loop (b @ enc_kv k v) (n + (length k + length v)) kvs
        (map_option (\<lambda>f. f(k := None)) m) = (b', m')"
      using Cons.prems by (simp add: kv Let_def append_kv_eq)
    from Cons.IH [OF this] obtain enc left where
      IH: "b' = (b @ enc_kv k v) @ wire enc" "mset kvs = mset enc + mset left"
      "m' = map_option (\<lambda>f. f |` (- set (map fst enc))) (map_option (\<lambda>f. f(k := None)) m)"
      "n + (length k + length v) + (\<Sum>(k, v) \<leftarrow> enc. length k + length v)
        \<le> max (n + (length k + length v)) MaxHeadersLen"
      by blast
    have "m' = map_option (\<lambda>f. f |` (- set (map fst (kv # enc)))) m"
      unfolding IH(3) by (cases m) (auto simp: kv restrict_map_def fun_eq_iff)
    then show ?thesis
      using IH False by (intro exI [of _ "kv # enc"] exI [of _ left]) (simp add: kv)
  qed
qed

section \<open>The two representations as one dictionary\<close>

text \<open>
  What the callers of \<open>Headers\<close> rely on, whichever representation the headers are in.  A key
  is set once: on raw bytes a second \<open>Set\<close> of a key is shadowed by the first.
\<close>

locale header_dict =
  fixes inv :: "headers \<Rightarrow> bool"
    and view :: "headers \<Rightarrow> gostring \<rightharpoonup> gostring"
  assumes get: "inv h \<Longrightarrow>
      GetChecked k h = Returns (case view h k of Some v \<Rightarrow> (v, True) | None \<Rightarrow> ([], False))"
    and set_ok: "inv h \<Longrightarrow> view h k = None \<Longrightarrow> Headers_Set k v h = Returns (h', True) \<Longrightarrow>
      inv h' \<and> view h' = (view h)(k \<mapsto> v)"
    and remove_ok: "inv h \<Longrightarrow> \<exists>h'. RemoveChecked k h =
        Returns (h', case view h k of Some v \<Rightarrow> (v, True) | None \<Rightarrow> ([], False)) \<and>
      inv h' \<and> view h' = (view h)(k := None)"
begin

lemma get_after_set:
  "inv h \<Longrightarrow> view h k = None \<Longrightarrow> Headers_Set k v h = Returns (h', True) \<Longrightarrow>
     GetChecked k' h' = (if k' = k then Returns (v, True) else GetChecked k' h)"
  using set_ok [of h k v h'] get [of h k'] get [of h' k'] by auto

lemma get_after_remove:
  "inv h \<Longrightarrow> RemoveChecked k h = Returns (h', v, ok) \<Longrightarrow>
     GetChecked k' h' = (if k' = k then Returns ([], False) else GetChecked k' h)"
  using remove_ok [of h k] get [of h k'] get [of h' k'] by auto

lemma remove_undoes_set:
  assumes "inv h" "view h k = None" "Headers_Set k v h = Returns (h', True)"
  shows "\<exists>h''. RemoveChecked k h' = Returns (h'', v, True) \<and> view h'' = view h"
proof -
  from set_ok [OF assms] have h': "inv h'" "view h' = (view h)(k \<mapsto> v)" by auto
  from remove_ok [OF h'(1), of k] h'(2) assms(2) show ?thesis
    by (auto simp: fun_upd_idem_iff)
qed

end

lemma map_of_snoc: "map_of kvs k = None \<Longrightarrow> map_of (kvs @ [(k, v)]) = (map_of kvs)(k \<mapsto> v)"
  by (auto simp: map_add_def fun_eq_iff split: option.split)

definition raw_ok :: "headers \<Rightarrow> bool" where
  "raw_ok h \<longleftrightarrow> (\<exists>kvs. h = newHeaders (wire kvs) \<and> list_all fits kvs \<and> distinct (map fst kvs))"

definition raw_view :: "headers \<Rightarrow> gostring \<rightharpoonup> gostring" where
  "raw_view h = map_of (fst (decode (hbytes h)))"

definition parsed_ok :: "headers \<Rightarrow> bool" where
  "parsed_ok h \<longleftrightarrow> parsed h \<and> hm h \<noteq> None"

lemma raw_view_wire [simp]: "list_all fits kvs \<Longrightarrow> raw_view (newHeaders (wire kvs)) = map_of kvs"
  using decode_wire [of kvs "[]"] by (simp add: raw_view_def newHeaders_def)

lemma del_first_props:
  "distinct (map fst kvs) \<Longrightarrow>
     map_of (del_first k kvs) = (map_of kvs)(k := None) \<and> distinct (map fst (del_first k kvs)) \<and>
     set (del_first k kvs) \<subseteq> set kvs"
proof (induction kvs)
  case (Cons kv kvs)
  then show ?case
    by (cases kv) (auto simp: fun_eq_iff map_of_eq_None_iff)
qed simp

lemma del_first_absent: "map_of kvs k = None \<Longrightarrow> del_first k kvs = kvs"
  by (induction kvs) (auto split: if_splits)

lemma not_overruns_Nil [simp]: "\<not> overruns []"
  by (simp add: overruns_def)

interpretation parsed_dict: header_dict parsed_ok "\<lambda>h. lookup (hm h)"
proof unfold_locales
  fix h k v h'
  assume "parsed_ok h"
  then obtain f where h: "parsed h" "hm h = Some f"
    by (auto simp: parsed_ok_def)
  then show "GetChecked k h =
      Returns (case lookup (hm h) k of Some v \<Rightarrow> (v, True) | None \<Rightarrow> ([], False))"
    by (simp add: GetChecked_def)
  show "\<exists>h'. RemoveChecked k h =
        Returns (h', case lookup (hm h) k of Some v \<Rightarrow> (v, True) | None \<Rightarrow> ([], False)) \<and>
      parsed_ok h' \<and> lookup (hm h') = (lookup (hm h))(k := None)"
    using h by (simp add: RemoveChecked_def parsed_ok_def)
  show "parsed_ok h' \<and> lookup (hm h') = (lookup (hm h))(k \<mapsto> v)"
    if "Headers_Set k v h = Returns (h', True)"
    using that h by (auto simp: Headers_Set_def parsed_ok_def)
qed

interpretation raw_dict: header_dict raw_ok raw_view
proof unfold_locales
  fix h k
  assume "raw_ok h"
  then obtain kvs where h: "h = newHeaders (wire kvs)" "list_all fits kvs" "distinct (map fst kvs)"
    by (auto simp: raw_ok_def)
  have d: "decode (wire kvs) = (kvs, [])"
    using decode_wire [of kvs "[]"] h by simp
  show "GetChecked k h = Returns (case raw_view h k of Some v \<Rightarrow> (v, True) | None \<Rightarrow> ([], False))"
    using GetChecked_newHeaders [OF d] h by simp
  have fd: "list_all fits (del_first k kvs)"
    using h del_first_props [of kvs k] by (auto simp: list_all_iff)
  show "\<exists>h'. RemoveChecked k h =
        Returns (h', case raw_view h k of Some v \<Rightarrow> (v, True) | None \<Rightarrow> ([], False)) \<and>
      raw_ok h' \<and> raw_view h' = (raw_view h)(k := None)"
  proof (cases "map_of kvs k")
    case None
    then show ?thesis
      using RemoveChecked_newHeaders [OF d, of k] h
      by (auto simp: raw_ok_def fun_upd_idem_iff)
  next
    case (Some v)
    then show ?thesis
      using RemoveChecked_newHeaders [OF d, of k] h del_first_props [of kvs k] fd
      by (auto simp: raw_ok_def)
  qed
next
  fix h k v h'
  assume a: "raw_ok h" "raw_view h k = None" "Headers_Set k v h = Returns (h', True)"
  then obtain kvs where h: "h = newHeaders (wire kvs)" "list_all fits kvs" "distinct (map fst kvs)"
    by (auto simp: raw_ok_def)
  have h': "h' = newHeaders (wire (kvs @ [(k, v)]))" and f: "fits (k, v)"
    using a(3) by (auto simp: h(1) Set_newHeaders MaxHeadersLen_def split: if_splits)
  have k: "k \<notin> set (map fst kvs)"
    using a(2) h by (simp add: map_of_eq_None_iff)
  show "raw_ok h' \<and> raw_view h' = (raw_view h)(k \<mapsto> v)"
  proof
    show "raw_ok h'"
      unfolding raw_ok_def using h f k by (intro exI [of _ "kvs @ [(k, v)]"]) (auto simp: h')
    show "raw_view h' = (raw_view h)(k \<mapsto> v)"
      using h f a(2) raw_view_wire [of "kvs @ [(k, v)]"] map_of_snoc [of kvs k v]
      by (simp add: h' del: wire_simps)
  qed
qed
section \<open>Properties\<close>

lemma newHeaders_sel [simp]:
  "hbytes (newHeaders b) = b" "hm (newHeaders b) = None" "\<not> parsed (newHeaders b)"
  by (simp_all add: newHeaders_def)

definition wf_headers :: "headers \<Rightarrow> bool" where
  "wf_headers h \<longleftrightarrow> (if parsed h then parsed_ok h else raw_ok h)"

text \<open>C4: Parsing raw header bytes.  \<open>Parse\<close> of any byte string returns the map of its complete
  entries, the last one winning for a repeated key, and drops an incomplete rest; it panics
  exactly when the 16-bit sum of the two lengths of an entry wraps: a complete entry whose key
  and value together are 65536 bytes or more, or a rest whose wrapped length still fits.  The
  bytes come from the peer.\<close>

theorem Parse_total:
  "Headers_Parse (newHeaders b) =
     (case decode b of (kvs, r) \<Rightarrow>
        if list_all small kvs \<and> \<not> wraps r
        then Returns (\<lparr>hbytes = [], hm = Some (map_of (rev kvs)), parsed = True\<rparr>,
               Some (map_of (rev kvs)))
        else Panics SliceBounds)"
  using Parse_newHeaders [of b "fst (decode b)" "snd (decode b)"] by (simp split: prod.split)

text \<open>C26: Encoding and parsing.  Whatever order the run time visits the map in, headers that
  \<open>Encode\<close> accepts parse back to the same map.\<close>

theorem Encode_Parse_roundtrip:
  assumes "parsed h" and "iterates kvs (hm h)" and "Headers_Encode kvs h = (h', Inr b)"
  shows "Headers_Parse h' =
    Returns (\<lparr>hbytes = [], hm = Some (lookup (hm h)), parsed = True\<rparr>, Some (lookup (hm h)))"
proof -
  from assms(1,3) have e: "encode_loop [] 0 kvs = Inr b" and h': "h' = newHeaders b"
    by (auto simp: Headers_Encode_def split: sum.splits)
  have "b = wire kvs" "list_all small kvs"
    using e encode_loop_small [OF e] by (auto simp: encode_loop_Inr)
  moreover have "map_of (rev kvs) = lookup (hm h)"
    using assms(2) by (simp add: iterates_def map_of_rev_distinct)
  ultimately show ?thesis
    by (simp add: h' Parse_wire)
qed

theorem Encode_Parse_roundtrip_witness:
  "Headers_Parse (newHeaders (wire [(lit ''a'', lit ''bc'')])) =
     Returns (\<lparr>hbytes = [], hm = Some [lit ''a'' \<mapsto> lit ''bc''], parsed = True\<rparr>,
       Some [lit ''a'' \<mapsto> lit ''bc''])"
proof -
  let ?h = "\<lparr>hbytes = [], hm = Some [lit ''a'' \<mapsto> lit ''bc''], parsed = True\<rparr>"
  have "Headers_Encode [(lit ''a'', lit ''bc'')] ?h =
      (newHeaders (wire [(lit ''a'', lit ''bc'')]), Inr (wire [(lit ''a'', lit ''bc'')]))"
    by (simp add: Headers_Encode_def append_kv_eq MaxHeadersLen_def Let_def lit_def)
  from Encode_Parse_roundtrip [OF _ _ this] show ?thesis
    by (simp add: iterates_def)
qed

text \<open>Looking a key up in raw bytes.  \<open>GetChecked\<close> never panics: on every byte string it
  returns the value of the first complete entry with the key, or reports that there is none.\<close>

theorem GetChecked_total:
  "GetChecked key (newHeaders b) =
     Returns (case map_of (fst (decode b)) key of Some v \<Rightarrow> (v, True) | None \<Rightarrow> ([], False))"
  using GetChecked_newHeaders [of b "fst (decode b)" "snd (decode b)" key] by simp

text \<open>C34: Removing a key from raw bytes.  \<open>RemoveChecked\<close> cuts the first entry with the key out and
  leaves every other byte; when the key is absent it returns the headers unchanged, except that
  it panics when the incomplete rest misses at most 4 of the bytes its lengths announce.\<close>

theorem RemoveChecked_total:
  "RemoveChecked key (newHeaders b) =
     (case decode b of (kvs, r) \<Rightarrow>
        case map_of kvs key of
          Some v \<Rightarrow> Returns (newHeaders (wire (del_first key kvs) @ r), v, True)
        | None \<Rightarrow> if overruns r then Panics SliceBounds else Returns (newHeaders b, [], False))"
  by (cases "decode b") (simp add: RemoveChecked_newHeaders)

text \<open>C27: Headers as a dictionary, in either representation.  After a new key is set with success,
  looking it up gives the value and every other key is as before; removing it again returns the
  value and restores all lookups.\<close>

theorem Set_Get_Remove:
  assumes "wf_headers h" and "GetChecked k h = Returns ([], False)"
    and "Headers_Set k v h = Returns (h', True)"
  shows "GetChecked k' h' = (if k' = k then Returns (v, True) else GetChecked k' h) \<and>
    (\<exists>h''. RemoveChecked k h' = Returns (h'', v, True) \<and> GetChecked k' h'' = GetChecked k' h)"
proof (cases "parsed h")
  case True
  with assms(1) have i: "parsed_ok h" by (simp add: wf_headers_def)
  have n: "lookup (hm h) k = None"
    using parsed_dict.get [OF i, of k] assms(2) by (auto split: option.splits)
  have i': "parsed_ok h'" using parsed_dict.set_ok [OF i n assms(3)] by simp
  show ?thesis
    using parsed_dict.get_after_set [OF i n assms(3), of k'] parsed_dict.set_ok [OF i n assms(3)]
      parsed_dict.remove_ok [OF i', of k] parsed_dict.get_after_remove [OF i', of k _ _ _ k']
      assms(2) by fastforce
next
  case False
  with assms(1) have i: "raw_ok h" by (simp add: wf_headers_def)
  have n: "raw_view h k = None"
    using raw_dict.get [OF i, of k] assms(2) by (auto split: option.splits)
  have i': "raw_ok h'" using raw_dict.set_ok [OF i n assms(3)] by simp
  show ?thesis
    using raw_dict.get_after_set [OF i n assms(3), of k'] raw_dict.set_ok [OF i n assms(3)]
      raw_dict.remove_ok [OF i', of k] raw_dict.get_after_remove [OF i', of k _ _ _ k']
      assms(2) by fastforce
qed

theorem Set_Get_Remove_witness:
  "\<exists>h'. Headers_Set (lit ''a'') (lit ''b'') (NewHeaders False) = Returns (h', True) \<and>
     GetChecked (lit ''a'') h' = Returns (lit ''b'', True)"
proof -
  have n: "NewHeaders False = newHeaders (wire [])"
    by (simp add: NewHeaders_def newHeaders_def)
  have w: "wf_headers (NewHeaders False)"
    by (auto simp: wf_headers_def raw_ok_def n newHeaders_def intro!: exI [of _ "[]"])
  have g: "GetChecked (lit ''a'') (NewHeaders False) = Returns ([], False)"
    by (simp add: n GetChecked_def newHeaders_def get_loop.simps)
  have s: "Headers_Set (lit ''a'') (lit ''b'') (NewHeaders False) =
      Returns (newHeaders (enc_kv (lit ''a'') (lit ''b'')), True)"
    by (simp add: n Set_newHeaders MaxHeadersLen_def lit_def)
  from Set_Get_Remove [OF w g s, of "lit ''a''"] s show ?thesis by simp
qed

text \<open>Size bound of raw headers.  \<open>Set\<close> on raw bytes succeeds exactly when the entry with its
  4 length bytes still fits the maximum, and the bytes never grow past it.\<close>

theorem Set_bound:
  assumes "length b \<le> MaxHeadersLen"
  shows "\<exists>h' ok. Headers_Set k v (newHeaders b) = Returns (h', ok) \<and>
    (ok \<longleftrightarrow> length b + length (enc_kv k v) \<le> MaxHeadersLen) \<and>
    hbytes h' = (if ok then b @ enc_kv k v else b) \<and> length (hbytes h') \<le> MaxHeadersLen"
  using assms by (auto simp: Set_newHeaders)

theorem Set_bound_witness:
  "\<exists>h' ok. Headers_Set (lit ''k'') (lit ''v'') (newHeaders []) = Returns (h', ok) \<and>
    (ok \<longleftrightarrow> length [] + length (enc_kv (lit ''k'') (lit ''v'')) \<le> MaxHeadersLen) \<and>
    hbytes h' = (if ok then [] @ enc_kv (lit ''k'') (lit ''v'') else []) \<and>
    length (hbytes h') \<le> MaxHeadersLen"
  using Set_bound [of "[]" "lit ''k''" "lit ''v''"] by simp

text \<open>The size check of \<open>Encode\<close> counts keys and values only.  There are headers it accepts
  whose encoding is longer than the maximum, and whose length does not survive the 16-bit length
  field of a request or response.\<close>

theorem Encode_exceeds_max:
  "\<exists>kvs h b. parsed h \<and> iterates kvs (hm h) \<and> snd (Headers_Encode kvs h) = Inr b \<and>
     MaxHeadersLen < length b \<and> unat (of_nat (length b) :: u16) < length b"
proof -
  let ?v = "replicate 65534 (0 :: byte)" and ?k = "[0 :: byte]"
  let ?h = "\<lparr>hbytes = [], hm = Some [?k \<mapsto> ?v], parsed = True\<rparr>"
  have e: "snd (Headers_Encode [(?k, ?v)] ?h) = Inr (enc_kv ?k ?v)"
    by (simp add: Headers_Encode_def append_kv_eq MaxHeadersLen_def Let_def)
  have l: "length (enc_kv ?k ?v) = 65539"
    by (simp)
  have i: "iterates [(?k, ?v)] (Some [?k \<mapsto> ?v])"
    by (simp add: iterates_def)
  show ?thesis
    by (intro exI [of _ "[(?k, ?v)]"] exI [of _ ?h] exI [of _ "enc_kv ?k ?v"])
      (simp only: e l i headers.simps, simp add: MaxHeadersLen_def)
qed

text \<open>\<open>EncodeP\<close> loses nothing.  The bytes are a sequence of entries of the map, and the map it
  returns holds exactly the others.\<close>

theorem EncodeP_partition:
  assumes "parsed h" and "iterates kvs (hm h)" and "Headers_EncodeP kvs h = (h', b, m')"
  shows "\<exists>enc. b = wire enc \<and> set enc \<subseteq> set kvs \<and> hbytes h' = b \<and> \<not> parsed h' \<and>
    (\<forall>k. lookup (hm h) k = (if k \<in> set (map fst enc) then map_of enc k else lookup m' k)) \<and>
    (\<forall>k. k \<in> set (map fst enc) \<longrightarrow> lookup m' k = None)"
proof -
  from assms(1,3) have e: "encodeP_loop [] 0 kvs (hm h) = (b, m')" and h': "h' = newHeaders b"
    by (auto simp: Headers_EncodeP_def split: prod.splits)
  from encodeP_spec [OF e] obtain enc left where
    b: "b = wire enc" and ms: "mset kvs = mset enc + mset left"
    and m': "m' = map_option (\<lambda>f. f |` (- set (map fst enc))) (hm h)"
    by auto
  have sub: "set enc \<subseteq> set kvs"
    using ms by (metis set_mset_mset set_mset_union Un_upper1)
  have d: "distinct (map fst kvs)" and mo: "map_of kvs = lookup (hm h)"
    using assms(2) by (auto simp: iterates_def)
  have de: "distinct (map fst enc)"
  proof -
    have "mset (map fst kvs) = mset (map fst (enc @ left))"
      using ms by simp
    then have "distinct (map fst (enc @ left))" using d mset_eq_imp_distinct_iff by blast
    then show ?thesis by simp
  qed
  have "lookup (hm h) k = map_of enc k" if "k \<in> set (map fst enc)" for k
  proof -
    from that obtain v where v: "(k, v) \<in> set enc" by auto
    then have "map_of enc k = Some v" "map_of kvs k = Some v"
      using sub d de by (auto simp: map_of_eq_Some_iff)
    then show ?thesis by (simp add: mo)
  qed
  moreover have "lookup m' k = (if k \<in> set (map fst enc) then None else lookup (hm h) k)" for k
    by (cases "hm h") (simp_all add: m' restrict_map_def)
  ultimately show ?thesis
    using b sub h' by (intro exI [of _ enc]) (auto simp: newHeaders_def)
qed

theorem EncodeP_partition_witness:
  "\<exists>enc. enc_kv (lit ''a'') (lit ''b'') = wire enc \<and> set enc \<subseteq> {(lit ''a'', lit ''b'')}"
proof -
  let ?h = "\<lparr>hbytes = [], hm = Some [lit ''a'' \<mapsto> lit ''b''], parsed = True\<rparr>"
  have p: "parsed ?h" and i: "iterates [(lit ''a'', lit ''b'')] (hm ?h)"
    by (simp_all add: iterates_def)
  have "Headers_EncodeP [(lit ''a'', lit ''b'')] ?h =
      (newHeaders (enc_kv (lit ''a'') (lit ''b'')), enc_kv (lit ''a'') (lit ''b''), Some Map.empty)"
    by (simp add: Headers_EncodeP_def append_kv_eq MaxHeadersLen_def Let_def lit_def)
  from EncodeP_partition [OF p i this] show ?thesis by auto
qed

text \<open>\<open>Range\<close> over raw bytes does not reach the second header.  It moves past the 4 length
  bytes of an entry but not past its key and value, and reads the next lengths out of them: whenever
  those announce more than is left, as text does, only the first entry is visited.\<close>

theorem Range_raw_first_only:
  assumes "fits (k, v)" and "4 \<le> length (k @ v @ r)"
    and "length r < klen (k @ v @ r) + vlen (k @ v @ r)"
  shows "Headers_Range spare f kvs (newHeaders (enc_kv k v @ r)) s = Returns (snd (f s k v))"
  using assms range_entry [of k v spare f r s]
  by (auto simp: Headers_Range_def newHeaders_def range_stop split: prod.split)

theorem Range_raw_first_only_witness:
  "Headers_Range [] (\<lambda>seen k v. (True, seen @ [k])) []
     (newHeaders (wire [(lit ''h1'', lit ''v1''), (lit ''h2'', lit ''v2'')])) [] =
   Returns [lit ''h1'']"
proof -
  let ?r = "enc_kv (lit ''h2'') (lit ''v2'')"
  have f: "fits (lit ''h1'', lit ''v1'')" and l: "4 \<le> length (lit ''h1'' @ lit ''v1'' @ ?r)"
    by (simp_all add: lit_def)
  have b: "length ?r < klen (lit ''h1'' @ lit ''v1'' @ ?r) + vlen (lit ''h1'' @ lit ''v1'' @ ?r)"
    by (simp add: lit_def klen_def vlen_def)
  from Range_raw_first_only [OF f l b, of "[]" "\<lambda>seen k v. (True, seen @ [k])" "[]" "[]"]
  show ?thesis by simp
qed

end
