(* ===== verification/ReqResp.thy ===== *)
theory ReqResp
  imports Headers
begin

text \<open>
  The rest of \<open>go/req_resp.go\<close>: flags, \<open>Request\<close>, status codes, \<open>Response\<close> and
  \<open>ReadCloseCounter\<close>, with the frames they are written as and read from.

  \<^item> A \<open>*bytes.Buffer\<close> or \<open>*Headers\<close> field is an \<open>option\<close>, \<open>None\<close> being the nil pointer.
  \<^item> A body reader is the bytes it still delivers; \<open>Read\<close> may deliver them in pieces of any size.
  \<^item> Writing a frame returns the changed request or response (headers are cached in encoded form,
    bodies are consumed), the connection, the byte count and the error.
\<close>

section \<open>Flags\<close>

definition FlagStreamMsg :: byte where "FlagStreamMsg = 0b10000000"
definition ReqFlagStream :: byte where "ReqFlagStream = 0b01000000"
definition ReqFlagTimeout :: byte where "ReqFlagTimeout = 0b00000010"
definition ReqFlagCancel :: byte where "ReqFlagCancel = 0b00000001"
definition MsgFlagNotStream :: byte where "MsgFlagNotStream = 0b01000000"
definition MsgFlagTooLarge :: byte where "MsgFlagTooLarge = 0b00100000"
definition MsgFlagClose :: byte where "MsgFlagClose = 0b00000001"

lemmas flag_defs = FlagStreamMsg_def ReqFlagStream_def ReqFlagTimeout_def ReqFlagCancel_def
  MsgFlagNotStream_def MsgFlagTooLarge_def MsgFlagClose_def

definition hasStreamFlag :: "byte \<Rightarrow> bool" where
  "hasStreamFlag flags \<longleftrightarrow> flags AND ReqFlagStream \<noteq> 0"

definition hasStreamMsgFlag :: "byte \<Rightarrow> bool" where
  "hasStreamMsgFlag flags \<longleftrightarrow> flags AND FlagStreamMsg \<noteq> 0"

definition hasCloseFlag :: "byte \<Rightarrow> bool" where
  "hasCloseFlag flags \<longleftrightarrow> flags AND MsgFlagClose \<noteq> 0"

section \<open>Requests\<close>

text \<open>\<open>context.Context\<close> as the program uses it: the background context with values on top.\<close>

datatype 'v ctx = Background | WithValue "'v ctx" string 'v

fun ctx_Value :: "'v ctx \<Rightarrow> string \<Rightarrow> 'v option" where
  "ctx_Value Background k = None"
| "ctx_Value (WithValue c k' v) k = (if k = k' then Some v else ctx_Value c k)"

record 'v request =
  rq_id :: u64
  rq_ctx :: "'v ctx"
  RemoteAddr :: gostring
  Flags :: byte
  Path :: gostring
  rq_Headers :: "headers option"
  rq_Body :: "bytes option"

definition NewRequest :: "'v ctx \<Rightarrow> gostring \<Rightarrow> 'v request" where
  "NewRequest c path =
     \<lparr>rq_id = 0, rq_ctx = c, RemoteAddr = [], Flags = 0, Path = path,
      rq_Headers = Some (NewHeaders False), rq_Body = None\<rparr>"

definition newRequest :: "u64 \<Rightarrow> gostring \<Rightarrow> byte \<Rightarrow> gostring \<Rightarrow> bytes \<Rightarrow> 'v request" where
  "newRequest i addr flags path headerBytes =
     \<lparr>rq_id = i, rq_ctx = Background, RemoteAddr = addr, Flags = flags, Path = path,
      rq_Headers = Some (newHeaders headerBytes), rq_Body = None\<rparr>"

datatype reqerr = ReqIO ioerr | ErrBodyTooLarge

text \<open>\<open>bodyLen\<close> is the 8-byte length read as a signed integer.\<close>

definition RequestFromReader :: "utils \<Rightarrow> int \<Rightarrow> bytes \<Rightarrow> reqerr + 'v request \<times> bytes" where
  "RequestFromReader U maxBodyLen r =
     (case ReadFull 21 r of
        Inl e \<Rightarrow> Inl (ReqIO e)
      | Inr (buf, r1) \<Rightarrow>
          let i = u64_at 0 buf;
              flags = buf ! 8;
              pathLen = unat (u16_at 9 buf);
              headersLen = unat (u16_at 11 buf);
              bodyLen = sint (u64_at 13 buf)
          in if bodyLen > maxBodyLen then Inl ErrBodyTooLarge
             else case ReadFull (pathLen + headersLen) r1 of
               Inl e \<Rightarrow> Inl (ReqIO e)
             | Inr (b, r2) \<Rightarrow>
                 (case CopyN bodyLen r2 of
                    (body, r3, Some e) \<Rightarrow> Inl (ReqIO e)
                  | (body, r3, None) \<Rightarrow>
                      Inr (\<lparr>rq_id = i, rq_ctx = Background, RemoteAddr = [], Flags = flags,
                             Path = take pathLen b,
                             rq_Headers = Some (newHeaders (CloneSlice U (drop pathLen b))),
                             rq_Body = Some body\<rparr>, r3)))"

definition SetStream :: "bool \<Rightarrow> 'v request \<Rightarrow> 'v request" where
  "SetStream b r =
     (if b then r\<lparr>Flags := Flags r OR ReqFlagStream\<rparr>
      else r\<lparr>Flags := Flags r AND NOT ReqFlagStream\<rparr>)"

definition WantsStream :: "'v request \<Rightarrow> bool" where
  "WantsStream r = hasStreamFlag (Flags r)"

text \<open>
  \<open>Clone\<close>: inside \<open>if r.Body != nil\<close> the source declares a second \<open>body\<close> and fills that one;
  the \<open>body\<close> that is returned stays nil.
\<close>

definition Request_Clone :: "utils \<Rightarrow> 'v ctx \<Rightarrow> 'v request \<Rightarrow> 'v request" where
  "Request_Clone U c r =
     (let hs = map_option (Headers_Clone U) (rq_Headers r); body = None in
      \<lparr>rq_id = 0, rq_ctx = c, RemoteAddr = RemoteAddr r, Flags = Flags r, Path = Path r,
       rq_Headers = hs, rq_Body = body\<rparr>)"

definition Request_Context :: "'v request \<Rightarrow> 'v ctx" where
  "Request_Context r = rq_ctx r"

definition WithContext :: "'v ctx \<Rightarrow> 'v request \<Rightarrow> 'v request" where
  "WithContext c r = r\<lparr>rq_ctx := c\<rparr>"

definition SetContext :: "'v ctx \<Rightarrow> 'v request \<Rightarrow> 'v request" where
  "SetContext c r = r\<lparr>rq_ctx := c\<rparr>"

text \<open>\<open>io.CopyN(w, src, n)\<close> into a connection: what \<open>src\<close> has left, how much was written, the error.\<close>

definition CopyN_out :: "conn_out \<Rightarrow> int \<Rightarrow> bytes \<Rightarrow> conn_out \<times> bytes \<times> nat \<times> ioerr option" where
  "CopyN_out w n src =
     (case CopyN n src of (a, src', e) \<Rightarrow>
        (case conn_Write w a of (w', k, we) \<Rightarrow>
           (w', src', k, case we of Some x \<Rightarrow> Some x | None \<Rightarrow> e)))"

text \<open>An encoding error of the headers is ignored: no header is written then.\<close>

definition header_bytes :: "kvlist \<Rightarrow> headers \<Rightarrow> headers \<times> bytes" where
  "header_bytes kvs h =
     (case Headers_Encode kvs h of (h', r) \<Rightarrow> (h', case r of Inl e \<Rightarrow> [] | Inr b \<Rightarrow> b))"

definition Request_WriteTo :: "utils \<Rightarrow> kvlist \<Rightarrow> 'v request \<Rightarrow> conn_out \<Rightarrow>
    'v request \<times> conn_out \<times> nat \<times> ioerr option" where
  "Request_WriteTo U kvs r w =
     (let buf = put_at 0 (le_put 8 (rq_id r)) (replicate 21 0);
          buf = buf[8 := Flags r];
          buf = put_at 9 (le_put 2 (of_nat (length (Path r)) :: u16)) buf;
          (hs, headerBytes, buf) =
            (case rq_Headers r of
               None \<Rightarrow> (None, [], buf)
             | Some h \<Rightarrow>
                 let (h', hb) = header_bytes kvs h
                 in (Some h', hb, put_at 11 (le_put 2 (of_nat (length hb) :: u16)) buf));
          buf = (case rq_Body r of
                   None \<Rightarrow> buf
                 | Some b \<Rightarrow> put_at 13 (le_put 8 (of_nat (length b) :: u64)) buf);
          buf = buf @ Path r @ headerBytes;
          r = r\<lparr>rq_Headers := hs\<rparr>
      in case WriteAll U w buf of
           (w', n, Some e) \<Rightarrow> (r, w', n, Some e)
         | (w', n, None) \<Rightarrow>
             (case rq_Body r of
                None \<Rightarrow> (r, w', n, None)
              | Some b \<Rightarrow>
                  (case CopyN_out w' (int (length b)) b of
                     (w'', b', ni, e) \<Rightarrow> (r\<lparr>rq_Body := Some b'\<rparr>, w'', n + ni, e))))"

definition SetBodyBytes :: "bytes \<Rightarrow> 'v request \<Rightarrow> 'v request" where
  "SetBodyBytes b r = r\<lparr>rq_Body := Some b\<rparr>"

section \<open>Status codes\<close>

definition StatusOK :: byte where "StatusOK = 0"
definition StatusPartialError :: byte where "StatusPartialError = 1"
definition StatusNotFound :: byte where "StatusNotFound = 128"
definition StatusIsStream :: byte where "StatusIsStream = 129"
definition StatusNotStream :: byte where "StatusNotStream = 130"
definition StatusBadRequest :: byte where "StatusBadRequest = 131"
definition StatusUnauthorized :: byte where "StatusUnauthorized = 132"
definition StatusBodyTooLarge :: byte where "StatusBodyTooLarge = 133"
definition StatusInvalidInitialBytes :: byte where "StatusInvalidInitialBytes = 160"
definition StatusBadVersion :: byte where "StatusBadVersion = 161"
definition StatusInternalServerError :: byte where "StatusInternalServerError = 192"

lemmas status_defs = StatusOK_def StatusPartialError_def StatusNotFound_def StatusIsStream_def
  StatusNotStream_def StatusBadRequest_def StatusUnauthorized_def StatusBodyTooLarge_def
  StatusInvalidInitialBytes_def StatusBadVersion_def StatusInternalServerError_def

definition StatusToHTTP :: "byte \<Rightarrow> int" where
  "StatusToHTTP status =
     (if status = StatusOK then 200
      else if status = StatusNotFound then 404
      else if status = StatusIsStream \<or> status = StatusNotStream then 405
      else if status = StatusUnauthorized then 401
      else if status = StatusBodyTooLarge then 413
      else if status = StatusInvalidInitialBytes then 400
      else if status = StatusBadVersion then 505
      else if status = StatusInternalServerError then 500
      else if status < 128 then 200
      else if status < 192 then 400
      else 500)"

section \<open>Counted body readers\<close>

text \<open>
  \<open>ReadCloseCounter\<close>: the bytes the wrapped reader still delivers, how many of them may be read,
  and whether \<open>Close\<close> was called on it.  One \<open>Read\<close> of a \<open>p\<close> of \<open>plen\<close> bytes gets at most
  \<open>chunk\<close> bytes from the wrapped reader, whose choice that is.
\<close>

record counter =
  src :: bytes
  Len :: u64
  closed :: bool

definition FromReader :: "bytes \<Rightarrow> u64 \<Rightarrow> counter" where
  "FromReader r n = \<lparr>src = r, Len = n, closed = False\<rparr>"

definition counter_Read :: "nat \<Rightarrow> nat \<Rightarrow> counter \<Rightarrow> counter \<times> bytes \<times> ioerr option" where
  "counter_Read chunk plen c =
     (if Len c = 0 then (c, [], Some EOF)
      else
        let p = (if plen > unat (Len c) then unat (Len c) else plen);
            n = min (min p chunk) (length (src c));
            err = (if src c = [] \<and> p > 0 then Some EOF else None)
        in (c\<lparr>src := drop n (src c), Len := Len c - of_nat n\<rparr>, take n (src c), err))"

definition counter_Close :: "counter \<Rightarrow> counter" where
  "counter_Close c = c\<lparr>closed := True\<rparr>"

text \<open>The bytes the counter still lets through, and taking \<open>n\<close> of them.\<close>

definition avail :: "counter \<Rightarrow> bytes" where
  "avail c = take (unat (Len c)) (src c)"

definition consume :: "nat \<Rightarrow> counter \<Rightarrow> counter" where
  "consume n c = c\<lparr>src := drop n (src c), Len := Len c - of_nat n\<rparr>"

section \<open>Responses\<close>

record ('v, 's) response =
  reqId :: u64
  rflags :: byte
  StatusCode :: byte
  rHeaders :: "headers option"
  rbody :: "counter option"
  bodyLen :: u64
  rStream :: "'s option"
  rRequest :: "'v request option"

definition zeroResponse :: "('v, 's) response" where
  "zeroResponse = \<lparr>reqId = 0, rflags = 0, StatusCode = 0, rHeaders = None, rbody = None,
     bodyLen = 0, rStream = None, rRequest = None\<rparr>"

definition newResponse :: "u64 \<Rightarrow> byte \<Rightarrow> 'v request option \<Rightarrow> ('v, 's) response" where
  "newResponse i fl req = \<lparr>reqId = i, rflags = fl, StatusCode = 0,
     rHeaders = Some (newHeaders []), rbody = None, bodyLen = 0, rStream = None, rRequest = req\<rparr>"

definition SetBodyReadCloser :: "bytes \<Rightarrow> int \<Rightarrow> ('v, 's) response \<Rightarrow> ('v, 's) response" where
  "SetBodyReadCloser rc l r =
     (let ul = word_of_int l in r\<lparr>rbody := Some (FromReader rc ul), bodyLen := ul\<rparr>)"

definition SetBodyReader :: "bytes \<Rightarrow> int \<Rightarrow> ('v, 's) response \<Rightarrow> ('v, 's) response" where
  "SetBodyReader ir l r = SetBodyReadCloser ir l r"

definition Response_SetBodyBytes :: "bytes \<Rightarrow> ('v, 's) response \<Rightarrow> ('v, 's) response" where
  "Response_SetBodyBytes b r = SetBodyReader b (int (length b)) r"

definition BodyLenLeft :: "('v, 's) response \<Rightarrow> u64 outcome" where
  "BodyLenLeft r = (case rbody r of None \<Rightarrow> Panics NilDeref | Some c \<Rightarrow> Returns (Len c))"

definition BodyLen :: "('v, 's) response \<Rightarrow> u64" where
  "BodyLen r = bodyLen r"

text \<open>\<open>io.ReadAll\<close> reads until the end of the stream, which is no error.\<close>

definition Response_Body :: "('v, 's) response \<Rightarrow> counter option" where
  "Response_Body r = rbody r"

definition BodyBytes :: "('v, 's) response \<Rightarrow> ('v, 's) response \<times> bytes" where
  "BodyBytes r =
     (case rbody r of
        None \<Rightarrow> (r, [])
      | Some c \<Rightarrow> (r\<lparr>rbody := Some (consume (length (avail c)) c)\<rparr>, avail c))"

text \<open>
  \<open>WriteTo\<close>: the body is closed when it returns, on every path.  An encoding error of the headers
  leaves them out; the length field holds the low 16 bits of the encoded length.
\<close>

definition close_body :: "('v, 's) response \<Rightarrow> ('v, 's) response" where
  "close_body r = r\<lparr>rbody := map_option counter_Close (rbody r)\<rparr>"

definition Response_WriteTo :: "utils \<Rightarrow> kvlist \<Rightarrow> ('v, 's) response \<Rightarrow> conn_out \<Rightarrow>
    ('v, 's) response \<times> conn_out \<times> nat \<times> ioerr option" where
  "Response_WriteTo U kvs r w =
     (let buf = put_at 0 (le_put 8 (reqId r)) (replicate 20 0);
          buf = buf[8 := rflags r, 9 := StatusCode r];
          (hs, buf) =
            (case rHeaders r of
               None \<Rightarrow> (None, buf)
             | Some h \<Rightarrow>
                 let (h', hb) = header_bytes kvs h
                 in (Some h', put_at 10 (le_put 2 (of_nat (length hb) :: u16)) (buf @ hb)));
          buf = put_at 12 (le_put 8 (bodyLen r)) buf;
          r = r\<lparr>rHeaders := hs\<rparr>
      in case WriteAll U w buf of
           (w', n, Some e) \<Rightarrow> (close_body r, w', n, Some e)
         | (w', n, None) \<Rightarrow>
             (case rbody r of
                None \<Rightarrow> (r, w', n, None)
              | Some c \<Rightarrow>
                  (case CopyN_out w' (sint (bodyLen r)) (avail c) of
                     (w'', rest, nw, e) \<Rightarrow>
                       (close_body (r\<lparr>rbody := Some (consume (length (avail c) - length rest) c)\<rparr>),
                        w'', n + nw, e))))"

text \<open>\<open>ReadFrom\<close>: the response filled in, what is left to read, the bytes read, the error.\<close>

definition Response_ReadFrom :: "('v, 's) response \<Rightarrow> bytes \<Rightarrow>
    ('v, 's) response \<times> bytes \<times> int \<times> ioerr option" where
  "Response_ReadFrom r reader =
     (case ReadFull 20 reader of
        Inl e \<Rightarrow> (r, [], int (length reader), Some e)
      | Inr (buf, r1) \<Rightarrow>
          let r = r\<lparr>reqId := u64_at 0 buf, rflags := buf ! 8, StatusCode := buf ! 9\<rparr>;
              hl = u16_at 10 buf;
              bl = u64_at 12 buf
          in case (if hl \<noteq> 0 then ReadFull (unat hl) r1 else Inr ([], r1)) of
               Inl e \<Rightarrow> (r, [], 20 + int (length r1), Some e)
             | Inr (headerBytes, r2) \<Rightarrow>
                 let r = r\<lparr>rHeaders := Some (newHeaders headerBytes)\<rparr>;
                     nr = 20 + int (unat hl)
                 in if bl \<noteq> 0
                    then (case CopyN (sint bl) r2 of
                            (body, r3, Some e) \<Rightarrow> (r, r3, nr + int (length body), Some e)
                          | (body, r3, None) \<Rightarrow>
                              (SetBodyReader body (sint bl) r, r3, nr + int (length body), None))
                    else (r, r2, nr, None))"

definition ShallowCopyFrom :: "('v, 's) response \<Rightarrow> ('v, 's) response \<Rightarrow> ('v, 's) response" where
  "ShallowCopyFrom resp r = r\<lparr>rflags := rflags resp, StatusCode := StatusCode resp,
     rHeaders := rHeaders resp, rbody := rbody resp, bodyLen := bodyLen resp,
     rStream := rStream resp\<rparr>"

definition SetStatusBodyBytes :: "byte \<Rightarrow> bytes \<Rightarrow> ('v, 's) response \<Rightarrow> ('v, 's) response" where
  "SetStatusBodyBytes status body r = Response_SetBodyBytes body (r\<lparr>StatusCode := status\<rparr>)"

definition SetStatusBodyReader :: "byte \<Rightarrow> bytes \<Rightarrow> int \<Rightarrow> ('v, 's) response \<Rightarrow> ('v, 's) response" where
  "SetStatusBodyReader status ir l r = SetBodyReader ir l (r\<lparr>StatusCode := status\<rparr>)"

text \<open>The responses the library itself sends: a bare head, or a head and a message.\<close>

definition writeResp :: "utils \<Rightarrow> u64 \<Rightarrow> byte \<Rightarrow> conn_out \<Rightarrow> conn_out \<times> nat \<times> ioerr option" where
  "writeResp U i statusCode w =
     (let buf = put_at 0 (le_put 8 i) (replicate 20 0); buf = buf[9 := statusCode]
      in WriteAll U w buf)"

definition writeRespMsg :: "utils \<Rightarrow> u64 \<Rightarrow> byte \<Rightarrow> gostring \<Rightarrow> conn_out \<Rightarrow>
    conn_out \<times> nat \<times> ioerr option" where
  "writeRespMsg U i statusCode msg w =
     (let resp = Response_SetBodyBytes msg
            ((zeroResponse :: (unit, unit) response)\<lparr>reqId := i, StatusCode := statusCode\<rparr>)
      in case Response_WriteTo U [] resp w of (r', w', n, e) \<Rightarrow> (w', n, e))"

section \<open>Frame layout\<close>

definition request_head :: "u64 \<Rightarrow> byte \<Rightarrow> u16 \<Rightarrow> u16 \<Rightarrow> u64 \<Rightarrow> bytes" where
  "request_head i fl pl hl bl = le_put 8 i @ [fl] @ le_put 2 pl @ le_put 2 hl @ le_put 8 bl"

definition response_head :: "u64 \<Rightarrow> byte \<Rightarrow> byte \<Rightarrow> u16 \<Rightarrow> u64 \<Rightarrow> bytes" where
  "response_head i fl st hl bl = le_put 8 i @ [fl, st] @ le_put 2 hl @ le_put 8 bl"

lemma put_at_middle: "length a = i \<Longrightarrow> length c = length bs \<Longrightarrow> put_at i bs (a @ c @ r) = a @ bs @ r"
  by (auto simp: put_at_def)

lemma put_at_start: "length c = length bs \<Longrightarrow> put_at 0 bs (c @ r) = bs @ r"
  by (simp add: put_at_def)

lemma put_at_end: "length a = i \<Longrightarrow> length c = length bs \<Longrightarrow> put_at i bs (a @ c) = a @ bs"
  by (auto simp: put_at_def)

lemma zero21: "replicate 21 (0 :: byte) =
    replicate 8 0 @ [0] @ replicate 2 0 @ replicate 2 0 @ replicate 8 0"
  by (simp add: numeral_eq_Suc)

lemma zero20: "replicate 20 (0 :: byte) = replicate 8 0 @ [0, 0] @ replicate 2 0 @ replicate 8 0"
  by (simp add: numeral_eq_Suc)

lemma length_heads [simp]:
  "length (request_head i fl pl hl bl) = 21" "length (response_head i fl st hl bl) = 20"
  by (simp_all add: request_head_def response_head_def)

lemma update_at: "length a = i \<Longrightarrow> (a @ x # r)[i := y] = a @ y # r"
  by auto

lemma request_head_zero: "put_at 0 (le_put 8 i) (replicate 21 0) = request_head i 0 0 0 0"
proof -
  have z: "le_put 2 (0 :: u16) = replicate 2 0" "le_put 8 (0 :: u64) = replicate 8 0"
    by (simp_all add: numeral_eq_Suc)
  show ?thesis by (simp add: zero21 put_at_start request_head_def z del: replicate.simps)
qed

lemma request_head_writes:
  "(request_head i a pl hl bl)[8 := fl] = request_head i fl pl hl bl"
  "put_at 9 (le_put 2 pl') (request_head i fl pl hl bl) = request_head i fl pl' hl bl"
  "put_at 11 (le_put 2 hl') (request_head i fl pl hl bl) = request_head i fl pl hl' bl"
  "put_at 13 (le_put 8 bl') (request_head i fl pl hl bl) = request_head i fl pl hl bl'"
proof -
  show "(request_head i a pl hl bl)[8 := fl] = request_head i fl pl hl bl"
    by (simp add: request_head_def update_at)
  show "put_at 9 (le_put 2 pl') (request_head i fl pl hl bl) = request_head i fl pl' hl bl"
    using put_at_middle [of "le_put 8 i @ [fl]" 9 "le_put 2 pl" "le_put 2 pl'" "le_put 2 hl @ le_put 8 bl"]
    by (simp add: request_head_def)
  show "put_at 11 (le_put 2 hl') (request_head i fl pl hl bl) = request_head i fl pl hl' bl"
    using put_at_middle [of "le_put 8 i @ [fl] @ le_put 2 pl" 11 "le_put 2 hl" "le_put 2 hl'" "le_put 8 bl"]
    by (simp add: request_head_def)
  show "put_at 13 (le_put 8 bl') (request_head i fl pl hl bl) = request_head i fl pl hl bl'"
    using put_at_end [of "le_put 8 i @ [fl] @ le_put 2 pl @ le_put 2 hl" 13 "le_put 8 bl" "le_put 8 bl'"]
    by (simp add: request_head_def)
qed

lemma request_head_reads [simp]:
  "u64_at 0 (request_head i fl pl hl bl) = i"
  "request_head i fl pl hl bl ! 8 = fl"
  "u16_at 9 (request_head i fl pl hl bl) = pl"
  "u16_at 11 (request_head i fl pl hl bl) = hl"
  "u64_at 13 (request_head i fl pl hl bl) = bl"
  using u64_at_append [of "[]" 0 i] u16_at_append [of "le_put 8 i @ [fl]" 9 pl]
    u16_at_append [of "le_put 8 i @ [fl] @ le_put 2 pl" 11 hl]
    u64_at_append [of "le_put 8 i @ [fl] @ le_put 2 pl @ le_put 2 hl" 13 bl "[]"]
  by (simp_all add: request_head_def nth_append)

lemma response_head_zero: "put_at 0 (le_put 8 i) (replicate 20 0) = response_head i 0 0 0 0"
proof -
  have z: "le_put 2 (0 :: u16) = replicate 2 0" "le_put 8 (0 :: u64) = replicate 8 0"
    by (simp_all add: numeral_eq_Suc)
  show ?thesis by (simp add: zero20 put_at_start response_head_def z del: replicate.simps)
qed

lemma response_head_writes:
  "(response_head i a st hl bl)[8 := fl] = response_head i fl st hl bl"
  "(response_head i fl a hl bl)[9 := st] = response_head i fl st hl bl"
  "put_at 10 (le_put 2 hl') (response_head i fl st hl bl @ r) = response_head i fl st hl' bl @ r"
  "put_at 12 (le_put 8 bl') (response_head i fl st hl bl @ r) = response_head i fl st hl bl' @ r"
proof -
  show "(response_head i a st hl bl)[8 := fl] = response_head i fl st hl bl"
    by (simp add: response_head_def update_at)
  show "(response_head i fl a hl bl)[9 := st] = response_head i fl st hl bl"
    using update_at [of "le_put 8 i @ [fl]" 9 a] by (simp add: response_head_def)
  show "put_at 10 (le_put 2 hl') (response_head i fl st hl bl @ r) = response_head i fl st hl' bl @ r"
    using put_at_middle [of "le_put 8 i @ [fl, st]" 10 "le_put 2 hl" "le_put 2 hl'" "le_put 8 bl @ r"]
    by (simp add: response_head_def)
  show "put_at 12 (le_put 8 bl') (response_head i fl st hl bl @ r) = response_head i fl st hl bl' @ r"
    using put_at_middle [of "le_put 8 i @ [fl, st] @ le_put 2 hl" 12 "le_put 8 bl" "le_put 8 bl'" r]
    by (simp add: response_head_def)
qed

lemma response_head_writes_end:
  "put_at 12 (le_put 8 bl') (response_head i fl st hl bl) = response_head i fl st hl bl'"
  using response_head_writes(4) [of bl' i fl st hl bl "[]"] by simp

lemma response_head_reads [simp]:
  "u64_at 0 (response_head i fl st hl bl) = i"
  "response_head i fl st hl bl ! 8 = fl"
  "response_head i fl st hl bl ! 9 = st"
  "u16_at 10 (response_head i fl st hl bl) = hl"
  "u64_at 12 (response_head i fl st hl bl) = bl"
  using u64_at_append [of "[]" 0 i] u16_at_append [of "le_put 8 i @ [fl, st]" 10 hl]
    u64_at_append [of "le_put 8 i @ [fl, st] @ le_put 2 hl" 12 bl "[]"]
  by (simp_all add: response_head_def nth_append)

text \<open>The bytes a request and a response are written as.\<close>

definition hdr_out :: "kvlist \<Rightarrow> headers option \<Rightarrow> bytes" where
  "hdr_out kvs ho = (case ho of None \<Rightarrow> [] | Some h \<Rightarrow> snd (header_bytes kvs h))"

definition body_out :: "bytes option \<Rightarrow> bytes" where
  "body_out bo = (case bo of None \<Rightarrow> [] | Some b \<Rightarrow> b)"

definition request_bytes :: "kvlist \<Rightarrow> 'v request \<Rightarrow> bytes" where
  "request_bytes kvs r =
     request_head (rq_id r) (Flags r) (of_nat (length (Path r)))
       (of_nat (length (hdr_out kvs (rq_Headers r)))) (of_nat (length (body_out (rq_Body r)))) @
     Path r @ hdr_out kvs (rq_Headers r) @ body_out (rq_Body r)"

definition response_bytes :: "kvlist \<Rightarrow> ('v, 's) response \<Rightarrow> bytes" where
  "response_bytes kvs r =
     response_head (reqId r) (rflags r) (StatusCode r)
       (of_nat (length (hdr_out kvs (rHeaders r)))) (bodyLen r) @
     hdr_out kvs (rHeaders r) @
     (case rbody r of None \<Rightarrow> [] | Some c \<Rightarrow> take (nat (sint (bodyLen r))) (avail c))"

lemma conn_Write_prefix:
  "conn_Write w b = (w', k, e) \<Longrightarrow> out w' = out w @ take k b \<and> k \<le> length b \<and>
     (e = None \<longleftrightarrow> k = length b) \<and> (room w = None \<longrightarrow> e = None \<and> room w' = None)"
  by (auto simp: conn_Write_def split: option.splits if_splits)

lemma CopyN_out_prefix:
  assumes "n = int (length b)" and "CopyN_out w n b = (w', rest, k, e)"
  shows "out w' = out w @ take k b" and "k \<le> length b" and "e = None \<longleftrightarrow> k = length b"
    and "rest = []" and "room w = None \<Longrightarrow> e = None \<and> room w' = None"
proof -
  obtain w1 k1 e1 where c: "conn_Write w b = (w1, k1, e1)" by (cases "conn_Write w b")
  then have eq: "w' = w1" "rest = []" "k = k1" "e = e1"
    using assms by (auto simp: CopyN_out_def split: option.splits)
  from conn_Write_prefix [OF c] eq
  show "out w' = out w @ take k b" "k \<le> length b" "e = None \<longleftrightarrow> k = length b" "rest = []"
    "room w = None \<Longrightarrow> e = None \<and> room w' = None" by auto
qed

lemma Request_WriteTo_eq:
  "Request_WriteTo U kvs r w =
    (let r' = r\<lparr>rq_Headers := map_option (\<lambda>h. fst (header_bytes kvs h)) (rq_Headers r)\<rparr>
     in case WriteAll U w (request_head (rq_id r) (Flags r) (of_nat (length (Path r)))
           (of_nat (length (hdr_out kvs (rq_Headers r)))) (of_nat (length (body_out (rq_Body r)))) @
          Path r @ hdr_out kvs (rq_Headers r)) of
          (w', n, Some e) \<Rightarrow> (r', w', n, Some e)
        | (w', n, None) \<Rightarrow>
            (case rq_Body r of
               None \<Rightarrow> (r', w', n, None)
             | Some b \<Rightarrow>
                 (case CopyN_out w' (int (length b)) b of
                    (w'', b', ni, e) \<Rightarrow> (r'\<lparr>rq_Body := Some b'\<rparr>, w'', n + ni, e))))"
  by (cases "rq_Headers r"; cases "rq_Body r")
    (simp_all add: Request_WriteTo_def request_head_zero request_head_writes hdr_out_def
      body_out_def Let_def split: prod.split option.split)

text \<open>Whatever happens on the connection, what has left is the beginning of the frame.\<close>

lemma Request_WriteTo_prefix:
  assumes U: "utils_contract U" and wr: "Request_WriteTo U kvs r w = (r', w', n, e)"
  shows "out w' = out w @ take n (request_bytes kvs r)"
    and "e = None \<longleftrightarrow> n = length (request_bytes kvs r)"
    and "room w = None \<Longrightarrow> e = None \<and> room w' = None"
proof -
  let ?buf = "request_head (rq_id r) (Flags r) (of_nat (length (Path r)))
     (of_nat (length (hdr_out kvs (rq_Headers r)))) (of_nat (length (body_out (rq_Body r)))) @
     Path r @ hdr_out kvs (rq_Headers r)"
  have rb: "request_bytes kvs r = ?buf @ body_out (rq_Body r)"
    by (simp add: request_bytes_def)
  obtain w1 n1 e1 where wa: "WriteAll U w ?buf = (w1, n1, e1)"
    by (cases "WriteAll U w ?buf")
  note pre = utils_WriteAll(1) [OF U wa]
  have head: "out w' = out w @ take n (request_bytes kvs r) \<and>
    (e = None \<longleftrightarrow> n = length (request_bytes kvs r)) \<and> (room w = None \<longrightarrow> e = None \<and> room w' = None)"
  proof (cases e1)
    case (Some x)
    then have "w' = w1" "n = n1" "e = Some x"
      using wr wa by (simp_all add: Request_WriteTo_eq Let_def)
    moreover have "n1 < length ?buf"
      using utils_WriteAll(3) [OF U] wa Some by blast
    moreover have "room w \<noteq> None"
      using utils_WriteAll(4) [OF U, of w ?buf] wa Some by auto
    ultimately show ?thesis using pre by (auto simp: rb)
  next
    case None
    have n1: "n1 = length ?buf" using utils_WriteAll(2) [OF U] wa None by blast
    have room1: "room w = None \<Longrightarrow> room w1 = None"
      using utils_WriteAll(4) [OF U, of w ?buf] wa by auto
    show ?thesis
    proof (cases "rq_Body r")
      case no_body: None
      then have "w' = w1" "n = n1" "e = None"
        using wr wa None by (simp_all add: Request_WriteTo_eq Let_def)
      then show ?thesis using pre n1 room1 no_body by (auto simp: rb body_out_def)
    next
      case (Some b)
      obtain w2 b2 ni e2 where c: "CopyN_out w1 (int (length b)) b = (w2, b2, ni, e2)"
        by (cases "CopyN_out w1 (int (length b)) b")
      then have "w' = w2" "n = n1 + ni" "e = e2"
        using wr wa None Some by (simp_all add: Request_WriteTo_eq Let_def)
      then show ?thesis
        using pre n1 room1 CopyN_out_prefix [OF refl c] Some by (auto simp: rb body_out_def)
    qed
  qed
  then show "out w' = out w @ take n (request_bytes kvs r)"
    and "e = None \<longleftrightarrow> n = length (request_bytes kvs r)"
    and "room w = None \<Longrightarrow> e = None \<and> room w' = None" by auto
qed
section \<open>Reading frames back\<close>

text \<open>The frame of a request as read: lengths fit their fields, the body length is not negative.\<close>

definition request_fits :: "int \<Rightarrow> kvlist \<times> 'v request \<Rightarrow> bool" where
  "request_fits maxBodyLen = (\<lambda>(kvs, r).
     length (Path r) < 2 ^ 16 \<and> length (hdr_out kvs (rq_Headers r)) < 2 ^ 16 \<and>
     length (body_out (rq_Body r)) < 2 ^ 63 \<and> int (length (body_out (rq_Body r))) \<le> maxBodyLen)"

definition request_read :: "kvlist \<times> 'v request \<Rightarrow> 'v request" where
  "request_read = (\<lambda>(kvs, r).
     \<lparr>rq_id = rq_id r, rq_ctx = Background, RemoteAddr = [], Flags = Flags r, Path = Path r,
      rq_Headers = Some (newHeaders (hdr_out kvs (rq_Headers r))),
      rq_Body = Some (body_out (rq_Body r))\<rparr>)"

definition request_frame :: "kvlist \<times> 'v request \<Rightarrow> bytes" where
  "request_frame = (\<lambda>(kvs, r). request_bytes kvs r)"

lemma RequestFromReader_bytes:
  assumes "utils_contract U" and "request_fits maxBodyLen f"
  shows "RequestFromReader U maxBodyLen (request_frame f @ rest) = Inr (request_read f, rest)"
proof -
  obtain kvs r where fd: "f = (kvs, r)" by (cases f)
  have f: "ReadFull 21 (request_bytes kvs r @ rest) =
      Inr (request_head (rq_id r) (Flags r) (of_nat (length (Path r)))
             (of_nat (length (hdr_out kvs (rq_Headers r))))
             (of_nat (length (body_out (rq_Body r)))),
           Path r @ hdr_out kvs (rq_Headers r) @ body_out (rq_Body r) @ rest)"
    by (simp add: request_bytes_def)
  have p: "ReadFull (length (Path r) + length (hdr_out kvs (rq_Headers r)))
      (Path r @ hdr_out kvs (rq_Headers r) @ body_out (rq_Body r) @ rest) =
      Inr (Path r @ hdr_out kvs (rq_Headers r), body_out (rq_Body r) @ rest)"
    using ReadFull_append [of "Path r @ hdr_out kvs (rq_Headers r)"] by simp
  show ?thesis
    using assms by (simp add: RequestFromReader_def f p request_fits_def sint64_of_nat
        request_read_def request_frame_def utils_CloneSlice Let_def fd)
qed

definition response_fits :: "kvlist \<times> ('v, 's) response \<Rightarrow> bool" where
  "response_fits = (\<lambda>(kvs, r).
     length (hdr_out kvs (rHeaders r)) < 2 ^ 16 \<and>
     (case rbody r of
        None \<Rightarrow> bodyLen r = 0
      | Some c \<Rightarrow> 0 \<le> sint (bodyLen r) \<and> sint (bodyLen r) \<le> int (length (avail c))))"

definition response_body :: "('v, 's) response \<Rightarrow> bytes" where
  "response_body r = (case rbody r of None \<Rightarrow> [] | Some c \<Rightarrow> take (nat (sint (bodyLen r))) (avail c))"

definition response_read :: "('w, 't) response \<Rightarrow> kvlist \<times> ('v, 's) response \<Rightarrow> ('w, 't) response" where
  "response_read r0 = (\<lambda>(kvs, r).
     r0\<lparr>reqId := reqId r, rflags := rflags r, StatusCode := StatusCode r,
        rHeaders := Some (newHeaders (hdr_out kvs (rHeaders r))),
        rbody := (if bodyLen r = 0 then rbody r0 else Some (FromReader (response_body r) (bodyLen r))),
        bodyLen := (if bodyLen r = 0 then bodyLen r0 else bodyLen r)\<rparr>)"

definition response_frame :: "kvlist \<times> ('v, 's) response \<Rightarrow> bytes" where
  "response_frame = (\<lambda>(kvs, r). response_bytes kvs r)"

lemma of_int_sint64 [simp]: "word_of_int (sint (u :: u64)) = u"
  by simp

lemma response_body_length:
  "response_fits (kvs, r) \<Longrightarrow> int (length (response_body r)) = sint (bodyLen r)"
  by (auto simp: response_fits_def response_body_def split: option.splits)

lemma Response_ReadFrom_bytes:
  assumes fits: "response_fits f"
  shows "Response_ReadFrom r0 (response_frame f @ rest) =
      (response_read r0 f, rest, int (length (response_frame f)), None)"
proof -
  obtain kvs r where f: "f = (kvs, r)" by (cases f)
  let ?h = "hdr_out kvs (rHeaders r)"
  let ?hl = "of_nat (length ?h) :: u16"
  let ?head = "response_head (reqId r) (rflags r) (StatusCode r) ?hl (bodyLen r)"
  have frame: "response_frame f = ?head @ ?h @ response_body r"
    by (simp add: response_frame_def response_bytes_def response_body_def f)
  have one: "ReadFull 20 (?head @ ?h @ response_body r @ rest) =
      Inr (?head, ?h @ response_body r @ rest)" by simp
  have hl: "unat ?hl = length ?h" "?hl = 0 \<longleftrightarrow> ?h = []"
    using fits by (auto simp: response_fits_def f simp flip: unat_eq_zero)
  have two: "(if ?hl \<noteq> 0 then ReadFull (unat ?hl) (?h @ response_body r @ rest)
      else Inr ([], ?h @ response_body r @ rest)) = Inr (?h, response_body r @ rest)"
    using hl by simp
  have len: "int (length (response_body r)) = sint (bodyLen r)"
    using fits response_body_length by (simp add: f)
  have three: "CopyN (sint (bodyLen r)) (response_body r @ rest) = (response_body r, rest, None)"
    by (simp add: len)
  have four: "bodyLen r = 0 \<Longrightarrow> response_body r = []"
    using len by simp
  show ?thesis
    unfolding frame Response_ReadFrom_def
    using hl two three four
    by (simp add: Let_def response_read_def f SetBodyReader_def SetBodyReadCloser_def len)
qed

interpretation requests: frame_codec request_frame "RequestFromReader plain_utils maxBodyLen"
    "request_fits maxBodyLen" request_read
  by unfold_locales (rule RequestFromReader_bytes [OF plain.utils_contract_axioms])

definition ReadResponse :: "bytes \<Rightarrow> ioerr + ('v, 's) response \<times> bytes" where
  "ReadResponse b =
     (case Response_ReadFrom zeroResponse b of
        (r, rest, n, Some e) \<Rightarrow> Inl e | (r, rest, n, None) \<Rightarrow> Inr (r, rest))"

interpretation responses: frame_codec response_frame ReadResponse response_fits "response_read zeroResponse"
  by unfold_locales (simp add: ReadResponse_def Response_ReadFrom_bytes)

section \<open>Writing responses\<close>

lemma Response_WriteTo_eq:
  "Response_WriteTo U kvs r w =
    (let r' = r\<lparr>rHeaders := map_option (\<lambda>h. fst (header_bytes kvs h)) (rHeaders r)\<rparr>
     in case WriteAll U w (response_head (reqId r) (rflags r) (StatusCode r)
           (of_nat (length (hdr_out kvs (rHeaders r)))) (bodyLen r) @ hdr_out kvs (rHeaders r)) of
          (w', n, Some e) \<Rightarrow> (close_body r', w', n, Some e)
        | (w', n, None) \<Rightarrow>
            (case rbody r of
               None \<Rightarrow> (r', w', n, None)
             | Some c \<Rightarrow>
                 (case CopyN_out w' (sint (bodyLen r)) (avail c) of
                    (w'', rest, nw, e) \<Rightarrow>
                      (close_body (r'\<lparr>rbody := Some (consume (length (avail c) - length rest) c)\<rparr>),
                       w'', n + nw, e))))"
  by (cases "rHeaders r"; cases "rbody r")
    (simp_all add: Response_WriteTo_def response_head_zero response_head_writes
      response_head_writes_end hdr_out_def Let_def split: prod.split option.split)

lemma CopyN_out_gen:
  assumes "CopyN_out w n b = (w', rest, k, e)"
  shows "out w' = out w @ take k (take (nat n) b)" and "k \<le> length (take (nat n) b)"
    and "e = None \<Longrightarrow> k = length (take (nat n) b)"
    and "room w = None \<Longrightarrow> room w' = None \<and> k = length (take (nat n) b) \<and>
      (e = None \<longleftrightarrow> n \<le> int (length b))"
    and "n \<le> int (length b) \<Longrightarrow> e = None \<longleftrightarrow> k = length (take (nat n) b)"
proof -
  obtain a b' ce where cn: "CopyN n b = (a, b', ce)" by (cases "CopyN n b")
  then have a: "a = take (nat n) b" "ce = None \<longleftrightarrow> n \<le> int (length b)"
    by (auto simp: CopyN_def split: if_splits)
  obtain w1 k1 e1 where c: "conn_Write w a = (w1, k1, e1)" by (cases "conn_Write w a")
  have eq: "w' = w1" "k = k1" "e = (case e1 of Some x \<Rightarrow> Some x | None \<Rightarrow> ce)"
    using assms cn c by (auto simp: CopyN_out_def split: option.splits)
  from conn_Write_prefix [OF c] eq a
  show "out w' = out w @ take k (take (nat n) b)" "k \<le> length (take (nat n) b)"
    "e = None \<Longrightarrow> k = length (take (nat n) b)"
    "room w = None \<Longrightarrow> room w' = None \<and> k = length (take (nat n) b) \<and>
      (e = None \<longleftrightarrow> n \<le> int (length b))"
    "n \<le> int (length b) \<Longrightarrow> e = None \<longleftrightarrow> k = length (take (nat n) b)"
    by (auto split: option.splits)
qed

lemma Response_WriteTo_prefix:
  assumes U: "utils_contract U" and wr: "Response_WriteTo U kvs r w = (r', w', n, e)"
  shows "out w' = out w @ take n (response_bytes kvs r) \<and> n \<le> length (response_bytes kvs r) \<and>
    (e = None \<longrightarrow> n = length (response_bytes kvs r)) \<and>
    (room w = None \<longrightarrow> room w' = None \<and> n = length (response_bytes kvs r) \<and>
       (e = None \<longleftrightarrow> rbody r = None \<or> sint (bodyLen r) \<le> int (length (avail (the (rbody r))))))"
proof -
  let ?buf = "response_head (reqId r) (rflags r) (StatusCode r)
     (of_nat (length (hdr_out kvs (rHeaders r)))) (bodyLen r) @ hdr_out kvs (rHeaders r)"
  have rb: "response_bytes kvs r = ?buf @ response_body r"
    by (simp add: response_bytes_def response_body_def)
  obtain w1 n1 e1 where wa: "WriteAll U w ?buf = (w1, n1, e1)"
    by (cases "WriteAll U w ?buf")
  note pre = utils_WriteAll(1) [OF U wa]
  show ?thesis
  proof (cases e1)
    case (Some x)
    then have "w' = w1" "n = n1" "e = Some x"
      using wr wa by (simp_all add: Response_WriteTo_eq Let_def)
    moreover have "room w \<noteq> None"
      using utils_WriteAll(4) [OF U, of w ?buf] wa Some by auto
    ultimately show ?thesis using pre by (auto simp: rb)
  next
    case None
    have n1: "n1 = length ?buf" using utils_WriteAll(2) [OF U] wa None by blast
    have room1: "room w = None \<Longrightarrow> room w1 = None"
      using utils_WriteAll(4) [OF U, of w ?buf] wa by auto
    show ?thesis
    proof (cases "rbody r")
      case no_body: None
      then have "w' = w1" "n = n1" "e = None"
        using wr wa None by (simp_all add: Response_WriteTo_eq Let_def)
      then show ?thesis using pre n1 room1 no_body by (auto simp: rb response_body_def)
    next
      case (Some c)
      obtain w2 b2 ni e2 where c: "CopyN_out w1 (sint (bodyLen r)) (avail c) = (w2, b2, ni, e2)"
        by (cases "CopyN_out w1 (sint (bodyLen r)) (avail c)")
      then have "w' = w2" "n = n1 + ni" "e = e2"
        using wr wa None Some by (simp_all add: Response_WriteTo_eq Let_def)
      moreover have "response_body r = take (nat (sint (bodyLen r))) (avail c)"
        using Some by (simp add: response_body_def)
      ultimately show ?thesis
        using pre n1 room1 CopyN_out_gen [OF c] Some unfolding rb by auto
    qed
  qed
qed

lemma response_fits_ok: "response_fits (kvs, r) \<Longrightarrow>
    rbody r = None \<or> sint (bodyLen r) \<le> int (length (avail (the (rbody r))))"
  by (auto simp: response_fits_def split: option.splits)

text \<open>The body is closed on every path out of \<open>WriteTo\<close>.\<close>

lemma Response_WriteTo_closes:
  "Response_WriteTo U kvs r w = (r', w', n, e) \<Longrightarrow> rbody r = Some c \<Longrightarrow>
     \<exists>c'. rbody r' = Some c' \<and> closed c'"
  by (auto simp: Response_WriteTo_eq Let_def close_body_def counter_Close_def
      split: prod.splits option.splits)

section \<open>The counter\<close>

text \<open>A sequence of reads: what was delivered.\<close>

fun counter_Reads :: "(nat \<times> nat) list \<Rightarrow> counter \<Rightarrow> counter \<times> bytes" where
  "counter_Reads [] c = (c, [])"
| "counter_Reads ((chunk, plen) # xs) c =
     (case counter_Read chunk plen c of
        (c', b, e) \<Rightarrow> (case counter_Reads xs c' of (c'', b') \<Rightarrow> (c'', b @ b')))"

lemma unat_diff_of_nat: "n \<le> unat (u :: u64) \<Longrightarrow> unat (u - of_nat n) = unat u - n"
  by (metis unat_sub_if' le_unat_uoi)

lemma counter_Read_props:
  assumes "counter_Read chunk plen c = (c', b, e)"
  shows "src c = b @ src c'" and "unat (Len c) = length b + unat (Len c')" and "length b \<le> plen"
    and "closed c' = closed c"
proof -
  have *: "unat (Len c - of_nat (min (min (if plen > unat (Len c) then unat (Len c) else plen) chunk)
      (length (src c)))) = unat (Len c) -
      min (min (if plen > unat (Len c) then unat (Len c) else plen) chunk) (length (src c))"
    by (rule unat_diff_of_nat) auto
  show "src c = b @ src c'" "unat (Len c) = length b + unat (Len c')" "length b \<le> plen"
    "closed c' = closed c"
    using assms * by (auto simp: counter_Read_def Let_def min_def split: if_splits)
qed

lemma counter_Reads_props:
  "counter_Reads xs c = (c', b) \<Longrightarrow>
     src c = b @ src c' \<and> unat (Len c) = length b + unat (Len c')"
proof (induction xs arbitrary: c b)
  case (Cons x xs)
  obtain chunk plen where x: "x = (chunk, plen)" by (cases x)
  obtain c1 b1 e1 where r: "counter_Read chunk plen c = (c1, b1, e1)"
    by (cases "counter_Read chunk plen c")
  obtain c2 b2 where rs: "counter_Reads xs c1 = (c2, b2)" by (cases "counter_Reads xs c1")
  show ?case
    using Cons.prems Cons.IH [of c1 b2] counter_Read_props [OF r] r rs x by (auto)
qed simp
section \<open>Properties\<close>

lemma hdr_out_raw [simp]: "hdr_out kvs (Some (newHeaders b)) = b"
  by (simp add: hdr_out_def header_bytes_def Headers_Encode_def)

lemma zeroResponse_rbody [simp]: "rbody zeroResponse = None"
  by (simp add: zeroResponse_def)

lemma out_is_prefix: "out w' = out w @ x \<Longrightarrow> drop (length (out w)) (out w') = x"
  by simp

lemma le_put_get_n:
  "length bs = n \<Longrightarrow> 8 * n \<le> LENGTH('a) \<Longrightarrow> le_put n (le_get bs :: 'a::len word) = bs"
  using le_put_get by blast

lemma put_u64_at: "i + 8 \<le> length h \<Longrightarrow> le_put 8 (u64_at i h) = take 8 (drop i h)"
  unfolding u64_at_def by (rule le_put_get_n) simp_all

lemma put_u16_at: "i + 2 \<le> length h \<Longrightarrow> le_put 2 (u16_at i h) = take 2 (drop i h)"
  unfolding u16_at_def by (rule le_put_get_n) simp_all

lemma drop_split: "n + k = m \<Longrightarrow> drop n h = take k (drop n h) @ drop m h"
  by (metis add.commute append_take_drop_id drop_drop)

lemma request_head_fields:
  assumes "length h = 21"
  shows "request_head (u64_at 0 h) (h ! 8) (u16_at 9 h) (u16_at 11 h) (u64_at 13 h) = h"
proof -
  have d8: "drop 8 h = h ! 8 # drop 9 h"
    using Cons_nth_drop_Suc [of 8 h] assms by simp
  have "h = take 8 h @ h ! 8 # take 2 (drop 9 h) @ take 2 (drop 11 h) @ take 8 (drop 13 h)"
    using append_take_drop_id [of 8 h] drop_split [of 9 2 11 h] drop_split [of 11 2 13 h] assms
    unfolding d8 by simp
  then show ?thesis
    using assms by (simp add: request_head_def put_u64_at put_u16_at)
qed

text \<open>Requests through a connection.  A request whose lengths fit their fields is written
  completely to a connection that takes all bytes, and the reader at the other end gets the same
  request (id, flags, path, header bytes, body) and exactly the bytes that follow it.\<close>

theorem Request_roundtrip:
  assumes "utils_contract U" and "request_fits maxBodyLen (kvs, r)" and "room w = None"
  shows "\<exists>r' w' n. Request_WriteTo U kvs r w = (r', w', n, None) \<and>
    RequestFromReader U maxBodyLen (drop (length (out w)) (out w') @ rest) =
      Inr (request_read (kvs, r), rest)"
proof -
  obtain r' w' n e where wr: "Request_WriteTo U kvs r w = (r', w', n, e)"
    by (cases "Request_WriteTo U kvs r w")
  note p = Request_WriteTo_prefix [OF assms(1) wr]
  have "e = None" using p(3) assms(3) by blast
  moreover have "out w' = out w @ request_frame (kvs, r)"
    using p(1,2) calculation by (simp add: request_frame_def)
  ultimately show ?thesis
    using wr RequestFromReader_bytes [OF assms(1,2), of rest] by (simp add: out_is_prefix)
qed

lemma Request_roundtrip_witness:
  "\<exists>r' w' n. Request_WriteTo plain_utils []
      (SetBodyBytes [7, 8] (SetStream True (NewRequest Background (lit ''/a''))) :: nat request)
      \<lparr>out = [1], room = None\<rparr> = (r', w', n, None) \<and>
    RequestFromReader plain_utils 10 (drop (length (out \<lparr>out = [1], room = None\<rparr>)) (out w') @ [9]) =
      Inr (request_read ([], SetBodyBytes [7, 8] (SetStream True (NewRequest Background (lit ''/a'')) :: nat request)), [9])"
  by (rule Request_roundtrip [OF plain.utils_contract_axioms])
    (simp_all add: request_fits_def hdr_out_def header_bytes_def Headers_Encode_def NewHeaders_def
      SetBodyBytes_def SetStream_def NewRequest_def body_out_def lit_def)

text \<open>Failing connections.  Whatever a connection does, the bytes of a request that have left
  are the beginning of its frame, the returned count is their number, and an error is returned
  exactly when some are missing.\<close>

theorem Request_WriteTo_partial:
  assumes "utils_contract U" and "Request_WriteTo U kvs r w = (r', w', n, e)"
  shows "out w' = out w @ take n (request_frame (kvs, r)) \<and>
    (e = None \<longleftrightarrow> n = length (request_frame (kvs, r)))"
  using Request_WriteTo_prefix [OF assms] by (simp add: request_frame_def)

lemma Request_WriteTo_partial_witness:
  "let r = (NewRequest Background (lit ''/ab'') :: nat request); w = \<lparr>out = [], room = Some 22\<rparr>;
       x = Request_WriteTo plain_utils [] r w
   in out (fst (snd x)) = [] @ take 22 (request_frame ([], r)) \<and>
      (snd (snd (snd x)) = None \<longleftrightarrow> 22 = length (request_frame ([], r)))"
proof -
  have x: "\<exists>r' w' e. Request_WriteTo plain_utils [] (NewRequest Background (lit ''/ab'') :: nat request)
      \<lparr>out = [], room = Some 22\<rparr> = (r', w', 22, e)"
    by (simp add: Request_WriteTo_eq conn_Write_def NewRequest_def hdr_out_def header_bytes_def
        Headers_Encode_def NewHeaders_def lit_def Let_def)
  then obtain r' w' e where
    e: "Request_WriteTo plain_utils [] (NewRequest Background (lit ''/ab'') :: nat request)
      \<lparr>out = [], room = Some 22\<rparr> = (r', w', 22, e)" by blast
  show ?thesis
    using Request_WriteTo_partial [OF plain.utils_contract_axioms e] e by (simp add: Let_def)
qed

text \<open>What \<open>RequestFromReader\<close> has read when it returns a request.\<close>

lemma RequestFromReader_parts:
  assumes "utils_contract U" and "RequestFromReader U maxBodyLen b = Inr (r :: 'v request, rest)"
  obtains h p body where "b = h @ p @ body @ rest" "length h = 21"
    "length p = unat (u16_at 9 h) + unat (u16_at 11 h)" "length body = nat (sint (u64_at 13 h))"
    "sint (u64_at 13 h) \<le> maxBodyLen"
    "r = \<lparr>rq_id = u64_at 0 h, rq_ctx = Background, RemoteAddr = [], Flags = h ! 8,
       Path = take (unat (u16_at 9 h)) p, rq_Headers = Some (newHeaders (drop (unat (u16_at 9 h)) p)),
       rq_Body = Some body\<rparr>"
proof -
  have len: "21 \<le> length b"
    using assms(2) by (auto simp: RequestFromReader_def ReadFull_def split: if_splits)
  obtain h t where ht: "b = h @ t" "length h = 21"
    by (rule that [of "take 21 b" "drop 21 b"]) (use len in simp_all)
  have le: "sint (u64_at 13 h) \<le> maxBodyLen"
    using assms(2) by (auto simp: RequestFromReader_def ht(1) ReadFull_append [OF ht(2)] Let_def split: if_splits)
  obtain p t2 where p: "ReadFull (unat (u16_at 9 h) + unat (u16_at 11 h)) t = Inr (p, t2)"
    using assms(2) le by (auto simp: RequestFromReader_def ht(1) ReadFull_append [OF ht(2)] Let_def split: sum.splits)
  obtain body e r3 where c: "CopyN (sint (u64_at 13 h)) t2 = (body, r3, e)"
    by (cases "CopyN (sint (u64_at 13 h)) t2")
  have "e = None \<and> r3 = rest \<and> r = \<lparr>rq_id = u64_at 0 h, rq_ctx = Background, RemoteAddr = [], Flags = h ! 8,
       Path = take (unat (u16_at 9 h)) p, rq_Headers = Some (newHeaders (drop (unat (u16_at 9 h)) p)),
       rq_Body = Some body\<rparr>"
    using assms(2) le p c by (auto simp: RequestFromReader_def ht(1) ReadFull_append [OF ht(2)] Let_def
        utils_CloneSlice [OF assms(1)] split: option.splits)
  then show ?thesis
    using that [OF _ ht(2) _ _ le] ht(1) p c CopyN_ok [of "sint (u64_at 13 h)" t2 body rest]
    by (auto simp: ReadFull_Inr)
qed

text \<open>C35: What the request reader accepts.  A request that was read is at most the configured body
  length long, and encoding it again gives exactly the bytes it was read from; the only frames
  for which it does not are those with a body length of \<open>2^63\<close> or more, which are taken for
  requests with an empty body whatever the limit is.\<close>

theorem RequestFromReader_sound:
  assumes "utils_contract U"
    and "RequestFromReader U maxBodyLen b = Inr (r :: 'v request, rest)"
  shows "(int (length (body_out (rq_Body r))) \<le> maxBodyLen \<and> b = request_frame ([], r) @ rest) \<or>
    (sint (u64_at 13 b) < 0 \<and> rq_Body r = Some [] \<and>
     drop 21 b = drop 21 (request_frame ([], r)) @ rest)"
proof -
  obtain h p body where t: "b = h @ p @ body @ rest" "length h = 21"
    "length p = unat (u16_at 9 h) + unat (u16_at 11 h)" "length body = nat (sint (u64_at 13 h))"
    "sint (u64_at 13 h) \<le> maxBodyLen"
    and r: "r = \<lparr>rq_id = u64_at 0 h, rq_ctx = Background, RemoteAddr = [], Flags = h ! 8,
       Path = take (unat (u16_at 9 h)) p, rq_Headers = Some (newHeaders (drop (unat (u16_at 9 h)) p)),
       rq_Body = Some body\<rparr>"
    by (rule RequestFromReader_parts [OF assms])
  let ?bl = "u64_at 13 h"
  have hd: "h = request_head (u64_at 0 h) (h ! 8) (u16_at 9 h) (u16_at 11 h) ?bl"
    using request_head_fields [OF t(2)] by simp
  have w: "(of_nat (min (length p) (unat (u16_at 9 h))) :: u16) = u16_at 9 h"
    "(of_nat (length p - unat (u16_at 9 h)) :: u16) = u16_at 11 h"
    using t(3) by simp_all
  have f: "request_frame ([], r) =
      request_head (u64_at 0 h) (h ! 8) (u16_at 9 h) (u16_at 11 h) (of_nat (length body)) @ p @ body"
    by (simp add: request_frame_def request_bytes_def r body_out_def w)
  show ?thesis
  proof (cases "sint ?bl < 0")
    case True
    then have "body = []" using t(4) by simp
    then show ?thesis using True f t by (simp add: r u64_at_def)
  next
    case False
    then have "int (length body) = sint ?bl" using t(4) by simp
    then have "(of_int (int (length body)) :: u64) = ?bl" by (simp only: of_int_sint scast_id)
    then have "(of_nat (length body) :: u64) = ?bl" by simp
    then show ?thesis using False f t hd by (simp add: r body_out_def)
  qed
qed

lemma RequestFromReader_sound_witness:
  "let r = request_read ([], NewRequest Background (lit ''/a'') :: nat request);
       b = request_frame ([], NewRequest Background (lit ''/a'') :: nat request) @ [5]
   in (int (length (body_out (rq_Body r))) \<le> 10 \<and> b = request_frame ([], r) @ [5]) \<or>
      (sint (u64_at 13 b) < 0 \<and> rq_Body r = Some [] \<and>
       drop 21 b = drop 21 (request_frame ([], r)) @ [5])"
proof -
  have "request_fits 10 ([], NewRequest Background (lit ''/a'') :: nat request)"
    by (simp add: request_fits_def hdr_out_def header_bytes_def Headers_Encode_def NewHeaders_def
        NewRequest_def body_out_def lit_def)
  note run = RequestFromReader_bytes [OF plain.utils_contract_axioms this, of "[5]"]
  show ?thesis
    unfolding Let_def by (rule RequestFromReader_sound [OF plain.utils_contract_axioms run])
qed

fun write_requests :: "utils \<Rightarrow> (kvlist \<times> 'v request) list \<Rightarrow> conn_out \<Rightarrow> conn_out" where
  "write_requests U [] w = w"
| "write_requests U ((kvs, r) # rs) w =
     (case Request_WriteTo U kvs r w of (r', w', n, e) \<Rightarrow> write_requests U rs w')"

lemma write_requests_out:
  assumes "utils_contract U"
  shows "room w = None \<Longrightarrow>
    out (write_requests U rs w) = out w @ concat (map request_frame rs)"
proof (induction rs arbitrary: w)
  case (Cons x rs)
  obtain kvs r where x: "x = (kvs, r)" by (cases x)
  obtain r' w' n e where wr: "Request_WriteTo U kvs r w = (r', w', n, e)"
    by (cases "Request_WriteTo U kvs r w")
  have "out w' = out w @ request_frame (kvs, r)" "room w' = None"
    using Request_WriteTo_prefix [OF assms wr] Cons.prems by (auto simp: request_frame_def)
  with Cons.IH [of w'] show ?case by (simp add: x wr)
qed simp

text \<open>Pipelined requests.  Requests written one after the other to a connection that takes all
  bytes are read back one by one, in order, and nothing of what follows is consumed.\<close>

theorem write_requests_read_back:
  assumes "list_all (request_fits maxBodyLen) rs"
  shows "read_frames (RequestFromReader plain_utils maxBodyLen) (length rs)
      (out (write_requests plain_utils rs \<lparr>out = [], room = None\<rparr>) @ rest) =
    Inr (map request_read rs, rest)"
  using requests.read_sequence [OF assms, of rest]
  by (simp add: write_requests_out [OF plain.utils_contract_axioms])

lemma write_requests_read_back_witness:
  "let rs = [([], NewRequest Background (lit ''/a'')), ([], NewRequest Background (lit ''/b'') :: nat request)]
   in read_frames (RequestFromReader plain_utils 10) (length rs)
      (out (write_requests plain_utils rs \<lparr>out = [], room = None\<rparr>) @ [5]) =
    Inr (map request_read rs, [5])"
  unfolding Let_def
  by (rule write_requests_read_back)
    (simp add: request_fits_def hdr_out_def header_bytes_def Headers_Encode_def NewHeaders_def
      NewRequest_def body_out_def lit_def)

text \<open>C36: Responses through a connection.  A response with a body of the announced length is
  written completely to a connection that takes all bytes, its body is closed, and \<open>ReadFrom\<close> at
  the other end fills in the same id, flags, status, header bytes and body, and takes exactly
  the frame off the input.\<close>

theorem Response_roundtrip:
  assumes "utils_contract U" and "response_fits (kvs, r)" and "room w = None"
  shows "\<exists>r' w' n. Response_WriteTo U kvs r w = (r', w', n, None) \<and>
    pred_option closed (rbody r') \<and>
    Response_ReadFrom r0 (drop (length (out w)) (out w') @ rest) =
      (response_read r0 (kvs, r), rest, int n, None)"
proof -
  obtain r' w' n e where wr: "Response_WriteTo U kvs r w = (r', w', n, e)"
    by (cases "Response_WriteTo U kvs r w")
  note p = Response_WriteTo_prefix [OF assms(1) wr]
  have e: "e = None" and o: "out w' = out w @ response_frame (kvs, r)" "n = length (response_frame (kvs, r))"
    using p assms(3) response_fits_ok [OF assms(2)] by (simp_all add: response_frame_def)
  have c: "pred_option closed (rbody r')"
    using wr by (cases "rbody r") (auto simp: Response_WriteTo_eq Let_def close_body_def
        counter_Close_def split: prod.splits option.splits)
  show ?thesis
    using wr e o c Response_ReadFrom_bytes [OF assms(2), of r0 rest] by (simp add: out_is_prefix)
qed

lemma Response_roundtrip_witness:
  "\<exists>r' w' n. Response_WriteTo plain_utils []
      (SetStatusBodyBytes StatusOK [1, 2, 3] (newResponse 7 0 None) :: (nat, nat) response)
      \<lparr>out = [], room = None\<rparr> = (r', w', n, None) \<and> pred_option closed (rbody r') \<and>
    Response_ReadFrom (zeroResponse :: (nat, nat) response)
       (drop (length (out \<lparr>out = [], room = None\<rparr>)) (out w') @ [9]) =
      (response_read zeroResponse ([],
         SetStatusBodyBytes StatusOK [1, 2, 3] (newResponse 7 0 None) :: (nat, nat) response), [9], int n, None)"
  by (rule Response_roundtrip [OF plain.utils_contract_axioms])
    (simp_all add: response_fits_def hdr_out_def header_bytes_def Headers_Encode_def newHeaders_def
      SetStatusBodyBytes_def Response_SetBodyBytes_def SetBodyReader_def SetBodyReadCloser_def
      newResponse_def FromReader_def avail_def)

text \<open>A response whose body reader ends early.  The frame's head has left with the announced
  length by then, so the peer is left waiting for the missing bytes: \<open>WriteTo\<close> reports the error,
  and what it wrote ends inside the body.\<close>

theorem Response_short_body:
  assumes "utils_contract U" and "rbody r = Some c" and "int (length (avail c)) < sint (bodyLen r)"
    and "room w = None" and "Response_WriteTo U kvs r w = (r', w', n, e)"
  shows "e \<noteq> None \<and> out w' = out w @
    response_head (reqId r) (rflags r) (StatusCode r) (of_nat (length (hdr_out kvs (rHeaders r)))) (bodyLen r) @
    hdr_out kvs (rHeaders r) @ avail c"
  using Response_WriteTo_prefix [OF assms(1,5)] assms(2-4) by (auto simp: response_bytes_def)

lemma Response_short_body_witness:
  "let r = SetBodyReader [1] 2 (newResponse 7 0 None) :: (nat, nat) response;
       x = Response_WriteTo plain_utils [] r \<lparr>out = [], room = None\<rparr>
   in snd (snd (snd x)) \<noteq> None \<and> out (fst (snd x)) = out \<lparr>out = [], room = None\<rparr> @
    response_head (reqId r) (rflags r) (StatusCode r) (of_nat (length (hdr_out [] (rHeaders r)))) (bodyLen r) @
    hdr_out [] (rHeaders r) @ avail (FromReader [1] 2)"
proof -
  let ?r = "SetBodyReader [1] 2 (newResponse 7 0 None) :: (nat, nat) response"
  let ?X = "Response_WriteTo plain_utils [] ?r \<lparr>out = [], room = None\<rparr>"
  have "rbody ?r = Some (FromReader [1] 2)" "int (length (avail (FromReader [1] 2))) < sint (bodyLen ?r)"
    by (simp_all add: SetBodyReader_def SetBodyReadCloser_def FromReader_def avail_def)
  then show ?thesis
    unfolding Let_def
    by (rule Response_short_body [OF plain.utils_contract_axioms, where r' = "fst ?X" and n = "fst (snd (snd ?X))"])
      simp_all
qed

text \<open>The counted body reader.  However a body is read, in whatever pieces, what was delivered
  is the beginning of the wrapped reader and never more than the announced length: delivered and
  remaining count add up to it.\<close>

theorem counter_Reads_bound:
  "let (c', b) = counter_Reads xs (FromReader r n)
   in r = b @ src c' \<and> length b + unat (Len c') = unat n"
  using counter_Reads_props [of xs "FromReader r n"]
  by (cases "counter_Reads xs (FromReader r n)") (simp add: FromReader_def)

text \<open>\<open>Request.Clone\<close> loses the body.  The frame of a clone is the frame of the request with id 0
  and no body, whatever the body was.\<close>

theorem Clone_frame:
  assumes "utils_contract U"
  shows "request_frame (kvs, Request_Clone U c r) = request_frame (kvs, r\<lparr>rq_id := 0, rq_Body := None\<rparr>)"
  using assms
  by (cases "rq_Headers r")
    (simp_all add: request_frame_def request_bytes_def Request_Clone_def hdr_out_def header_bytes_def
      Headers_Encode_def Headers_Clone_def utils_CloneSlice body_out_def split: sum.split)

lemma Clone_frame_witness:
  "request_frame ([], Request_Clone plain_utils Background (SetBodyBytes [1] (NewRequest Background []) :: nat request))
   = request_frame ([], (SetBodyBytes [1] (NewRequest Background []) :: nat request)\<lparr>rq_id := 0, rq_Body := None\<rparr>)"
  by (rule Clone_frame [OF plain.utils_contract_axioms])

text \<open>Status codes as HTTP statuses.  Success codes (below 128) become 2xx, client errors
  4xx, server errors (192 and up) 5xx; the bad-version code is the one client error that becomes
  a server error.\<close>

theorem StatusToHTTP_class:
  "StatusToHTTP s div 100 =
     (if s < 128 then 2 else if s < 192 \<and> s \<noteq> StatusBadVersion then 4 else 5)"
proof (cases "s \<in> {0, 128, 129, 130, 132, 133, 160, 161, 192}")
  case True
  then show ?thesis
    by (elim insertE emptyE) (simp_all add: StatusToHTTP_def status_defs)
next
  case False
  then have "StatusToHTTP s = (if s < 128 then 200 else if s < 192 then 400 else 500)"
    unfolding StatusToHTTP_def status_defs by (simp only: insert_iff de_Morgan_disj simp_thms if_False)
  then show ?thesis using False by (simp add: status_defs)
qed

text \<open>The errors the server answers with.  \<open>writeRespMsg\<close> sends a frame that the client reads as
  a response with the request's id, that status and the message as its body.\<close>

theorem writeRespMsg_read:
  assumes "utils_contract U" and "room w = None" and "length msg < 2 ^ 63"
  shows "\<exists>w' n resp. writeRespMsg U i st msg w = (w', n, None) \<and>
    Response_ReadFrom (zeroResponse :: ('v, 's) response)
      (drop (length (out w)) (out w') @ rest) = (resp, rest, int n, None) \<and>
    reqId resp = i \<and> StatusCode resp = st \<and> rflags resp = 0 \<and> snd (BodyBytes resp) = msg"
proof -
  let ?r = "Response_SetBodyBytes msg ((zeroResponse :: (unit, unit) response)\<lparr>reqId := i, StatusCode := st\<rparr>)"
  have r: "reqId ?r = i" "StatusCode ?r = st" "rflags ?r = 0" "rHeaders ?r = None"
    "bodyLen ?r = of_nat (length msg)" "rbody ?r = Some (FromReader msg (of_nat (length msg)))"
    by (simp_all add: Response_SetBodyBytes_def SetBodyReader_def SetBodyReadCloser_def zeroResponse_def Let_def)
  have av: "avail (FromReader msg (of_nat (length msg))) = msg"
    using assms(3) by (simp add: avail_def FromReader_def)
  have fits: "response_fits ([], ?r)"
    using assms(3) by (simp add: response_fits_def r av hdr_out_def sint64_of_nat)
  have body: "response_body ?r = msg"
    using assms(3) by (simp add: response_body_def r av sint64_of_nat)
  obtain r' w' n e where wr: "Response_WriteTo U [] ?r w = (r', w', n, e)"
    by (cases "Response_WriteTo U [] ?r w")
  note p = Response_WriteTo_prefix [OF assms(1) wr]
  have e: "e = None" and o: "out w' = out w @ response_frame ([], ?r)" "n = length (response_frame ([], ?r))"
    using p assms(2) response_fits_ok [OF fits] by (simp_all add: response_frame_def)
  have "unat (bodyLen ?r) = length msg"
    unfolding r by (rule unat64_of_nat) (rule assms(3))
  then have "bodyLen ?r = 0 \<longleftrightarrow> msg = []"
    by (metis length_0_conv unat_0 unat_eq_zero)
  then have "snd (BodyBytes (response_read (zeroResponse :: ('v, 's) response) ([], ?r))) = msg"
    using av zeroResponse_rbody by (simp add: response_read_def BodyBytes_def body r)
  moreover have "writeRespMsg U i st msg w = (w', n, None)"
    using wr e by (simp add: writeRespMsg_def)
  moreover have "Response_ReadFrom zeroResponse (drop (length (out w)) (out w') @ rest) =
      (response_read (zeroResponse :: ('v, 's) response) ([], ?r), rest, int n, None)"
    unfolding out_is_prefix [OF o(1)] o(2) by (rule Response_ReadFrom_bytes [OF fits])
  moreover have "reqId (response_read (zeroResponse :: ('v, 's) response) ([], ?r)) = i"
    "StatusCode (response_read (zeroResponse :: ('v, 's) response) ([], ?r)) = st"
    "rflags (response_read (zeroResponse :: ('v, 's) response) ([], ?r)) = 0"
    using r by (simp_all add: response_read_def)
  ultimately show ?thesis by blast
qed

lemma writeRespMsg_read_witness:
  "\<exists>w' n resp. writeRespMsg plain_utils 7 StatusNotFound [4, 5] \<lparr>out = [1], room = None\<rparr> = (w', n, None) \<and>
    Response_ReadFrom (zeroResponse :: (nat, nat) response)
      (drop (length (out \<lparr>out = [1], room = None\<rparr>)) (out w') @ [9]) = (resp, [9], int n, None) \<and>
    reqId resp = 7 \<and> StatusCode resp = StatusNotFound \<and> rflags resp = 0 \<and> snd (BodyBytes resp) = [4, 5]"
  by (rule writeRespMsg_read [OF plain.utils_contract_axioms]) simp_all
end
