(* ===== verification/Stream.thy ===== *)
theory Stream
  imports ReqResp "HOL-Library.Multiset"
begin

text \<open>
  \<open>go/stream.go\<close>: messages and streams.

  \<^item> \<open>message\<close> is \<open>Message\<close>, with its 17-byte frame head; \<open>stream\<close> is \<open>Stream\<close>: the buffered
    channel \<open>msgChan\<close> (capacity 50), the overflow list \<open>msgBuffer\<close>, the receive deadline, the
    closed flag and the stored close error.  The request is represented by its id, the
    connection's map of streams by the set of registered ids.
  \<^item> \<open>addMsg\<close> is the reader loop's side, \<open>Recv\<close> the user's.  \<open>moveMsg\<close> sends on the channel while
    it holds the buffer's mutex, so it can block for ever; sending on a closed channel panics.
  \<^item> \<open>closeWithMessage\<close> is told which locks its caller holds, because \<open>serverConn.Close\<close> and
    \<open>Client.closeWithErr\<close> call it with locks that it takes again.

  The locale \<open>fifo\<close> is the contract of a message queue; one thread at a time, \<open>addMsg\<close> and \<open>Recv\<close>
  meet it.  \<open>stream_step\<close> is the interleaving of the reader loop with \<open>n\<close> receivers.
\<close>

section \<open>Messages\<close>

record message =
  m_id :: u64
  m_flags :: byte
  m_Body :: "bytes option"

definition zeroMessage :: message where
  "zeroMessage = \<lparr>m_id = 0, m_flags = 0, m_Body = None\<rparr>"

definition NewMessage :: "bytes \<Rightarrow> message" where
  "NewMessage body = \<lparr>m_id = 0, m_flags = 0, m_Body = Some body\<rparr>"

definition Message_BodyBytes :: "message \<Rightarrow> bytes" where
  "Message_BodyBytes msg = (case m_Body msg of None \<Rightarrow> [] | Some b \<Rightarrow> b)"

definition Message_SetBodyBytes :: "bytes \<Rightarrow> message \<Rightarrow> message" where
  "Message_SetBodyBytes b msg = msg\<lparr>m_Body := Some b\<rparr>"

definition hasMsgFlagClose :: "byte \<Rightarrow> bool" where
  "hasMsgFlagClose flags \<longleftrightarrow> flags AND MsgFlagClose \<noteq> 0"

definition Message_WriteTo :: "utils \<Rightarrow> message \<Rightarrow> conn_out \<Rightarrow> conn_out \<times> nat \<times> ioerr option" where
  "Message_WriteTo U msg w =
     (let flags = m_flags msg OR FlagStreamMsg;
          buf = (put_at 0 (le_put 8 (m_id msg)) (replicate 17 0))[8 := flags]
      in case m_Body msg of
           Some b \<Rightarrow>
             let l = length b;
                 buf = put_at 9 (le_put 8 (of_nat l :: u64)) buf
             in (case WriteAll U w buf of
                   (w', n, Some e) \<Rightarrow> (w', n, Some e)
                 | (w', n, None) \<Rightarrow>
                     (case CopyN_out w' (int l) b of (w'', b', nw, e) \<Rightarrow> (w'', n + nw, e)))
         | None \<Rightarrow> WriteAll U w buf)"

section \<open>Streams\<close>

text \<open>\<open>StreamClosedError\<close> and the other errors of a stream's methods.\<close>

record closed_error =
  sce_Message :: message
  HasMessage :: bool
  ClientClosed :: bool

definition no_close_info :: closed_error where
  "no_close_info = \<lparr>sce_Message = zeroMessage, HasMessage = False, ClientClosed = False\<rparr>"

datatype stream_error = StreamClosed closed_error | ErrTimedOut | StreamWrite ioerr

definition StreamClosedError_Error :: "closed_error \<Rightarrow> gostring" where
  "StreamClosedError_Error sce =
     (let l = (case m_Body (sce_Message sce) of None \<Rightarrow> 0 | Some b \<Rightarrow> length b)
      in lit ''StreamClosedError (message len: '' @ dec_nat l @ lit '')'')"

definition IsStreamClosedError :: "stream_error \<Rightarrow> bool" where
  "IsStreamClosedError err = (case err of StreamClosed sce \<Rightarrow> True | _ \<Rightarrow> False)"

record stream =
  s_reqId :: u64
  msgChan :: "message list"
  msgBuffer :: "message list"
  chan_closed :: bool
  deadline :: "int option"
  isClosed :: bool
  closeErr :: "closed_error option"

definition chan_cap :: nat where "chan_cap = 50"

definition newStream :: "u64 \<Rightarrow> stream" where
  "newStream i = \<lparr>s_reqId = i, msgChan = [], msgBuffer = [], chan_closed = False, deadline = None,
     isClosed = False, closeErr = None\<rparr>"

definition GetClosedErr :: "stream \<Rightarrow> closed_error option" where
  "GetClosedErr s =
     (if \<not> isClosed s then None
      else case closeErr s of Some sce \<Rightarrow> Some sce | None \<Rightarrow> Some no_close_info)"

definition closed_result :: "stream \<Rightarrow> stream_error option" where
  "closed_result s = map_option StreamClosed (GetClosedErr s)"

text \<open>
  The loop of \<open>addMsg\<close> over the overflow list: \<open>rest\<close> starts at the element \<open>e\<close>, \<open>kept\<close> is what
  the loop has passed and left in the list.  After a send, the body moves \<open>e\<close> to the next element
  before it removes the sent one, and the loop's own \<open>e = e.Next()\<close> moves it once more; when
  the sent element was the last, that is a call on a nil element.
\<close>

fun add_loop :: "message list \<Rightarrow> message list \<Rightarrow> message list \<Rightarrow> message \<Rightarrow>
    (message list \<times> message list) outcome" where
  "add_loop ch kept [] msg =
     Returns (if length ch < chan_cap then (ch @ [msg], kept) else (ch, kept @ [msg]))"
| "add_loop ch kept [x] msg =
     (if length ch < chan_cap then Panics NilDeref else Returns (ch, kept @ [x, msg]))"
| "add_loop ch kept (x # y # r) msg =
     (if length ch < chan_cap then add_loop (ch @ [x]) (kept @ [y]) r msg
      else Returns (ch, kept @ x # y # r @ [msg]))"

text \<open>The part of \<open>addMsg\<close> under the mutex; a send on a closed channel panics, full or not.\<close>

definition add_locked :: "message \<Rightarrow> stream \<Rightarrow> stream outcome" where
  "add_locked msg s =
     (if chan_closed s then Panics SendClosed
      else obind (add_loop (msgChan s) [] (msgBuffer s) msg)
        (\<lambda>(c, b). Returns (s\<lparr>msgChan := c, msgBuffer := b\<rparr>)))"

definition addMsg :: "message \<Rightarrow> stream \<Rightarrow> (stream \<times> stream_error option) outcome" where
  "addMsg msg s =
     (if isClosed s then Returns (s, closed_result s)
      else obind (add_locked msg s) (\<lambda>s'. Returns (s', None)))"

text \<open>\<open>send\<close> locks the connection's writer: \<open>lw_held\<close> when the caller already holds it.\<close>

definition send_msg :: "utils \<Rightarrow> bool \<Rightarrow> message \<Rightarrow> stream \<Rightarrow> conn_out \<Rightarrow>
    (conn_out \<times> ioerr option) outcome" where
  "send_msg U lw_held msg s w =
     (if lw_held \<and> \<not> reentrant U then Blocks
      else case Message_WriteTo U (msg\<lparr>m_id := s_reqId s\<rparr>) w of (w', n, e) \<Rightarrow> Returns (w', e))"

definition Stream_Send :: "utils \<Rightarrow> bool \<Rightarrow> message \<Rightarrow> stream \<Rightarrow> conn_out \<Rightarrow>
    (conn_out \<times> stream_error option) outcome" where
  "Stream_Send U lw_held msg s w =
     (if isClosed s then Returns (w, closed_result s)
      else obind (send_msg U lw_held msg s w) (\<lambda>(w', e). Returns (w', map_option StreamWrite e)))"

definition moveMsg :: "stream \<Rightarrow> stream outcome" where
  "moveMsg s =
     (case msgBuffer s of
        [] \<Rightarrow> Returns s
      | e # r \<Rightarrow>
          if chan_closed s then Panics SendClosed
          else if length (msgChan s) < chan_cap
               then Returns (s\<lparr>msgChan := msgChan s @ [e], msgBuffer := r\<rparr>)
               else Blocks)"

text \<open>
  A receive from the channel, \<open>msg, ok = <-s.msgChan\<close>.  \<open>late\<close> is the message handed over while the
  receiver waits on an empty open channel, if there is one; \<open>None\<close> as result is waiting for ever.
\<close>

definition chan_recv :: "message option \<Rightarrow> stream \<Rightarrow> ((message \<times> bool) \<times> stream) option" where
  "chan_recv late s =
     (case msgChan s of
        m # c \<Rightarrow> Some ((m, True), s\<lparr>msgChan := c\<rparr>)
      | [] \<Rightarrow>
          if chan_closed s then Some ((zeroMessage, False), s)
          else map_option (\<lambda>m. ((m, True), s)) late)"

definition after_recv :: "(message \<times> bool) \<times> stream \<Rightarrow>
    (stream \<times> (stream_error option + message)) outcome" where
  "after_recv = (\<lambda>((m, ok), s).
     if \<not> ok then Returns (s, Inl (closed_result s))
     else obind (moveMsg s) (\<lambda>s'. Returns (s', Inr m)))"

definition Recv :: "int \<Rightarrow> message option \<Rightarrow> stream \<Rightarrow>
    (stream \<times> (stream_error option + message)) outcome" where
  "Recv now late s =
     (case deadline s of
        None \<Rightarrow>
          (case chan_recv late s of None \<Rightarrow> Blocks | Some x \<Rightarrow> after_recv x)
      | Some t \<Rightarrow>
          if t - now \<le> 0 then Returns (s, Inl (Some ErrTimedOut))
          else (case chan_recv late s of
                  None \<Rightarrow> Returns (s, Inl (Some ErrTimedOut))
                | Some x \<Rightarrow> after_recv x))"

definition RecvTimeout :: "message option \<Rightarrow> stream \<Rightarrow>
    (stream \<times> (stream_error option + message)) outcome" where
  "RecvTimeout late s =
     (case chan_recv late s of
        None \<Rightarrow> Returns (s, Inl (Some ErrTimedOut))
      | Some x \<Rightarrow> after_recv x)"

definition SetRecvDeadline :: "int option \<Rightarrow> stream \<Rightarrow> stream" where
  "SetRecvDeadline t s = s\<lparr>deadline := t\<rparr>"

text \<open>
  \<open>closeWithMessage\<close>: the stream, the ids registered on the connection, the connection and the
  error.  \<open>mtx_held\<close> and \<open>lw_held\<close> say which locks the calling goroutine holds.
\<close>

definition closeWithMessage :: "utils \<Rightarrow> bool \<Rightarrow> bool \<Rightarrow> bool \<Rightarrow> message \<Rightarrow> message \<Rightarrow> stream \<Rightarrow>
    u64 set \<Rightarrow> conn_out \<Rightarrow> (stream \<times> u64 set \<times> conn_out \<times> stream_error option) outcome" where
  "closeWithMessage U mtx_held lw_held snd_it msg msgRecvd s ids w =
     (if isClosed s then Returns (s, ids, w, closed_result s)
      else
        let s = s\<lparr>isClosed := True\<rparr>
        in if chan_closed s then Panics CloseClosed
           else
             let s = s\<lparr>chan_closed := True\<rparr>
             in if mtx_held \<and> \<not> reentrant U then Blocks
                else
                  let ids = ids - {s_reqId s}
                  in if \<not> snd_it then Returns (s, ids, w, None)
                     else obind (send_msg U lw_held (msg\<lparr>m_flags := MsgFlagClose\<rparr>) s w)
                       (\<lambda>(w', e).
                          Returns (s\<lparr>closeErr := (case closeErr s of
                                       Some x \<Rightarrow> Some x
                                     | None \<Rightarrow> Some \<lparr>sce_Message = msgRecvd, HasMessage = \<not> snd_it,
                                                    ClientClosed = \<not> snd_it\<rparr>)\<rparr>,
                                   ids, w', map_option StreamWrite e)))"

definition Stream_Close :: "utils \<Rightarrow> bool \<Rightarrow> bool \<Rightarrow> stream \<Rightarrow> u64 set \<Rightarrow> conn_out \<Rightarrow>
    (stream \<times> u64 set \<times> conn_out \<times> stream_error option) outcome" where
  "Stream_Close U mh lh s ids w = closeWithMessage U mh lh True zeroMessage zeroMessage s ids w"

definition CloseWithMessage :: "utils \<Rightarrow> bool \<Rightarrow> bool \<Rightarrow> message \<Rightarrow> stream \<Rightarrow> u64 set \<Rightarrow> conn_out \<Rightarrow>
    (stream \<times> u64 set \<times> conn_out \<times> stream_error option) outcome" where
  "CloseWithMessage U mh lh msg s ids w = closeWithMessage U mh lh True msg zeroMessage s ids w"

definition close_stream :: "utils \<Rightarrow> bool \<Rightarrow> bool \<Rightarrow> bool \<Rightarrow> stream \<Rightarrow> u64 set \<Rightarrow> conn_out \<Rightarrow>
    (stream \<times> u64 set \<times> conn_out \<times> stream_error option) outcome" where
  "close_stream U mh lh snd_it s ids w =
     closeWithMessage U mh lh snd_it zeroMessage zeroMessage s ids w"

definition closeWithMsgRecvd :: "utils \<Rightarrow> bool \<Rightarrow> bool \<Rightarrow> message \<Rightarrow> stream \<Rightarrow> u64 set \<Rightarrow> conn_out \<Rightarrow>
    (stream \<times> u64 set \<times> conn_out \<times> stream_error option) outcome" where
  "closeWithMsgRecvd U mh lh msg s ids w = closeWithMessage U mh lh False zeroMessage msg s ids w"

section \<open>Message frames\<close>

definition message_head :: "u64 \<Rightarrow> byte \<Rightarrow> u64 \<Rightarrow> bytes" where
  "message_head i fl l = le_put 8 i @ [fl] @ le_put 8 l"

definition message_frame :: "message \<Rightarrow> bytes" where
  "message_frame msg =
     message_head (m_id msg) (m_flags msg OR FlagStreamMsg) (of_nat (length (Message_BodyBytes msg))) @
     Message_BodyBytes msg"

lemma length_message_head [simp]: "length (message_head i fl l) = 17"
  by (simp add: message_head_def)

lemma zero17: "replicate 17 (0 :: byte) = replicate 8 0 @ [0] @ replicate 8 0"
  by (simp add: numeral_eq_Suc)

lemma message_head_zero: "(put_at 0 (le_put 8 i) (replicate 17 0))[8 := fl] = message_head i fl 0"
proof -
  have z: "le_put 8 (0 :: u64) = replicate 8 0"
    by (simp add: numeral_eq_Suc)
  show ?thesis
    using update_at [of "le_put 8 i" 8 0]
    by (simp add: zero17 put_at_start message_head_def z del: replicate.simps)
qed

lemma message_head_write:
  "put_at 9 (le_put 8 l) (message_head i fl l0) = message_head i fl l"
  using put_at_end [of "le_put 8 i @ [fl]" 9 "le_put 8 l0" "le_put 8 l"]
  by (simp add: message_head_def)

text \<open>What has left after \<open>WriteTo\<close> is the beginning of the frame.\<close>

lemma Message_WriteTo_prefix:
  assumes U: "utils_contract U" and wr: "Message_WriteTo U msg w = (w', n, e)"
  shows "out w' = out w @ take n (message_frame msg) \<and> n \<le> length (message_frame msg) \<and>
    (e = None \<longleftrightarrow> n = length (message_frame msg)) \<and>
    (room w = None \<longrightarrow> e = None \<and> room w' = None)"
proof (cases "m_Body msg")
  case None
  let ?buf = "message_head (m_id msg) (m_flags msg OR FlagStreamMsg) 0"
  have wa: "WriteAll U w ?buf = (w', n, e)"
    using wr None by (simp add: Message_WriteTo_def message_head_zero Let_def)
  have f: "message_frame msg = ?buf"
    using None by (simp add: message_frame_def Message_BodyBytes_def)
  show ?thesis
    using utils_WriteAll(1,2,3) [OF U, of w ?buf w' n] utils_WriteAll(4) [OF U, of w ?buf] wa
    by (cases e) (auto simp: f)
next
  case (Some b)
  let ?buf = "message_head (m_id msg) (m_flags msg OR FlagStreamMsg) (of_nat (length b))"
  have f: "message_frame msg = ?buf @ b"
    using Some by (simp add: message_frame_def Message_BodyBytes_def)
  obtain w1 n1 e1 where wa: "WriteAll U w ?buf = (w1, n1, e1)"
    by (cases "WriteAll U w ?buf")
  have room1: "room w = None \<Longrightarrow> e1 = None \<and> room w1 = None"
    using utils_WriteAll(4) [OF U, of w ?buf] wa by auto
  note pre = utils_WriteAll(1) [OF U wa]
  show ?thesis
  proof (cases e1)
    case ee: (Some x)
    then have "w' = w1 \<and> n = n1 \<and> e = Some x"
      using wr wa Some by (simp add: Message_WriteTo_def message_head_zero message_head_write Let_def)
    then show ?thesis
      using pre room1 ee utils_WriteAll(3) [OF U, of w ?buf w1 n1 x] wa by (auto simp: f)
  next
    case None
    obtain w2 b2 k e2 where c: "CopyN_out w1 (int (length b)) b = (w2, b2, k, e2)"
      by (cases "CopyN_out w1 (int (length b)) b")
    have "w' = w2 \<and> n = n1 + k \<and> e = e2"
      using wr wa Some None c
      by (simp add: Message_WriteTo_def message_head_zero message_head_write Let_def)
    moreover have "n1 = length ?buf" using utils_WriteAll(2) [OF U, of w ?buf] wa None by blast
    ultimately show ?thesis
      using pre room1 CopyN_out_prefix [OF refl c] by (auto simp: f)
  qed
qed

section \<open>A queue\<close>

datatype 'm queue_op = Put 'm | Get

fun queue_run :: "('m \<Rightarrow> 'q \<Rightarrow> ('q \<times> 'x option) outcome) \<Rightarrow> ('q \<Rightarrow> ('q \<times> ('e + 'm)) outcome) \<Rightarrow>
    'm queue_op list \<Rightarrow> 'q \<Rightarrow> ('q \<times> ('e + 'm) list) outcome" where
  "queue_run add get [] q = Returns (q, [])"
| "queue_run add get (Put m # ops) q = obind (add m q) (\<lambda>(q', e). queue_run add get ops q')"
| "queue_run add get (Get # ops) q =
     obind (get q) (\<lambda>(q', r). obind (queue_run add get ops q') (\<lambda>(q'', rs). Returns (q'', r # rs)))"

fun puts :: "'m queue_op list \<Rightarrow> 'm list" where
  "puts [] = []"
| "puts (Put m # ops) = m # puts ops"
| "puts (Get # ops) = puts ops"

text \<open>No \<open>Get\<close> finds the queue empty.\<close>

fun served :: "nat \<Rightarrow> 'm queue_op list \<Rightarrow> bool" where
  "served n [] = True"
| "served n (Put m # ops) = served (Suc n) ops"
| "served n (Get # ops) = (n > 0 \<and> served (n - 1) ops)"

locale fifo =
  fixes add :: "'m \<Rightarrow> 'q \<Rightarrow> ('q \<times> 'x option) outcome"
    and get :: "'q \<Rightarrow> ('q \<times> ('e + 'm)) outcome"
    and contents :: "'q \<Rightarrow> 'm list"
    and ok :: "'q \<Rightarrow> bool"
  assumes add_ok: "ok q \<Longrightarrow> \<exists>q'. add m q = Returns (q', None) \<and> ok q' \<and>
      contents q' = contents q @ [m]"
    and get_ok: "ok q \<Longrightarrow> contents q = m # ms \<Longrightarrow> \<exists>q'. get q = Returns (q', Inr m) \<and> ok q' \<and>
      contents q' = ms"
    and get_empty: "ok q \<Longrightarrow> contents q = [] \<Longrightarrow> get q = Blocks"
begin

lemma run_fifo:
  "ok q \<Longrightarrow> served (length (contents q)) ops \<Longrightarrow>
     \<exists>q' got. queue_run add get ops q = Returns (q', map Inr got) \<and> ok q' \<and>
       contents q @ puts ops = got @ contents q'"
proof (induction ops arbitrary: q)
  case Nil
  then show ?case by (intro exI [of _ q] exI [of _ "[]"]) simp
next
  case (Cons op ops)
  show ?case
  proof (cases op)
    case (Put m)
    obtain q1 where q1: "add m q = Returns (q1, None)" "ok q1" "contents q1 = contents q @ [m]"
      using add_ok [OF Cons.prems(1)] by blast
    then have "served (length (contents q1)) ops" using Cons.prems(2) Put by simp
    from Cons.IH [OF q1(2) this] q1 Put show ?thesis by auto
  next
    case Get
    then obtain m ms where c: "contents q = m # ms"
      using Cons.prems(2) by (cases "contents q") auto
    obtain q1 where q1: "get q = Returns (q1, Inr m)" "ok q1" "contents q1 = ms"
      using get_ok [OF Cons.prems(1) c] by blast
    then have "served (length (contents q1)) ops" using Cons.prems(2) Get c by simp
    from Cons.IH [OF q1(2) this] obtain q' got where
      r: "queue_run add get ops q1 = Returns (q', map Inr got)" "ok q'"
         "contents q1 @ puts ops = got @ contents q'" by blast
    show ?thesis
      by (rule exI [of _ q'], rule exI [of _ "m # got"]) (use Get q1 r c in simp)
  qed
qed

lemma run_starved:
  "ok q \<Longrightarrow> \<not> served (length (contents q)) ops \<Longrightarrow> queue_run add get ops q = Blocks"
proof (induction ops arbitrary: q)
  case (Cons op ops)
  show ?case
  proof (cases op)
    case (Put m)
    obtain q1 where "add m q = Returns (q1, None)" "ok q1" "contents q1 = contents q @ [m]"
      using add_ok [OF Cons.prems(1)] by blast
    then show ?thesis using Cons Put by simp
  next
    case Get
    show ?thesis
    proof (cases "contents q")
      case Nil
      then show ?thesis using get_empty [OF Cons.prems(1)] Get by simp
    next
      case (Cons m ms)
      obtain q1 where "get q = Returns (q1, Inr m)" "ok q1" "contents q1 = ms"
        using get_ok [OF Cons.prems(1) Cons] by blast
      then show ?thesis using Cons.prems(2) Cons.IH [of q1] Get Cons by simp
    qed
  qed
qed simp

end
section \<open>The stream as a queue\<close>

definition stream_contents :: "stream \<Rightarrow> message list" where
  "stream_contents s = msgChan s @ msgBuffer s"

text \<open>An open stream whose overflow list is only used while the channel is full.\<close>

definition stream_ok :: "stream \<Rightarrow> bool" where
  "stream_ok s \<longleftrightarrow> \<not> isClosed s \<and> \<not> chan_closed s \<and> deadline s = None \<and>
     length (msgChan s) \<le> chan_cap \<and> (msgBuffer s \<noteq> [] \<longrightarrow> length (msgChan s) = chan_cap)"

lemma add_loop_full:
  "chan_cap \<le> length ch \<Longrightarrow> add_loop ch kept rest msg = Returns (ch, kept @ rest @ [msg])"
  by (cases "(ch, kept, rest, msg)" rule: add_loop.cases) simp_all

lemma chan_cap_pos [simp]: "0 < chan_cap" "chan_cap \<noteq> 0"
  by (simp_all add: chan_cap_def)

lemma add_locked_ok:
  assumes "stream_ok s"
  shows "\<exists>s'. add_locked m s = Returns s' \<and> stream_ok s' \<and>
    stream_contents s' = stream_contents s @ [m]"
proof (cases "msgBuffer s")
  case Nil
  then show ?thesis
    using assms by (auto simp: add_locked_def stream_ok_def stream_contents_def)
next
  case (Cons x r)
  then have "add_locked m s = Returns (s\<lparr>msgBuffer := msgBuffer s @ [m]\<rparr>)"
    using assms by (simp add: add_locked_def stream_ok_def add_loop_full)
  then show ?thesis
    using assms Cons by (auto simp: stream_ok_def stream_contents_def)
qed

lemma Recv_ok:
  assumes "stream_ok s" "stream_contents s = m # ms"
  shows "\<exists>s'. Recv now late s = Returns (s', Inr m) \<and> stream_ok s' \<and> stream_contents s' = ms"
proof (cases "msgChan s")
  case Nil
  then show ?thesis using assms by (auto simp: stream_ok_def stream_contents_def)
next
  case (Cons x c)
  then show ?thesis
    using assms
    by (cases "msgBuffer s")
      (auto simp: Recv_def chan_recv_def after_recv_def moveMsg_def stream_ok_def stream_contents_def)
qed

lemma Recv_empty:
  "stream_ok s \<Longrightarrow> stream_contents s = [] \<Longrightarrow> Recv now None s = Blocks"
  by (simp add: Recv_def chan_recv_def stream_ok_def stream_contents_def)

interpretation stream_fifo: fifo addMsg "Recv now None" stream_contents stream_ok
proof unfold_locales
  show "\<exists>s'. addMsg m s = Returns (s', None) \<and> stream_ok s' \<and> stream_contents s' = stream_contents s @ [m]"
    if "stream_ok s" for m s
    using add_locked_ok [OF that, of m] that by (auto simp: addMsg_def stream_ok_def)
qed (rule Recv_ok Recv_empty, assumption+)+

lemma stream_ok_new [simp]: "stream_ok (newStream i)" "stream_contents (newStream i) = []"
  by (simp_all add: stream_ok_def newStream_def stream_contents_def)

section \<open>Adding to any state\<close>

text \<open>
  \<open>addMsg\<close> in any state of the channel and the overflow list, as other threads can leave them:
  with room for the odd elements it runs off the end of a list of odd length.
\<close>

lemma add_loop_panics:
  "(\<exists>p. add_loop ch kept rest msg = Panics p) \<longleftrightarrow>
     odd (length rest) \<and> length ch + (length rest + 1) div 2 \<le> chan_cap"
  by (induction ch kept rest msg rule: add_loop.induct) auto

lemma add_loop_no_block: "add_loop ch kept rest msg \<noteq> Blocks"
  by (induction ch kept rest msg rule: add_loop.induct) auto

lemma add_loop_mset:
  "add_loop ch kept rest msg = Returns (ch', b) \<Longrightarrow>
     mset ch' + mset b = mset ch + mset kept + mset rest + {#msg#} \<and> length ch' \<le> max chan_cap (length ch)"
  by (induction ch kept rest msg arbitrary: ch' b rule: add_loop.induct)
    (auto split: if_splits simp: ac_simps)

text \<open>With room for one message only, and more than one waiting, the order is kept.\<close>

lemma add_loop_order:
  assumes "chan_cap \<le> Suc (length ch)" and "add_loop ch [] rest msg = Returns (ch', b)"
  shows "ch' @ b = ch @ rest @ [msg] \<and> (b \<noteq> [] \<longrightarrow> chan_cap \<le> length ch')"
proof (cases "length ch < chan_cap")
  case False
  then show ?thesis using assms add_loop_full [of ch "[]" rest msg] by auto
next
  case True
  consider "rest = []" | x where "rest = [x]" | x y r where "rest = x # y # r"
    by (metis list.exhaust)
  then show ?thesis
  proof cases
    case (3 x y r)
    then have "add_loop (ch @ [x]) [y] r msg = Returns (ch', b)" using assms(2) True by simp
    then show ?thesis
      using 3 assms(1) add_loop_full [of "ch @ [x]" "[y]" r msg] by auto
  qed (use assms True in auto)
qed

section \<open>The reader loop and its receivers, interleaved\<close>

text \<open>
  One reader loop adds messages; up to \<open>n\<close> receivers are between taking a message off the channel
  and the end of \<open>moveMsg\<close>.  \<open>mtx\<close> is the buffer's mutex while a receiver holds it: \<open>addMsg\<close> needs
  it, and keeps it for its whole run.  \<open>got\<close> and \<open>put\<close> record what was received and added.
\<close>

record stream_conf =
  strm :: stream
  moving :: nat
  mtx :: bool
  got :: "message list"
  put :: "message list"

definition start_conf :: "u64 \<Rightarrow> stream_conf" where
  "start_conf i = \<lparr>strm = newStream i, moving = 0, mtx = False, got = [], put = []\<rparr>"

inductive stream_step :: "nat \<Rightarrow> stream_conf \<Rightarrow> stream_conf \<Rightarrow> bool" for n where
  step_add: "\<not> mtx c \<Longrightarrow> addMsg m (strm c) = Returns (s', None) \<Longrightarrow>
    stream_step n c (c\<lparr>strm := s', put := put c @ [m]\<rparr>)"
| step_take: "moving c < n \<Longrightarrow> chan_recv None (strm c) = Some ((m, True), s') \<Longrightarrow>
    stream_step n c (c\<lparr>strm := s', moving := Suc (moving c), got := got c @ [m]\<rparr>)"
| step_lock: "\<not> mtx c \<Longrightarrow> 0 < moving c \<Longrightarrow> stream_step n c (c\<lparr>mtx := True\<rparr>)"
| step_move: "mtx c \<Longrightarrow> moveMsg (strm c) = Returns s' \<Longrightarrow>
    stream_step n c (c\<lparr>strm := s', mtx := False, moving := moving c - 1\<rparr>)"

inductive_cases stream_stepE: "stream_step n c c'"

inductive stream_reach :: "nat \<Rightarrow> stream_conf \<Rightarrow> bool" for n where
  reach_start: "stream_reach n (start_conf i)"
| reach_step: "stream_reach n c \<Longrightarrow> stream_step n c c' \<Longrightarrow> stream_reach n c'"

text \<open>Nothing is lost or invented, whatever the interleaving.\<close>

definition conf_ok :: "stream_conf \<Rightarrow> bool" where
  "conf_ok c \<longleftrightarrow> \<not> isClosed (strm c) \<and> \<not> chan_closed (strm c) \<and>
     length (msgChan (strm c)) \<le> chan_cap \<and> (mtx c \<longrightarrow> 0 < moving c) \<and>
     mset (got c) + mset (stream_contents (strm c)) = mset (put c)"

lemma addMsg_open:
  "addMsg m s = Returns (s', None) \<Longrightarrow> \<not> isClosed s \<Longrightarrow> \<not> chan_closed s \<Longrightarrow>
     \<exists>c b. add_loop (msgChan s) [] (msgBuffer s) m = Returns (c, b) \<and>
       s' = s\<lparr>msgChan := c, msgBuffer := b\<rparr>"
  by (auto simp: addMsg_def add_locked_def outcome_simps)

lemma moveMsg_open:
  "moveMsg s = Returns s' \<Longrightarrow> stream_contents s' = stream_contents s \<and>
     isClosed s' = isClosed s \<and> chan_closed s' = chan_closed s \<and>
     (length (msgChan s) \<le> chan_cap \<longrightarrow> length (msgChan s') \<le> chan_cap)"
  by (auto simp: moveMsg_def stream_contents_def split: list.splits if_splits)

lemma chan_recv_open:
  "chan_recv None s = Some ((m, True), s') \<Longrightarrow>
     msgChan s = m # msgChan s' \<and> msgBuffer s' = msgBuffer s \<and>
     isClosed s' = isClosed s \<and> chan_closed s' = chan_closed s"
  by (auto simp: chan_recv_def split: list.splits if_splits)

lemma conf_ok_step: "stream_step n c c' \<Longrightarrow> conf_ok c \<Longrightarrow> conf_ok c'"
proof (induction rule: stream_step.induct)
  case (step_add c m s')
  then obtain ch b where l: "add_loop (msgChan (strm c)) [] (msgBuffer (strm c)) m = Returns (ch, b)"
    "s' = (strm c)\<lparr>msgChan := ch, msgBuffer := b\<rparr>"
    using addMsg_open [of m "strm c" s'] by (auto simp: conf_ok_def)
  from add_loop_mset [OF l(1)] l(2) step_add show ?case
    by (auto simp: conf_ok_def stream_contents_def ac_simps)
next
  case (step_take c m s')
  from chan_recv_open [OF step_take(2)] step_take(3) show ?case
    by (auto simp: conf_ok_def stream_contents_def)
next
  case (step_move c s')
  from moveMsg_open [OF step_move(2)] step_move show ?case
    by (auto simp: conf_ok_def)
qed (simp add: conf_ok_def)

lemma conf_ok_reach: "stream_reach n c \<Longrightarrow> conf_ok c"
proof (induction rule: stream_reach.induct)
  case (reach_start i)
  show ?case by (simp add: conf_ok_def start_conf_def newStream_def stream_contents_def)
qed (rule conf_ok_step)

text \<open>With one receiver the order is kept too, in every interleaving.\<close>

definition conf_fifo :: "stream_conf \<Rightarrow> bool" where
  "conf_fifo c \<longleftrightarrow> got c @ stream_contents (strm c) = put c \<and> moving c \<le> 1 \<and>
     (msgBuffer (strm c) \<noteq> [] \<longrightarrow> chan_cap \<le> length (msgChan (strm c)) + moving c)"

lemma conf_fifo_step: "stream_step (Suc 0) c c' \<Longrightarrow> conf_ok c \<Longrightarrow> conf_fifo c \<Longrightarrow> conf_fifo c'"
proof (induction rule: stream_step.induct)
  case (step_add c m s')
  then obtain ch b where l: "add_loop (msgChan (strm c)) [] (msgBuffer (strm c)) m = Returns (ch, b)"
    "s' = (strm c)\<lparr>msgChan := ch, msgBuffer := b\<rparr>"
    using addMsg_open [of m "strm c" s'] by (auto simp: conf_ok_def)
  show ?case
  proof (cases "msgBuffer (strm c)")
    case Nil
    then show ?thesis
      using l step_add by (auto simp: conf_fifo_def conf_ok_def stream_contents_def split: if_splits)
  next
    case (Cons x r)
    then have "chan_cap \<le> Suc (length (msgChan (strm c)))"
      using step_add(4) by (auto simp: conf_fifo_def)
    from add_loop_order [OF this l(1)] l(2) step_add(4) show ?thesis
      by (auto simp: conf_fifo_def stream_contents_def)
  qed
next
  case (step_take c m s')
  from chan_recv_open [OF step_take(2)] step_take show ?case
    by (auto simp: conf_fifo_def stream_contents_def)
next
  case (step_move c s')
  then have m: "moving c = 1" by (simp add: conf_ok_def conf_fifo_def)
  show ?case
  proof (cases "msgBuffer (strm c)")
    case Nil
    then have "s' = strm c" using step_move(2) by (simp add: moveMsg_def)
    then show ?thesis using step_move(4) m Nil by (simp add: conf_fifo_def)
  next
    case (Cons e r)
    then have "s' = (strm c)\<lparr>msgChan := msgChan (strm c) @ [e], msgBuffer := r\<rparr>"
      using step_move(2) by (simp add: moveMsg_def split: if_splits)
    then show ?thesis
      using step_move(4) m Cons by (simp add: conf_fifo_def stream_contents_def)
  qed
qed (simp add: conf_fifo_def)

lemma conf_fifo_reach: "stream_reach (Suc 0) c \<Longrightarrow> conf_fifo c"
proof (induction rule: stream_reach.induct)
  case (reach_start i)
  show ?case by (simp add: conf_fifo_def start_conf_def newStream_def stream_contents_def)
next
  case (reach_step c c')
  then show ?case using conf_fifo_step conf_ok_reach by blast
qed

text \<open>A stream to which \<open>ms\<close> were added and nothing was received yet.\<close>

definition filled :: "u64 \<Rightarrow> message list \<Rightarrow> stream" where
  "filled i ms = (newStream i)\<lparr>msgChan := take chan_cap ms, msgBuffer := drop chan_cap ms\<rparr>"

lemma addMsg_filled: "addMsg m (filled i ms) = Returns (filled i (ms @ [m]), None)"
proof (cases "length ms < chan_cap")
  case True
  then show ?thesis by (simp add: addMsg_def add_locked_def filled_def newStream_def)
next
  case False
  then have f: "chan_cap \<le> length (take chan_cap ms)" by simp
  show ?thesis
    using False by (simp add: addMsg_def add_locked_def filled_def newStream_def add_loop_full [OF f])
qed

lemma reach_filled:
  "stream_reach n \<lparr>strm = filled i ms, moving = 0, mtx = False, got = [], put = ms\<rparr>"
proof (induction ms rule: rev_induct)
  case Nil
  have "start_conf i = \<lparr>strm = filled i [], moving = 0, mtx = False, got = [], put = []\<rparr>"
    by (simp add: start_conf_def filled_def newStream_def)
  then show ?case using reach_start [of n i] by simp
next
  case (snoc m ms)
  show ?case
    using reach_step [OF snoc, OF step_add, of m "filled i (ms @ [m])"] addMsg_filled by simp
qed
section \<open>Properties\<close>

text \<open>C5: One thread at a time, a stream is a first-in-first-out queue.  Any sequence of \<open>addMsg\<close> and
  \<open>Recv\<close> calls on a new stream returns the added messages in order, however many are waiting
  beyond the channel's capacity, as long as no \<open>Recv\<close> finds the stream empty; one that does
  waits for ever.\<close>

theorem stream_queue:
  "if served 0 ops
   then \<exists>s' received. queue_run addMsg (Recv now None) ops (newStream i) = Returns (s', map Inr received) \<and>
     puts ops = received @ stream_contents s'
   else queue_run addMsg (Recv now None) ops (newStream i) = Blocks"
  using stream_fifo.run_fifo [of "newStream i" ops now]
    stream_fifo.run_starved [of "newStream i" ops now] by auto

text \<open>C40: When \<open>addMsg\<close> crashes the program.  On an open stream it panics exactly when the
  overflow list has an odd length and the channel has room for every second of its messages,
  the last included.\<close>

theorem addMsg_panics:
  "(\<exists>p. addMsg m (s\<lparr>isClosed := False, chan_closed := False\<rparr>) = Panics p) \<longleftrightarrow>
     odd (length (msgBuffer s)) \<and>
     length (msgChan s) + (length (msgBuffer s) + 1) div 2 \<le> chan_cap"
  using add_loop_panics [of "msgChan s" "[]" "msgBuffer s" m]
  by (auto simp: addMsg_def add_locked_def outcome_simps)

text \<open>C20: One receiver.  In every interleaving of the reader loop with a single receiver that does not
  crash, what was received and what waits is what was added, in that order.\<close>

theorem single_receiver_fifo:
  assumes "stream_reach 1 c"
  shows "got c @ stream_contents (strm c) = put c"
  using conf_fifo_reach [of c] assms by (simp add: conf_fifo_def)

lemma single_receiver_fifo_witness:
  "let c = \<lparr>strm = filled 3 [zeroMessage], moving = 0, mtx = False, got = [], put = [zeroMessage]\<rparr>
   in got c @ stream_contents (strm c) = put c"
  unfolding Let_def by (rule single_receiver_fifo [OF reach_filled])

text \<open>Many receivers.  In every interleaving with any number of receivers no message is lost or
  duplicated, and the channel never holds more than its capacity.\<close>

theorem receivers_conserve:
  assumes "stream_reach n c"
  shows "mset (got c) + mset (stream_contents (strm c)) = mset (put c) \<and>
    length (msgChan (strm c)) \<le> chan_cap"
  using conf_ok_reach [OF assms] by (simp add: conf_ok_def)

lemma receivers_conserve_witness:
  "let c = \<lparr>strm = filled 3 [zeroMessage], moving = 0, mtx = False, got = [], put = [zeroMessage]\<rparr>
   in mset (got c) + mset (stream_contents (strm c)) = mset (put c) \<and>
      length (msgChan (strm c)) \<le> chan_cap"
  unfolding Let_def by (rule receivers_conserve [OF reach_filled [where n = 2]])

text \<open>The states one receiver and the reader loop can get into: after \<open>chan_cap + k\<close> messages the
  receiver has taken one off the channel and not run \<open>moveMsg\<close> yet.\<close>

lemma reach_taken:
  assumes "0 < n" and "chan_cap = Suc k"
  shows "stream_reach n \<lparr>strm = (filled i (m # ms))\<lparr>msgChan := take k ms\<rparr>,
     moving = 1, mtx = False, got = [m], put = m # ms\<rparr>"
proof -
  have r: "chan_recv None (filled i (m # ms)) =
      Some ((m, True), (filled i (m # ms))\<lparr>msgChan := take k ms\<rparr>)"
    by (simp add: chan_recv_def filled_def assms(2))
  show ?thesis
    using reach_step [OF reach_filled step_take [of "\<lparr>strm = filled i (m # ms), moving = 0, mtx = False, got = [], put = m # ms\<rparr>"]]
      r assms(1) by simp
qed

text \<open>The reader loop and one receiver can crash or deadlock.  There is a reachable state in
  which the receiver is between its receive and \<open>moveMsg\<close>, one message is in the overflow list, and
  the next \<open>addMsg\<close> panics with a nil dereference; and one in which the receiver blocks inside
  \<open>moveMsg\<close>, holding the mutex \<open>addMsg\<close> needs, so that nothing can move any more although
  messages wait.\<close>

theorem single_receiver_stuck:
  "(\<exists>c. stream_reach 1 c \<and> \<not> mtx c \<and> addMsg m (strm c) = Panics NilDeref) \<and>
   (\<exists>c. stream_reach 1 c \<and> stream_contents (strm c) \<noteq> [] \<and> (\<forall>c'. \<not> stream_step 1 c c'))"
proof
  obtain k where k: "chan_cap = Suc k" by (cases chan_cap) auto
  let ?c = "\<lparr>strm = (filled 0 (m # replicate k m @ [m]))\<lparr>msgChan := take k (replicate k m @ [m])\<rparr>,
     moving = 1, mtx = False, got = [m], put = m # replicate k m @ [m]\<rparr>"
  have "stream_reach 1 ?c" by (rule reach_taken) (use k in auto)
  moreover have "addMsg m (strm ?c) = Panics NilDeref"
    by (simp add: addMsg_def add_locked_def filled_def newStream_def k)
  ultimately show "\<exists>c. stream_reach 1 c \<and> \<not> mtx c \<and> addMsg m (strm c) = Panics NilDeref"
    by (intro exI [of _ ?c]) simp
next
  obtain k where k: "chan_cap = Suc k" by (cases chan_cap) auto
  let ?ms = "replicate k m @ [m, m]"
  let ?c = "\<lparr>strm = (filled 0 (m # ?ms))\<lparr>msgChan := take k ?ms\<rparr>,
     moving = 1, mtx = False, got = [m], put = m # ?ms\<rparr>"
  let ?s = "(filled 0 (m # ?ms))\<lparr>msgChan := replicate k m @ [m], msgBuffer := [m, m]\<rparr>"
  have c: "stream_reach 1 ?c" by (rule reach_taken) (use k in auto)
  have "addMsg m (strm ?c) = Returns (?s, None)"
    by (simp add: addMsg_def add_locked_def filled_def newStream_def k)
  with reach_step [OF c, OF step_add, of m ?s]
  have "stream_reach 1 (?c\<lparr>strm := ?s, put := (m # ?ms) @ [m]\<rparr>)" by simp
  from reach_step [OF this, OF step_lock]
  have r: "stream_reach 1 (?c\<lparr>strm := ?s, put := (m # ?ms) @ [m], mtx := True\<rparr>)" by simp
  have "moveMsg ?s = Blocks"
    by (simp add: moveMsg_def k filled_def newStream_def)
  then have "\<not> stream_step 1 (?c\<lparr>strm := ?s, put := (m # ?ms) @ [m], mtx := True\<rparr>) c'" for c'
    by (auto elim: stream_stepE)
  with r show "\<exists>c. stream_reach 1 c \<and> stream_contents (strm c) \<noteq> [] \<and> (\<forall>c'. \<not> stream_step 1 c c')"
    by (intro exI [of _ "?c\<lparr>strm := ?s, put := (m # ?ms) @ [m], mtx := True\<rparr>"])
      (simp add: stream_contents_def)
qed

text \<open>Two receivers lose the order.  With two receivers between their receive and \<open>moveMsg\<close>,
  \<open>addMsg\<close> moves every second message of the overflow list to the channel: later messages overtake
  earlier ones.\<close>

theorem two_receivers_reorder:
  "\<exists>c. stream_reach 2 c \<and> got c @ stream_contents (strm c) \<noteq> put c"
proof -
  obtain k where k: "chan_cap = Suc (Suc k)" by (simp add: chan_cap_def numeral_eq_Suc)
  let ?m = "zeroMessage" and ?x = "zeroMessage\<lparr>m_id := 1\<rparr>"
  let ?ms = "replicate (Suc k) ?m @ [?m, ?x, ?m, ?x]"
  have c: "stream_reach 2 \<lparr>strm = (filled 0 (?m # ?ms))\<lparr>msgChan := take (Suc k) ?ms\<rparr>,
     moving = 1, mtx = False, got = [?m], put = ?m # ?ms\<rparr>"
    by (rule reach_taken) (use k in auto)
  let ?s = "(filled 0 (?m # ?ms))\<lparr>msgChan := replicate k ?m\<rparr>"
  have "chan_recv None ((filled 0 (?m # ?ms))\<lparr>msgChan := take (Suc k) ?ms\<rparr>) = Some ((?m, True), ?s)"
    by (simp add: chan_recv_def)
  with reach_step [OF c, OF step_take, of ?m ?s]
  have c2: "stream_reach 2 \<lparr>strm = ?s, moving = 2, mtx = False, got = [?m, ?m], put = ?m # ?ms\<rparr>"
    by (simp add: numeral_2_eq_2)
  let ?s' = "?s\<lparr>msgChan := replicate k ?m @ [?m, ?m], msgBuffer := [?x, ?x, ?x]\<rparr>"
  have "addMsg ?x ?s = Returns (?s', None)"
    by (simp add: addMsg_def add_locked_def filled_def newStream_def k)
  with reach_step [OF c2, OF step_add, of ?x ?s']
  have "stream_reach 2 \<lparr>strm = ?s', moving = 2, mtx = False, got = [?m, ?m], put = (?m # ?ms) @ [?x]\<rparr>"
    by simp
  then show ?thesis
    by (rule exI [of _ "\<lparr>strm = ?s', moving = 2, mtx = False, got = [?m, ?m], put = (?m # ?ms) @ [?x]\<rparr>", OF conjI])
      (simp add: stream_contents_def zeroMessage_def replicate_app_Cons_same)
qed

text \<open>Closing.  Closing a stream that is open, in any of the four ways and with no lock held,
  returns; afterwards it is closed and not registered.  From then on sending writes nothing,
  adding changes nothing, closing again changes nothing, and all three return a close error.\<close>

theorem close_final:
  "case closeWithMessage U False False snd_it msg rcvd (s\<lparr>isClosed := False, chan_closed := False\<rparr>) ids w of
     Returns (s', ids', w', e) \<Rightarrow>
       ids' = ids - {s_reqId s} \<and> isClosed s' \<and> chan_closed s' \<and>
       (\<exists>ce. Stream_Send U lh m s' w' = Returns (w', Some (StreamClosed ce)) \<and>
          addMsg m s' = Returns (s', Some (StreamClosed ce)) \<and>
          closeWithMessage U mh lh snd_it' m m' s' ids' w' = Returns (s', ids', w', Some (StreamClosed ce)))
   | _ \<Rightarrow> False"
  by (auto simp: closeWithMessage_def send_msg_def Stream_Send_def addMsg_def closed_result_def
      GetClosedErr_def Let_def split: prod.split option.split outcome.split)

text \<open>The message of a received close is lost.  However a stream is closed by the other side,
  and whatever message came with it, the error its user gets says that there was no message
  and that it was not the client that closed.\<close>

theorem received_close_message_lost:
  "\<exists>s'. closeWithMsgRecvd U False lh msg ((newStream i)\<lparr>msgChan := c, msgBuffer := b\<rparr>) ids w =
      Returns (s', ids - {i}, w, None) \<and> GetClosedErr s' = Some no_close_info"
  by (simp add: closeWithMsgRecvd_def closeWithMessage_def newStream_def GetClosedErr_def)

text \<open>Receiving after a close.  What is in the channel is still delivered, then the close error;
  but a receive while messages are left in the overflow list panics, because it moves one of
  them to the closed channel.\<close>

theorem Recv_after_close:
  "Recv now None (s\<lparr>isClosed := True, chan_closed := True, deadline := None\<rparr>) =
     (case msgChan s of
        [] \<Rightarrow> Returns (s\<lparr>isClosed := True, chan_closed := True, deadline := None\<rparr>,
                Inl (closed_result (s\<lparr>isClosed := True\<rparr>)))
      | m # c \<Rightarrow>
          if msgBuffer s \<noteq> [] then Panics SendClosed
          else Returns (s\<lparr>isClosed := True, chan_closed := True, deadline := None, msgChan := c\<rparr>, Inr m))"
  by (auto simp: Recv_def chan_recv_def after_recv_def moveMsg_def closed_result_def GetClosedErr_def
      split: list.split)

end
