(* ===== verification/ClientGo.thy ===== *)
theory ClientGo
  imports Stream
begin

text \<open>
  \<open>go/client.go\<close>: the client.

  \<^item> The maps \<open>reqs\<close> and \<open>streams\<close> hold pointers: indices into the lists \<open>resp_chans\<close> and
    \<open>strs\<close>, which are the allocated \<open>RespChan\<close>s and \<open>Stream\<close>s.  A pointer stays valid when
    its entry leaves the map.
  \<^item> \<open>RespChan\<close> is a channel of capacity 1 with a mutex-protected flag \<open>closed\<close>.
  \<^item> \<open>run\<close> reads frames until an error: \<open>client_frame\<close> is one round of its loop and
    \<open>client_run\<close> the loop with the \<open>closeWithErr\<close> behind it.
  \<^item> \<open>Send\<close> is its two halves: writing the request under the writer's lock, and registering
    its id, between which the reader loop can run.
\<close>

section \<open>Response channels\<close>

record 'v resp_chan =
  rc_req :: "'v request"
  ch :: "('v, nat) response option"
  ch_closed :: bool
  rc_closed :: bool

definition newRespChan :: "'v request \<Rightarrow> 'v resp_chan" where
  "newRespChan req = \<lparr>rc_req = req, ch = None, ch_closed = False, rc_closed = False\<rparr>"

definition RespChan_send :: "('v, nat) response \<Rightarrow> 'v resp_chan \<Rightarrow> 'v resp_chan outcome" where
  "RespChan_send resp r =
     (if rc_closed r then Returns r
      else if ch_closed r then Panics SendClosed
      else case ch r of None \<Rightarrow> Returns (r\<lparr>ch := Some resp\<rparr>) | Some _ \<Rightarrow> Returns r)"

text \<open>\<open>Close\<close> closes the channel and leaves the flag as it is.\<close>

definition RespChan_Close :: "'v resp_chan \<Rightarrow> ('v resp_chan \<times> bool) outcome" where
  "RespChan_Close r =
     (if rc_closed r then Returns (r, False)
      else if ch_closed r then Panics CloseClosed
      else Returns (r\<lparr>ch_closed := True\<rparr>, True))"

definition RespChan_IsClosed :: "'v resp_chan \<Rightarrow> bool" where
  "RespChan_IsClosed r = rc_closed r"

section \<open>The client\<close>

text \<open>\<open>ClientClosedError\<close>: with the reason, if \<open>Close\<close> was not called by the user.\<close>

datatype client_error = ClientClosedError "ioerr option"

record 'v client =
  c_out :: conn_out
  reqCounter :: u64
  reqs :: "u64 \<rightharpoonup> nat"
  streams :: "u64 \<rightharpoonup> nat"
  resp_chans :: "'v resp_chan list"
  strs :: "stream list"
  c_isClosed :: bool
  c_closeErr :: "client_error option"

definition initialBytesVer :: bytes where
  "initialBytesVer = [0, 0, 0, 0, 0, 1, 5] @ lit ''jtrpc'' @ [0, 1]"

datatype 'v dial_error = DialIO ioerr | DialErrorResp "('v, nat) response"

text \<open>\<open>WithRW\<close>: the handshake, and the client with what it has not read yet.\<close>

definition WithRW :: "utils \<Rightarrow> bytes \<Rightarrow> conn_out \<Rightarrow> 'v dial_error + 'v client \<times> bytes" where
  "WithRW U r w =
     (case WriteAll U w initialBytesVer of
        (w', n, Some e) \<Rightarrow> Inl (DialIO e)
      | (w', n, None) \<Rightarrow>
          (case Response_ReadFrom zeroResponse r of
             (resp, r', nr, Some e) \<Rightarrow> Inl (DialIO e)
           | (resp, r', nr, None) \<Rightarrow>
               if StatusCode resp \<noteq> StatusOK then Inl (DialErrorResp resp)
               else Inr (\<lparr>c_out = w', reqCounter = 0, reqs = Map.empty, streams = Map.empty,
                      resp_chans = [], strs = [], c_isClosed = False, c_closeErr = None\<rparr>, r')))"

text \<open>\<open>handleResp\<close>, with the 9 bytes of id and flags already read; \<open>q\<close> is the pointer found.\<close>

definition handleResp :: "nat \<Rightarrow> byte \<Rightarrow> 'v client \<Rightarrow> bytes \<Rightarrow>
    ('v client \<times> bytes \<times> ioerr option) outcome" where
  "handleResp q flags c r =
     (let req = rc_req (resp_chans c ! q);
          resp = newResponse (rq_id req) flags (Some req)
      in case ReadFull 11 r of
           Inl e \<Rightarrow> Returns (c, [], Some e)
         | Inr (buf, r1) \<Rightarrow>
             let resp = resp\<lparr>StatusCode := buf ! 0\<rparr>;
                 hl = u16_at 1 buf;
                 bl = u64_at 3 buf
             in case (if hl \<noteq> 0 then ReadFull (unat hl) r1 else Inr ([], r1)) of
                  Inl e \<Rightarrow> Returns (c, [], Some e)
                | Inr (headerBytes, r2) \<Rightarrow>
                    let resp = resp\<lparr>rHeaders := Some (newHeaders headerBytes)\<rparr>
                    in case (if bl \<noteq> 0 then CopyN (sint bl) r2 else ([], r2, None)) of
                         (body, r3, Some e) \<Rightarrow> Returns (c, r3, Some e)
                       | (body, r3, None) \<Rightarrow>
                           let resp = (if bl \<noteq> 0 then SetBodyReader body (sint bl) resp else resp);
                               (c, resp) =
                                 (if StatusCode resp = StatusOK \<and> hasStreamFlag (rflags resp)
                                  then (c\<lparr>strs := strs c @ [newStream (rq_id req)],
                                          streams := (streams c)(rq_id req \<mapsto> length (strs c))\<rparr>,
                                        resp\<lparr>rStream := Some (length (strs c))\<rparr>)
                                  else (c, resp))
                           in obind (RespChan_send resp (resp_chans c ! q))
                                (\<lambda>rc. Returns (c\<lparr>resp_chans := (resp_chans c)[q := rc]\<rparr>, r3, None)))"

definition client_handleStreamMsg :: "utils \<Rightarrow> nat \<Rightarrow> byte \<Rightarrow> 'v client \<Rightarrow> bytes \<Rightarrow>
    ('v client \<times> bytes \<times> ioerr option) outcome" where
  "client_handleStreamMsg U p flags c r =
     (let s = strs c ! p;
          msg = \<lparr>m_id = s_reqId s, m_flags = flags, m_Body = None\<rparr>
      in case ReadFull 8 r of
           Inl e \<Rightarrow> Returns (c, [], Some e)
         | Inr (buf, r1) \<Rightarrow>
             let bl = u64_at 0 buf
             in case (if bl \<noteq> 0 then CopyN (sint bl) r1 else ([], r1, None)) of
                  (body, r2, Some e) \<Rightarrow> Returns (c, r2, Some e)
                | (body, r2, None) \<Rightarrow>
                    let msg = (if bl \<noteq> 0 then msg\<lparr>m_Body := Some body\<rparr> else msg)
                    in if hasMsgFlagClose (m_flags msg)
                       then obind (closeWithMsgRecvd U False False msg s (dom (streams c)) (c_out c))
                              (\<lambda>(s', ids, w, e). Returns (c\<lparr>strs := (strs c)[p := s'],
                                 streams := (streams c) |` ids, c_out := w\<rparr>, r2, None))
                       else obind (addMsg msg s)
                              (\<lambda>(s', e). Returns (c\<lparr>strs := (strs c)[p := s']\<rparr>, r2, None)))"

text \<open>
  One round of \<open>run\<close>: the client, what is left to read, and the error that ends the loop.  A frame
  for an unknown stream or request ends the round after the 9 bytes.
\<close>

definition client_frame :: "utils \<Rightarrow> 'v client \<Rightarrow> bytes \<Rightarrow>
    ('v client \<times> bytes \<times> ioerr option) outcome" where
  "client_frame U c r =
     (case ReadFull 9 r of
        Inl e \<Rightarrow> Returns (c, [], Some e)
      | Inr (buf, r1) \<Rightarrow>
          let i = u64_at 0 buf; flags = buf ! 8
          in if hasStreamMsgFlag flags
             then (case streams c i of
                     None \<Rightarrow> Returns (c, r1, None)
                   | Some p \<Rightarrow> client_handleStreamMsg U p flags c r1)
             else (case reqs c i of
                     None \<Rightarrow> Returns (c, r1, None)
                   | Some q \<Rightarrow> handleResp q flags c r1))"

definition NumRequestsActive :: "'v client \<Rightarrow> nat" where
  "NumRequestsActive c = card (dom (reqs c))"

definition NumStreamsActive :: "'v client \<Rightarrow> nat" where
  "NumStreamsActive c = card (dom (streams c))"

definition Client_GetClosedErr :: "'v client \<Rightarrow> client_error option" where
  "Client_GetClosedErr c = c_closeErr c"

definition Client_IsClosed :: "'v client \<Rightarrow> bool" where
  "Client_IsClosed c = c_isClosed c"

text \<open>The text of a \<open>ClientClosedError\<close>, with that of the error it wraps, and that error.\<close>

definition ClientClosedError_Error :: "(ioerr \<Rightarrow> gostring) \<Rightarrow> client_error \<Rightarrow> gostring" where
  "ClientClosedError_Error io_text cce =
     (case cce of
        ClientClosedError None \<Rightarrow> lit ''client closed''
      | ClientClosedError (Some e) \<Rightarrow> lit ''client closed (reason: '' @ io_text e @ lit '')'')"

definition ClientClosedError_Unwrap :: "client_error \<Rightarrow> ioerr option" where
  "ClientClosedError_Unwrap cce = (case cce of ClientClosedError e \<Rightarrow> e)"

section \<open>Sending\<close>

text \<open>The first half of \<open>Send\<close>: the id and the write, whose result is not looked at.\<close>

definition Send_write :: "utils \<Rightarrow> kvlist \<Rightarrow> 'v request \<Rightarrow> 'v client \<Rightarrow> 'v request \<times> 'v client" where
  "Send_write U kvs req c =
     (let i = reqCounter c + 1;
          req = req\<lparr>rq_id := i\<rparr>;
          c = c\<lparr>reqCounter := i\<rparr>
      in case Request_WriteTo U kvs req (c_out c) of
           (req', w', n, e) \<Rightarrow> (req', c\<lparr>c_out := w'\<rparr>))"

text \<open>The second half: the channel is allocated and registered.\<close>

definition Send_register :: "'v request \<Rightarrow> 'v client \<Rightarrow> nat \<times> 'v client" where
  "Send_register req c =
     (length (resp_chans c),
      c\<lparr>resp_chans := resp_chans c @ [newRespChan req],
        reqs := (reqs c)(rq_id req \<mapsto> length (resp_chans c))\<rparr>)"

definition Client_Send :: "utils \<Rightarrow> kvlist \<Rightarrow> 'v request \<Rightarrow> 'v client \<Rightarrow>
    (client_error option + nat) \<times> 'v client" where
  "Client_Send U kvs req c =
     (if c_isClosed c then (Inl (Client_GetClosedErr c), c)
      else let (req', c1) = Send_write U kvs req c; (q, c2) = Send_register req' c1 in (Inr q, c2))"

section \<open>Closing\<close>

text \<open>
  \<open>closeWithErr\<close> visits the streams in the order \<open>ps\<close> and the channels in the order \<open>qs\<close> the run
  time picks for the two maps, with the writer's lock and the streams' lock held.
\<close>

fun close_streams :: "utils \<Rightarrow> nat list \<Rightarrow> 'v client \<Rightarrow> 'v client outcome" where
  "close_streams U [] c = Returns c"
| "close_streams U (p # ps) c =
     obind (Stream_Close U True True (strs c ! p) (dom (streams c)) (c_out c))
       (\<lambda>(s', ids, w, e). close_streams U ps
          (c\<lparr>strs := (strs c)[p := s'], streams := (streams c) |` ids, c_out := w\<rparr>))"

fun close_chans :: "nat list \<Rightarrow> 'v client \<Rightarrow> 'v client outcome" where
  "close_chans [] c = Returns c"
| "close_chans (q # qs) c =
     obind (RespChan_Close (resp_chans c ! q))
       (\<lambda>(rc, b). close_chans qs (c\<lparr>resp_chans := (resp_chans c)[q := rc]\<rparr>))"

definition closeWithErr :: "utils \<Rightarrow> nat list \<Rightarrow> nat list \<Rightarrow> ioerr option \<Rightarrow> 'v client \<Rightarrow>
    ('v client \<times> client_error option) outcome" where
  "closeWithErr U ps qs err c =
     (if c_isClosed c then Returns (c, Client_GetClosedErr c)
      else
        let c = c\<lparr>c_isClosed := True, c_closeErr := Some (ClientClosedError err)\<rparr>
        in obind (close_streams U ps c) (\<lambda>c.
             let c = c\<lparr>streams := Map.empty\<rparr>
             in obind (close_chans qs c) (\<lambda>c. Returns (c\<lparr>reqs := Map.empty\<rparr>, None))))"

definition Client_Close :: "utils \<Rightarrow> nat list \<Rightarrow> nat list \<Rightarrow> 'v client \<Rightarrow>
    ('v client \<times> client_error option) outcome" where
  "Client_Close U ps qs c = closeWithErr U ps qs None c"

section \<open>The reader loop\<close>

lemma CopyN_length: "CopyN n r = (a, r', e) \<Longrightarrow> length r' \<le> length r"
  by (auto simp: CopyN_def split: if_splits)

lemma ReadFull_length: "ReadFull n r = Inr (a, r') \<Longrightarrow> length r' = length r - n"
  by (auto simp: ReadFull_def split: if_splits)

lemma handleResp_length:
  assumes "handleResp q flags c r = Returns (c', r', e)"
  shows "length r' \<le> length r"
  using assms unfolding handleResp_def
  by (auto simp: Let_def outcome_simps dest!: CopyN_length ReadFull_length
      split: sum.splits prod.splits option.splits if_splits)

lemma client_handleStreamMsg_length:
  assumes "client_handleStreamMsg U p flags c r = Returns (c', r', e)"
  shows "length r' \<le> length r"
  using assms unfolding client_handleStreamMsg_def
  by (auto simp: Let_def outcome_simps dest!: CopyN_length ReadFull_length
      split: sum.splits prod.splits option.splits if_splits)

text \<open>Every round that does not end the loop consumes input.\<close>

lemma client_frame_shrinks:
  assumes "client_frame U c r = Returns (c', r', None)"
  shows "length r' < length r"
proof -
  obtain buf r1 where f: "ReadFull 9 r = Inr (buf, r1)"
    using assms by (cases "ReadFull 9 r") (auto simp: client_frame_def)
  have "length r1 < length r"
    using f by (auto simp: ReadFull_def split: if_splits)
  moreover have "length r' \<le> length r1"
    using assms f unfolding client_frame_def
    by (auto simp: Let_def dest: handleResp_length client_handleStreamMsg_length
        split: if_splits option.splits)
  ultimately show ?thesis by simp
qed

function client_loop :: "utils \<Rightarrow> 'v client \<Rightarrow> bytes \<Rightarrow> ('v client \<times> ioerr) outcome" where
  "client_loop U c r =
     (case client_frame U c r of
        Panics p \<Rightarrow> Panics p
      | Blocks \<Rightarrow> Blocks
      | Returns (c', r', Some e) \<Rightarrow> Returns (c', e)
      | Returns (c', r', None) \<Rightarrow> client_loop U c' r')"
  by pat_completeness auto

termination
  by (relation "measure (\<lambda>(U, c, r). length r)") (auto dest: client_frame_shrinks)

declare client_loop.simps [simp del]

text \<open>\<open>run\<close>: the loop, then \<open>closeWithErr\<close> with its error; \<open>ps\<close> and \<open>qs\<close> are the map orders then.\<close>

definition client_run :: "utils \<Rightarrow> ('v client \<Rightarrow> nat list \<times> nat list) \<Rightarrow> 'v client \<Rightarrow> bytes \<Rightarrow>
    'v client outcome" where
  "client_run U orders c r =
     obind (client_loop U c r) (\<lambda>(c', e).
       case orders c' of (ps, qs) \<Rightarrow>
         obind (closeWithErr U ps qs (Some e) c') (\<lambda>(c'', e'). Returns c''))"

section \<open>Frames of the server, as the client reads them\<close>

text \<open>The 9 bytes every frame starts with, and the rest of a response's head.\<close>

definition frame_start :: "u64 \<Rightarrow> byte \<Rightarrow> bytes" where
  "frame_start i fl = le_put 8 i @ [fl]"

definition response_tail :: "byte \<Rightarrow> u16 \<Rightarrow> u64 \<Rightarrow> bytes" where
  "response_tail st hl bl = [st] @ le_put 2 hl @ le_put 8 bl"

lemma frame_start_reads [simp]:
  "length (frame_start i fl) = 9" "u64_at 0 (frame_start i fl) = i" "frame_start i fl ! 8 = fl"
  using u64_at_append [of "[]" 0 i "[fl]"] by (simp_all add: frame_start_def nth_append)

lemma u64_at_0 [simp]: "u64_at 0 (le_put 8 l) = l"
  by (simp add: u64_at_def)

lemma response_tail_reads [simp]:
  "length (response_tail st hl bl) = 11" "response_tail st hl bl ! 0 = st"
  "u16_at 1 (response_tail st hl bl) = hl" "u64_at 3 (response_tail st hl bl) = bl"
  using u16_at_append [of "[st]" 1 hl "le_put 8 bl"] u64_at_append [of "[st] @ le_put 2 hl" 3 bl "[]"]
  by (simp_all add: response_tail_def)

lemma response_tail_first [simp]: "response_tail st hl bl ! 0 = st"
  by (simp add: response_tail_def)

lemma response_frame_split:
  "response_frame (kvs, r) = frame_start (reqId r) (rflags r) @
     response_tail (StatusCode r) (of_nat (length (hdr_out kvs (rHeaders r)))) (bodyLen r) @
     hdr_out kvs (rHeaders r) @ response_body r"
  by (simp add: response_frame_def response_bytes_def response_head_def frame_start_def
      response_tail_def response_body_def)

lemma message_frame_split:
  "message_frame msg = frame_start (m_id msg) (m_flags msg OR FlagStreamMsg) @
     le_put 8 (of_nat (length (Message_BodyBytes msg)) :: u64) @ Message_BodyBytes msg"
  by (simp add: message_frame_def message_head_def frame_start_def)

lemma client_frame_start:
  "client_frame U c (frame_start i fl @ r) =
     (if hasStreamMsgFlag fl
      then (case streams c i of None \<Rightarrow> Returns (c, r, None)
            | Some p \<Rightarrow> client_handleStreamMsg U p fl c r)
      else (case reqs c i of None \<Rightarrow> Returns (c, r, None) | Some q \<Rightarrow> handleResp q fl c r))"
  by (simp add: client_frame_def Let_def split: option.split)

text \<open>The response the client builds from a frame.\<close>

definition delivered :: "'v resp_chan \<Rightarrow> kvlist \<Rightarrow> ('w, 't) response \<Rightarrow> nat \<Rightarrow> ('v, nat) response" where
  "delivered rc kvs r p =
     (newResponse (rq_id (rc_req rc)) (rflags r) (Some (rc_req rc)))
       \<lparr>StatusCode := StatusCode r, rHeaders := Some (newHeaders (hdr_out kvs (rHeaders r))),
        rbody := (if bodyLen r = 0 then None else Some (FromReader (response_body r) (bodyLen r))),
        bodyLen := bodyLen r,
        rStream := (if StatusCode r = StatusOK \<and> hasStreamFlag (rflags r) then Some p else None)\<rparr>"

definition opens_stream :: "('w, 't) response \<Rightarrow> bool" where
  "opens_stream r \<longleftrightarrow> StatusCode r = StatusOK \<and> hasStreamFlag (rflags r)"

lemma handleResp_frame:
  assumes "response_fits (kvs, r)"
  shows "handleResp q (rflags r) c
      (response_tail (StatusCode r) (of_nat (length (hdr_out kvs (rHeaders r)))) (bodyLen r) @
       hdr_out kvs (rHeaders r) @ response_body r @ rest) =
    (let rc = resp_chans c ! q; i = rq_id (rc_req rc);
         c1 = (if opens_stream r
               then c\<lparr>strs := strs c @ [newStream i], streams := (streams c)(i \<mapsto> length (strs c))\<rparr>
               else c)
     in obind (RespChan_send (delivered rc kvs r (length (strs c))) rc)
          (\<lambda>rc'. Returns (c1\<lparr>resp_chans := (resp_chans c)[q := rc']\<rparr>, rest, None)))"
proof -
  let ?h = "hdr_out kvs (rHeaders r)"
  let ?hl = "of_nat (length ?h) :: u16"
  have one: "ReadFull 11 (response_tail (StatusCode r) ?hl (bodyLen r) @ ?h @ response_body r @ rest) =
      Inr (response_tail (StatusCode r) ?hl (bodyLen r), ?h @ response_body r @ rest)" by simp
  have hl: "unat ?hl = length ?h" "?hl = 0 \<longleftrightarrow> ?h = []"
    using assms by (auto simp: response_fits_def simp flip: unat_eq_zero)
  have two: "(if ?hl \<noteq> 0 then ReadFull (unat ?hl) (?h @ response_body r @ rest)
      else Inr ([], ?h @ response_body r @ rest)) = Inr (?h, response_body r @ rest)"
    using hl by simp
  have len: "int (length (response_body r)) = sint (bodyLen r)"
    by (rule response_body_length [OF assms])
  have three: "(if bodyLen r \<noteq> 0 then CopyN (sint (bodyLen r)) (response_body r @ rest)
      else ([], response_body r @ rest, None)) = (response_body r, rest, None)"
    using len by (cases "bodyLen r = 0") auto
  show ?thesis
    unfolding handleResp_def Let_def one sum.case prod.case response_tail_reads two three option.case
    by (simp add: delivered_def opens_stream_def newResponse_def SetBodyReader_def
        SetBodyReadCloser_def Let_def)
qed

section \<open>What a round leaves alone\<close>

lemma handleResp_reqs: "handleResp q fl c r = Returns (c', r', e) \<Longrightarrow> reqs c' = reqs c"
  unfolding handleResp_def
  by (auto simp: Let_def outcome_simps split: sum.splits prod.splits option.splits if_splits)

lemma client_handleStreamMsg_reqs:
  "client_handleStreamMsg U p fl c r = Returns (c', r', e) \<Longrightarrow> reqs c' = reqs c"
  unfolding client_handleStreamMsg_def
  by (auto simp: Let_def outcome_simps split: sum.splits prod.splits option.splits if_splits)

lemma client_frame_reqs: "client_frame U c r = Returns (c', r', e) \<Longrightarrow> reqs c' = reqs c"
  unfolding client_frame_def
  by (auto simp: Let_def dest: handleResp_reqs client_handleStreamMsg_reqs
      split: sum.splits prod.splits option.splits if_splits)

section \<open>Properties\<close>

text \<open>A channel that waits for its response.\<close>

definition waiting :: "nat \<Rightarrow> 'v client \<Rightarrow> bool" where
  "waiting q c \<longleftrightarrow> q < length (resp_chans c) \<and> ch (resp_chans c ! q) = None \<and>
     \<not> ch_closed (resp_chans c ! q) \<and> \<not> rc_closed (resp_chans c ! q)"

lemma RespChan_send_waiting:
  "waiting q c \<Longrightarrow> RespChan_send resp (resp_chans c ! q) = Returns ((resp_chans c ! q)\<lparr>ch := Some resp\<rparr>)"
  by (simp add: waiting_def RespChan_send_def)

lemma delivered_body:
  assumes "response_fits (kvs, r)"
  shows "snd (BodyBytes (delivered rc kvs r p)) = response_body r"
proof -
  have "int (length (response_body r)) \<le> int (unat (bodyLen r))"
    unfolding response_body_length [OF assms] by (rule sint64_le)
  then have le: "length (response_body r) \<le> unat (bodyLen r)" by (simp only: of_nat_le_iff)
  have "bodyLen r = 0 \<Longrightarrow> response_body r = []"
    using response_body_length [OF assms] by simp
  with le show ?thesis
    by (simp add: delivered_def BodyBytes_def avail_def FromReader_def)
qed

text \<open>C16: Delivery of responses.  A frame the server wrote for a request that waits is taken off the
  input exactly, and the channel of that request, and no other, gets a response with its status,
  flags, header bytes and body; it comes with a new stream, registered under the id, exactly when
  the status is OK and the stream flag is set.\<close>

theorem client_delivers:
  assumes "response_fits (kvs, r)" and "\<not> hasStreamMsgFlag (rflags r)"
    and "reqs c (reqId r) = Some q" and "waiting q c"
  shows "\<exists>c' resp. client_frame U c (response_frame (kvs, r) @ rest) = Returns (c', rest, None) \<and>
    ch (resp_chans c' ! q) = Some resp \<and> (\<forall>q'. q' = q \<or> resp_chans c' ! q' = resp_chans c ! q') \<and>
    StatusCode resp = StatusCode r \<and> rflags resp = rflags r \<and>
    rHeaders resp = Some (newHeaders (hdr_out kvs (rHeaders r))) \<and>
    snd (BodyBytes resp) = response_body r \<and>
    rStream resp = (if opens_stream r then Some (length (strs c)) else None) \<and>
    streams c' = (if opens_stream r then (streams c)(rq_id (rc_req (resp_chans c ! q)) \<mapsto> length (strs c))
                  else streams c)"
proof -
  let ?d = "delivered (resp_chans c ! q) kvs r (length (strs c))"
  have d: "StatusCode ?d = StatusCode r" "rflags ?d = rflags r"
    "rHeaders ?d = Some (newHeaders (hdr_out kvs (rHeaders r)))"
    "rStream ?d = (if opens_stream r then Some (length (strs c)) else None)"
    by (simp_all add: delivered_def newResponse_def opens_stream_def)
  have q: "q < length (resp_chans c)" using assms(4) by (simp add: waiting_def)
  show ?thesis
    using assms(2,3) handleResp_frame [OF assms(1), of q c rest]
    by (simp add: response_frame_split client_frame_start Let_def RespChan_send_waiting [OF assms(4)]
        d q delivered_body [OF assms(1)] nth_list_update)
qed

definition demo_client :: "nat client" where
  "demo_client = snd (Client_Send plain_utils [] (NewRequest Background (lit ''/a''))
     \<lparr>c_out = \<lparr>out = [], room = None\<rparr>, reqCounter = 0, reqs = Map.empty, streams = Map.empty,
      resp_chans = [], strs = [], c_isClosed = False, c_closeErr = None\<rparr>)"

lemma demo_client_waits: "reqs demo_client 1 = Some 0" "waiting 0 demo_client"
  by (simp_all add: demo_client_def Client_Send_def Send_write_def Send_register_def newRespChan_def
      waiting_def Let_def Request_WriteTo_eq NewRequest_def hdr_out_def header_bytes_def
      Headers_Encode_def NewHeaders_def split: prod.split)

lemma client_delivers_witness:
  "let r = SetStatusBodyBytes StatusOK [1, 2, 3] (newResponse 1 0 None) :: (nat, nat) response;
       c = demo_client; q = 0; rest = [7]; kvs = []
   in \<exists>c' resp. client_frame plain_utils c (response_frame (kvs, r) @ rest) = Returns (c', rest, None) \<and>
    ch (resp_chans c' ! q) = Some resp \<and> (\<forall>q'. q' = q \<or> resp_chans c' ! q' = resp_chans c ! q') \<and>
    StatusCode resp = StatusCode r \<and> rflags resp = rflags r \<and>
    rHeaders resp = Some (newHeaders (hdr_out kvs (rHeaders r))) \<and>
    snd (BodyBytes resp) = response_body r \<and>
    rStream resp = (if opens_stream r then Some (length (strs c)) else None) \<and>
    streams c' = (if opens_stream r then (streams c)(rq_id (rc_req (resp_chans c ! q)) \<mapsto> length (strs c))
                  else streams c)"
  unfolding Let_def
  by (rule client_delivers)
    (simp_all add: demo_client_waits response_fits_def hdr_out_def header_bytes_def Headers_Encode_def
      newHeaders_def SetStatusBodyBytes_def Response_SetBodyBytes_def SetBodyReader_def
      SetBodyReadCloser_def newResponse_def FromReader_def avail_def hasStreamMsgFlag_def)

text \<open>A response for an id the client does not know derails the connection.  Only the first 9
  bytes of the frame are taken off the input; the status, the lengths, the headers and the body
  are read as the next frames.\<close>

theorem unknown_response_desyncs:
  assumes "reqs c (reqId r) = None" and "\<not> hasStreamMsgFlag (rflags r)"
  shows "client_frame U c (response_frame (kvs, r) @ rest) =
      Returns (c, drop 9 (response_frame (kvs, r)) @ rest, None) \<and>
    length (drop 9 (response_frame (kvs, r))) \<ge> 11"
  using assms by (simp add: response_frame_split client_frame_start)

lemma unknown_response_desyncs_witness:
  "let r = SetStatusBodyBytes StatusOK [1, 2, 3] (newResponse 2 0 None) :: (nat, nat) response;
       c = demo_client; rest = [7]; kvs = []
   in client_frame plain_utils c (response_frame (kvs, r) @ rest) =
      Returns (c, drop 9 (response_frame (kvs, r)) @ rest, None) \<and>
    length (drop 9 (response_frame (kvs, r))) \<ge> 11"
  unfolding Let_def
  by (rule unknown_response_desyncs)
    (simp_all add: demo_client_def Client_Send_def Send_write_def Send_register_def Let_def
      SetStatusBodyBytes_def Response_SetBodyBytes_def SetBodyReader_def SetBodyReadCloser_def
      newResponse_def hasStreamMsgFlag_def Request_WriteTo_eq NewRequest_def split: prod.split)

text \<open>A fast reply is lost.  Between the two halves of \<open>Send\<close> the request is out and its id is
  not registered: a reply that arrives there derails the connection as an unknown one does.\<close>

theorem fast_reply_lost:
  assumes "Send_write U kvs req c = (req', c1)" and "reqs c (rq_id req') = None"
    and "reqId r = rq_id req'" and "\<not> hasStreamMsgFlag (rflags r)"
  shows "client_frame U c1 (response_frame (kvs', r) @ rest) =
    Returns (c1, drop 9 (response_frame (kvs', r)) @ rest, None)"
proof -
  have "reqs c1 = reqs c"
    using assms(1) by (auto simp: Send_write_def Let_def split: prod.splits)
  then show ?thesis
    using assms(2-4) by (simp add: response_frame_split client_frame_start)
qed

definition new_client :: "nat client" where
  "new_client = \<lparr>c_out = \<lparr>out = [], room = None\<rparr>, reqCounter = 0, reqs = Map.empty,
      streams = Map.empty, resp_chans = [], strs = [], c_isClosed = False, c_closeErr = None\<rparr>"

lemma fast_reply_lost_witness:
  "let x = Send_write plain_utils [] (NewRequest Background (lit ''/a'')) new_client;
       r = newResponse (rq_id (fst x)) 0 None :: (nat, nat) response
   in client_frame plain_utils (snd x) (response_frame ([], r) @ [7]) =
    Returns (snd x, drop 9 (response_frame ([], r)) @ [7], None)"
  unfolding Let_def
  by (rule fast_reply_lost [OF prod.collapse [symmetric]])
    (simp_all add: new_client_def newResponse_def hasStreamMsgFlag_def)

fun send_all :: "utils \<Rightarrow> (kvlist \<times> 'v request) list \<Rightarrow> 'v client \<Rightarrow> 'v client" where
  "send_all U [] c = c"
| "send_all U ((kvs, r) # rs) c = send_all U rs (snd (Client_Send U kvs r c))"

fun numbered :: "u64 \<Rightarrow> (kvlist \<times> 'v request) list \<Rightarrow> (kvlist \<times> 'v request) list" where
  "numbered i [] = []"
| "numbered i ((kvs, r) # rs) = (kvs, r\<lparr>rq_id := i + 1\<rparr>) # numbered (i + 1) rs"

lemma Client_Send_open:
  assumes "utils_contract U" and "\<not> c_isClosed c" and "room (c_out c) = None"
  obtains c' where "Client_Send U kvs r c = (Inr (length (resp_chans c)), c')"
    "out (c_out c') = out (c_out c) @ request_frame (kvs, r\<lparr>rq_id := reqCounter c + 1\<rparr>)"
    "room (c_out c') = None" "\<not> c_isClosed c'" "reqCounter c' = reqCounter c + 1"
    "length (resp_chans c') = Suc (length (resp_chans c))"
    "reqs c' = (reqs c)(reqCounter c + 1 \<mapsto> length (resp_chans c))"
proof -
  let ?r = "r\<lparr>rq_id := reqCounter c + 1\<rparr>"
  obtain r' w' n e where wr: "Request_WriteTo U kvs ?r (c_out c) = (r', w', n, e)"
    by (cases "Request_WriteTo U kvs ?r (c_out c)")
  have o: "out w' = out (c_out c) @ request_frame (kvs, ?r)" "room w' = None"
    using Request_WriteTo_prefix [OF assms(1) wr] assms(3) by (auto simp: request_frame_def)
  have i: "rq_id r' = reqCounter c + 1"
    using wr by (auto simp: Request_WriteTo_eq Let_def split: prod.splits option.splits)
  show ?thesis
    by (rule that [of "snd (Client_Send U kvs r c)"])
      (use assms(2) wr o i in \<open>simp_all add: Client_Send_def Send_write_def Send_register_def Let_def\<close>)
qed

lemma send_all_spec:
  assumes "utils_contract U"
  shows "\<not> c_isClosed c \<Longrightarrow> room (c_out c) = None \<Longrightarrow>
    out (c_out (send_all U rs c)) = out (c_out c) @ concat (map request_frame (numbered (reqCounter c) rs)) \<and>
    reqs (send_all U rs c) = reqs c ++ map_of (rev (zip (map (\<lambda>x. rq_id (snd x)) (numbered (reqCounter c) rs))
      [length (resp_chans c) ..< length (resp_chans c) + length rs]))"
proof (induction rs arbitrary: c)
  case (Cons x rs)
  obtain kvs r where x: "x = (kvs, r)" by (cases x)
  obtain c' where c': "Client_Send U kvs r c = (Inr (length (resp_chans c)), c')"
    "out (c_out c') = out (c_out c) @ request_frame (kvs, r\<lparr>rq_id := reqCounter c + 1\<rparr>)"
    "room (c_out c') = None" "\<not> c_isClosed c'" "reqCounter c' = reqCounter c + 1"
    "length (resp_chans c') = Suc (length (resp_chans c))"
    "reqs c' = (reqs c)(reqCounter c + 1 \<mapsto> length (resp_chans c))"
    using Client_Send_open [OF assms Cons.prems] by blast
  have up: "[length (resp_chans c) ..< length (resp_chans c) + length (x # rs)] =
      length (resp_chans c) # [Suc (length (resp_chans c)) ..< Suc (length (resp_chans c)) + length rs]"
    by (subst upt_conv_Cons) (simp_all del: upt_Suc)
  have single: "f ++ (\<lambda>y. if y = k then Some v else None) = (\<lambda>y. if y = k then Some v else f y)"
    for f :: "u64 \<rightharpoonup> nat" and k v by (auto simp: map_add_def)
  show ?case
    using Cons.IH [OF c'(4,3)] c' unfolding up by (simp add: x fun_upd_def single del: upt_Suc)
qed simp

lemma numbered_ids:
  "map (\<lambda>x. rq_id (snd x)) (numbered i rs) = map (\<lambda>k. i + of_nat k) [1 ..< Suc (length rs)]"
proof (induction rs arbitrary: i)
  case (Cons x rs)
  have "[1 ..< Suc (length (x # rs))] = 1 # map Suc [1 ..< Suc (length rs)]"
    by (simp add: upt_conv_Cons map_Suc_upt del: upt_Suc)
  then show ?case using Cons.IH [of "i + 1"] by (cases x) (simp add: ac_simps del: upt_Suc)
qed simp

lemma unat_of_nat64: "n < 2 ^ 64 \<Longrightarrow> unat (of_nat n :: u64) = n"
  by (simp add: unat_of_nat take_bit_nat_eq_self)

lemma of_nat64_inj: "inj_on (\<lambda>k. (i :: u64) + of_nat k) {1 ..< Suc n}" if "n < 2 ^ 64"
proof (rule inj_onI)
  fix x y assume "x \<in> {1 ..< Suc n}" "y \<in> {1 ..< Suc n}" "i + of_nat x = i + (of_nat y :: u64)"
  then have "(of_nat x :: u64) = of_nat y" "x < 2 ^ 64" "y < 2 ^ 64" using that by auto
  then show "x = y" by (metis unat_of_nat64)
qed

text \<open>Ids.  Requests sent one after the other over a working connection leave as their frames, in
  order, with consecutive ids, and each id leads to the channel that \<open>Send\<close> returned for it, as long as
  the 64-bit counter does not come round.\<close>

theorem send_all_ids:
  assumes "utils_contract U" and "\<not> c_isClosed c" and "room (c_out c) = None" and "length rs < 2 ^ 64"
  shows "out (c_out (send_all U rs c)) =
      out (c_out c) @ concat (map request_frame (numbered (reqCounter c) rs)) \<and>
    map (\<lambda>k. reqs (send_all U rs c) (reqCounter c + of_nat k)) [1 ..< Suc (length rs)] =
      map Some [length (resp_chans c) ..< length (resp_chans c) + length rs]"
proof -
  let ?ids = "map (\<lambda>k. reqCounter c + of_nat k) [1 ..< Suc (length rs)]"
  let ?ps = "[length (resp_chans c) ..< length (resp_chans c) + length rs]"
  have d: "distinct ?ids"
    using of_nat64_inj [OF assms(4), of "reqCounter c"] by (simp add: distinct_map del: upt_Suc)
  have r: "reqs (send_all U rs c) = reqs c ++ map_of (rev (zip ?ids ?ps))"
    using send_all_spec [OF assms(1-3), of rs] by (simp add: numbered_ids del: upt_Suc)
  have m: "map_of (rev (zip ?ids ?ps)) = map_of (zip ?ids ?ps)"
  proof (rule map_of_rev_distinct)
    have "map fst (zip ?ids ?ps) = ?ids" by (rule map_fst_zip) (simp del: upt_Suc)
    then show "distinct (map fst (zip ?ids ?ps))" using d by (simp only:)
  qed
  have "map (\<lambda>k. reqs (send_all U rs c) (reqCounter c + of_nat k)) [1 ..< Suc (length rs)] =
      map (reqs (send_all U rs c)) ?ids" by simp
  also have "\<dots> = map Some ?ps"
  proof (rule nth_equalityI)
    fix j assume "j < length (map (reqs (send_all U rs c)) ?ids)"
    then show "map (reqs (send_all U rs c)) ?ids ! j = map Some ?ps ! j"
      unfolding r m using map_of_zip_nth [of ?ids ?ps j] d
      by (simp add: map_add_def del: upt_Suc)
  qed (simp del: upt_Suc)
  finally show ?thesis using send_all_spec [OF assms(1-3), of rs] by simp
qed

lemma send_all_ids_witness:
  "let rs = [([], NewRequest Background (lit ''/a'')), ([], NewRequest Background (lit ''/b''))]
   in out (c_out (send_all plain_utils rs new_client)) =
      out (c_out new_client) @ concat (map request_frame (numbered (reqCounter new_client) rs)) \<and>
    map (\<lambda>k. reqs (send_all plain_utils rs new_client) (reqCounter new_client + of_nat k)) [1 ..< Suc (length rs)] =
      map Some [length (resp_chans new_client) ..< length (resp_chans new_client) + length rs]"
  unfolding Let_def
  by (rule send_all_ids [OF plain.utils_contract_axioms]) (simp_all add: new_client_def)

text \<open>A failed write is not noticed.  On a connection that takes no more bytes \<open>Send\<close> returns a
  response channel and no error, registers the id, and nothing has left.\<close>

theorem Send_ignores_write_error:
  "case Client_Send plain_utils kvs req (c\<lparr>c_isClosed := False, c_out := \<lparr>out = o1, room = Some 0\<rparr>\<rparr>) of
     (Inr q, c') \<Rightarrow> out (c_out c') = o1 \<and> reqs c' (reqCounter c + 1) = Some q \<and> \<not> c_isClosed c'
   | (Inl e, c') \<Rightarrow> False"
  by (cases "request_head (reqCounter c + 1) (Flags req) (of_nat (length (Path req)))
       (of_nat (length (hdr_out kvs (rq_Headers req)))) (of_nat (length (body_out (rq_Body req))))")
    (simp_all add: Client_Send_def Send_write_def Send_register_def Let_def Request_WriteTo_eq
      conn_Write_def request_head_def)

text \<open>Requests stay active.  No frame the client handles, and no number of them, removes an id
  from the registered requests, so the number of active requests never goes down while the reader
  loop runs.\<close>

lemma client_loop_end:
  "client_frame U c r = Returns (c1, r1, Some e) \<Longrightarrow> client_loop U c r = Returns (c1, e)"
  by (subst client_loop.simps) simp

lemma client_loop_next:
  "client_frame U c r = Returns (c1, r1, None) \<Longrightarrow> client_loop U c r = client_loop U c1 r1"
  by (subst client_loop.simps) simp

lemma client_loop_fail:
  "client_frame U c r = Panics p \<Longrightarrow> client_loop U c r = Panics p"
  "client_frame U c r = Blocks \<Longrightarrow> client_loop U c r = Blocks"
  by (subst client_loop.simps, simp)+

lemma client_loop_reqs: "client_loop U c r = Returns (c', e) \<Longrightarrow> reqs c' = reqs c"
proof (induction U c r rule: client_loop.induct)
  case (1 U c r)
  show ?case
  proof (cases "client_frame U c r")
    case (Returns x)
    obtain c1 r1 e1 where x: "x = (c1, r1, e1)" by (cases x)
    have eq: "reqs c1 = reqs c" using client_frame_reqs Returns x by blast
    show ?thesis
    proof (cases e1)
      case None
      with Returns x have f: "client_frame U c r = Returns (c1, r1, None)" by simp
      then have "client_loop U c1 r1 = Returns (c', e)"
        using 1(2) by (simp only: client_loop_next)
      then show ?thesis using 1(1) Returns x None eq by simp
    next
      case (Some e2)
      with Returns x have "client_loop U c r = Returns (c1, e2)" by (simp add: client_loop_end)
      then show ?thesis using 1(2) eq by simp
    qed
  qed (use 1(2) in \<open>simp_all add: client_loop_fail\<close>)
qed

theorem requests_stay_active:
  assumes "client_loop U c r = Returns (c', e)"
  shows "NumRequestsActive c' = NumRequestsActive c"
  using client_loop_reqs [OF assms] by (simp add: NumRequestsActive_def)

lemma requests_stay_active_witness:
  "let c' = fst (case client_loop plain_utils demo_client
       (response_frame ([], newResponse 1 0 None :: (nat, nat) response)) of Returns x \<Rightarrow> x)
   in NumRequestsActive c' = NumRequestsActive demo_client"
proof -
  let ?r = "newResponse 1 0 None :: (nat, nat) response"
  have fits: "response_fits ([], ?r)"
    by (simp add: response_fits_def newResponse_def hdr_out_def header_bytes_def Headers_Encode_def newHeaders_def)
  have "\<exists>c1. client_frame plain_utils demo_client (response_frame ([], ?r)) = Returns (c1, [], None)"
    using handleResp_frame [OF fits, of 0 demo_client "[]"] demo_client_waits
    by (simp add: response_frame_split client_frame_start RespChan_send_waiting newResponse_def
        hasStreamMsgFlag_def Let_def)
  then obtain c1 where f: "client_frame plain_utils demo_client (response_frame ([], ?r)) = Returns (c1, [], None)"
    by blast
  have "client_frame plain_utils c1 [] = Returns (c1, [], Some EOF)"
    by (simp add: client_frame_def ReadFull_def)
  then have l: "client_loop plain_utils demo_client (response_frame ([], ?r)) = Returns (c1, EOF)"
    unfolding client_loop_next [OF f] by (rule client_loop_end)
  show ?thesis
    using requests_stay_active [OF l] by (simp add: l)
qed

lemma close_chans_spec:
  "distinct qs \<Longrightarrow> (\<And>q. q \<in> set qs \<Longrightarrow> waiting q c) \<Longrightarrow>
     \<exists>c'. close_chans qs c = Returns c' \<and> (\<forall>q \<in> set qs. ch_closed (resp_chans c' ! q)) \<and>
       (\<forall>q. q \<notin> set qs \<longrightarrow> resp_chans c' ! q = resp_chans c ! q) \<and>
       c' = c\<lparr>resp_chans := resp_chans c'\<rparr>"
proof (induction qs arbitrary: c)
  case (Cons q qs)
  let ?rc = "(resp_chans c ! q)\<lparr>ch_closed := True\<rparr>"
  let ?c = "c\<lparr>resp_chans := (resp_chans c)[q := ?rc]\<rparr>"
  have w: "waiting q c" using Cons.prems(2) by simp
  have "waiting q' ?c" if "q' \<in> set qs" for q'
    using Cons.prems(1) Cons.prems(2) [of q'] that
    by (cases "q' = q") (auto simp: waiting_def nth_list_update_neq)
  from Cons.IH [OF _ this] Cons.prems(1) obtain c' where c':
    "close_chans qs ?c = Returns c'" "\<forall>q \<in> set qs. ch_closed (resp_chans c' ! q)"
    "\<forall>q. q \<notin> set qs \<longrightarrow> resp_chans c' ! q = resp_chans ?c ! q" "c' = ?c\<lparr>resp_chans := resp_chans c'\<rparr>"
    by auto
  have "close_chans (q # qs) c = Returns c'"
    using w c'(1) by (simp add: RespChan_Close_def waiting_def)
  moreover have "ch_closed (resp_chans c' ! q)"
    using c'(3) w Cons.prems(1) by (simp add: waiting_def)
  moreover have "resp_chans c' ! q' = resp_chans c ! q'" if "q' \<notin> set (q # qs)" for q'
    using c'(3) that by (simp add: nth_list_update_neq)
  moreover have "c' = c\<lparr>resp_chans := resp_chans c'\<rparr>"
    using c'(4) by simp
  ultimately show ?case using c'(2) by auto
qed simp

text \<open>Closing a client.  With no open stream, closing an open client returns and closes each
  registered channel once, so whoever waits on one is released; nothing is registered any more,
  and closing again returns the stored error and changes nothing.\<close>

theorem close_client:
  assumes "\<not> c_isClosed c" and "distinct qs" and "list_all (\<lambda>q. waiting q c) qs"
  shows "\<exists>c'. closeWithErr U [] qs err c = Returns (c', None) \<and>
    list_all (\<lambda>q. ch_closed (resp_chans c' ! q)) qs \<and>
    reqs c' = Map.empty \<and> streams c' = Map.empty \<and>
    (\<forall>ps' qs' err'. closeWithErr U ps' qs' err' c' = Returns (c', Some (ClientClosedError err)))"
proof -
  let ?c = "c\<lparr>c_isClosed := True, c_closeErr := Some (ClientClosedError err), streams := Map.empty\<rparr>"
  have "waiting q ?c" if "q \<in> set qs" for q
    using assms(3) that by (simp add: list_all_iff waiting_def)
  from close_chans_spec [OF assms(2) this] obtain c' where c': "close_chans qs ?c = Returns c'"
    "\<forall>q \<in> set qs. ch_closed (resp_chans c' ! q)" "c' = ?c\<lparr>resp_chans := resp_chans c'\<rparr>" by blast
  have s: "streams c' = Map.empty" "c_isClosed c'" "c_closeErr c' = Some (ClientClosedError err)"
    by (subst c'(3), simp)+
  have "closeWithErr U [] qs err c = Returns (c'\<lparr>reqs := Map.empty\<rparr>, None)"
    using assms(1) c'(1) by (simp add: closeWithErr_def Let_def)
  then show ?thesis
    using c'(2) s by (intro exI [of _ "c'\<lparr>reqs := Map.empty\<rparr>"])
      (simp add: list_all_iff closeWithErr_def Client_GetClosedErr_def)
qed

lemma close_client_witness:
  "\<exists>c'. closeWithErr plain_utils [] [0] (Some EOF) demo_client = Returns (c', None) \<and>
    list_all (\<lambda>q. ch_closed (resp_chans c' ! q)) [0] \<and>
    reqs c' = Map.empty \<and> streams c' = Map.empty \<and>
    (\<forall>ps' qs' err'. closeWithErr plain_utils ps' qs' err' c' = Returns (c', Some (ClientClosedError (Some EOF))))"
  by (rule close_client)
    (simp_all add: demo_client_waits demo_client_def Client_Send_def Send_write_def Send_register_def
      Let_def Request_WriteTo_eq NewRequest_def newRespChan_def waiting_def split: prod.split)

text \<open>Closing a client with an open stream.  \<open>closeWithErr\<close> holds the locks of the writer and of
  the stream map when it closes the streams, and closing one takes both again: unless the locks
  of \<open>utils\<close> can be taken twice by one goroutine, the call never returns.\<close>

theorem close_client_deadlock:
  assumes "\<not> reentrant U" and "\<not> c_isClosed c" and "\<not> isClosed (strs c ! p)" and "\<not> chan_closed (strs c ! p)"
  shows "closeWithErr U (p # ps) qs err c = Blocks"
  using assms by (simp add: closeWithErr_def Stream_Close_def closeWithMessage_def Let_def)

lemma close_client_deadlock_witness:
  "closeWithErr plain_utils (0 # []) [] None (new_client\<lparr>strs := [newStream 1], streams := [1 \<mapsto> 0]\<rparr>) = Blocks"
  by (rule close_client_deadlock) (simp_all add: new_client_def newStream_def)

text \<open>\<open>RespChan.Close\<close> does not record that it ran: afterwards \<open>IsClosed\<close> still says no, closing
  again panics, and so does the response when it arrives.\<close>

theorem RespChan_Close_forgets:
  "\<exists>rc. RespChan_Close (newRespChan req) = Returns (rc, True) \<and> \<not> RespChan_IsClosed rc \<and>
     RespChan_Close rc = Panics CloseClosed \<and> RespChan_send resp rc = Panics SendClosed"
  by (simp add: RespChan_Close_def newRespChan_def RespChan_IsClosed_def RespChan_send_def)

section \<open>A client that waits for its response\<close>

lemma client_frame_response:
  assumes "response_fits (kvs, r)" and "\<not> hasStreamMsgFlag (rflags r)"
    and "reqs c (reqId r) = Some q" and "waiting q c"
  shows "client_frame U c (response_frame (kvs, r) @ rest) =
    (let rc = resp_chans c ! q; i = rq_id (rc_req rc);
         c1 = (if opens_stream r
               then c\<lparr>strs := strs c @ [newStream i], streams := (streams c)(i \<mapsto> length (strs c))\<rparr>
               else c)
     in Returns (c1\<lparr>resp_chans := (resp_chans c)[q := rc\<lparr>ch := Some (delivered rc kvs r (length (strs c)))\<rparr>]\<rparr>,
          rest, None))"
  using assms(2,3) handleResp_frame [OF assms(1), of q c rest]
  by (simp add: response_frame_split client_frame_start Let_def RespChan_send_waiting [OF assms(4)])

lemma client_receives:
  assumes "response_fits (kvs, r)" and "\<not> hasStreamMsgFlag (rflags r)"
    and "reqs c (reqId r) = Some q" and "waiting q c"
  shows "\<exists>c' p. client_frame U c (response_frame (kvs, r) @ rest) = Returns (c', rest, None) \<and>
    ch (resp_chans c' ! q) = Some (delivered (resp_chans c ! q) kvs r p)"
  using client_frame_response [OF assms, of U rest] assms(4) by (auto simp: Let_def waiting_def)

lemma Send_fields [simp]:
  "c_isClosed (snd (Send_write U kvs req c)) = c_isClosed c"
  "c_closeErr (snd (Send_write U kvs req c)) = c_closeErr c"
  "resp_chans (snd (Send_write U kvs req c)) = resp_chans c"
  "c_isClosed (snd (Send_register req c)) = c_isClosed c"
  "c_closeErr (snd (Send_register req c)) = c_closeErr c"
  "resp_chans (snd (Send_register req c)) = resp_chans c @ [newRespChan req]"
  by (simp_all add: Send_write_def Send_register_def Let_def split: prod.split)

lemma Client_Send_cases:
  "Client_Send U kvs req c = (if c_isClosed c then (Inl (c_closeErr c), c)
     else (Inr (length (resp_chans c)), snd (Send_register (fst (Send_write U kvs req c)) (snd (Send_write U kvs req c)))))"
  by (simp add: Client_Send_def Client_GetClosedErr_def case_prod_beta Let_def) (simp add: Send_register_def)

text \<open>The client after \<open>Send\<close>, with its new channel.\<close>

lemma Client_Send_waits:
  assumes "utils_contract U" and "\<not> c_isClosed c" and "room (c_out c) = None"
  obtains c' where "Client_Send U kvs r c = (Inr (length (resp_chans c)), c')"
    "out (c_out c') = out (c_out c) @ request_frame (kvs, r\<lparr>rq_id := reqCounter c + 1\<rparr>)"
    "\<not> c_isClosed c'" "reqs c' (reqCounter c + 1) = Some (length (resp_chans c))"
    "waiting (length (resp_chans c)) c'" "strs c' = strs c" "length (resp_chans c') = Suc (length (resp_chans c))"
    "rq_id (rc_req (resp_chans c' ! length (resp_chans c))) = reqCounter c + 1"
proof -
  obtain c' where c': "Client_Send U kvs r c = (Inr (length (resp_chans c)), c')"
    "out (c_out c') = out (c_out c) @ request_frame (kvs, r\<lparr>rq_id := reqCounter c + 1\<rparr>)"
    "\<not> c_isClosed c'" "reqs c' = (reqs c)(reqCounter c + 1 \<mapsto> length (resp_chans c))"
    by (rule Client_Send_open [OF assms])
  have e: "c' = snd (Send_register (fst (Send_write U kvs r c)) (snd (Send_write U kvs r c)))"
    using c'(1) assms(2) by (simp add: Client_Send_cases)
  have "rq_id (fst (Send_write U kvs r c)) = reqCounter c + 1"
    by (simp add: Send_write_def Let_def Request_WriteTo_eq split: prod.split option.split)
  moreover have "strs (snd (Send_write U kvs r c)) = strs c"
    by (simp add: Send_write_def Let_def split: prod.split)
  ultimately show ?thesis
    by (intro that [OF c'(1,2,3)])
      (use c'(4) in \<open>simp_all add: e waiting_def newRespChan_def\<close>, simp_all add: Send_register_def)
qed

lemma delivered_sel [simp]:
  "StatusCode (delivered rc kvs r p) = StatusCode r" "rflags (delivered rc kvs r p) = rflags r"
  "rHeaders (delivered rc kvs r p) = Some (newHeaders (hdr_out kvs (rHeaders r)))"
  "rStream (delivered rc kvs r p) = (if opens_stream r then Some p else None)"
  by (simp_all add: delivered_def newResponse_def opens_stream_def)

lemma delivered_fits:
  assumes "response_fits (kvs, r)"
  shows "response_fits (kvs', delivered rc kvs r p)" "response_body (delivered rc kvs r p) = response_body r"
proof -
  note l = response_body_length [OF assms]
  have "int (length (response_body r)) \<le> int (unat (bodyLen r))" unfolding l by (rule sint64_le)
  then have le: "length (response_body r) \<le> unat (bodyLen r)" by (simp only: of_nat_le_iff)
  have z: "bodyLen r = 0 \<Longrightarrow> response_body r = []" using l by simp
  have b: "rbody (delivered rc kvs r p) =
      (if bodyLen r = 0 then None else Some (FromReader (response_body r) (bodyLen r)))"
    "bodyLen (delivered rc kvs r p) = bodyLen r" by (simp_all add: delivered_def)
  show "response_body (delivered rc kvs r p) = response_body r"
    unfolding response_body_def [of "delivered rc kvs r p"] b
    using le z by (simp add: avail_def FromReader_def l [symmetric])
  show "response_fits (kvs', delivered rc kvs r p)"
    using l le assms by (simp add: response_fits_def b avail_def FromReader_def)
qed

end
