(* ===== verification/MuxGo.thy ===== *)
theory MuxGo
  imports Prelude
begin

text \<open>
  \<open>go/mux.go\<close>: handlers, middleware and the two multiplexers.

  \<^item> A handler is any value of a type \<open>'h\<close> (what it does is the server's concern), a stream
    handler one of a type \<open>'g\<close>; \<open>None\<close> is the nil interface.  A middleware is a function
    on handlers; a nil one is \<open>None\<close> where the code can hold it.
  \<^item> The maps of \<open>MapMux\<close> are \<open>option\<close>s of functions: a \<open>MapMux\<close> that was not made by \<open>NewMapMux\<close>
    has nil maps, which can be read but not written.  Storing a nil handler and having none
    under a path are the same thing to every reader.
  \<^item> \<open>mux\<close> is the interface \<open>Mux\<close> as the server reads it.

  The locale \<open>routes\<close> is the contract of one side (regular or stream) of a multiplexer: what the
  getters return after a registration.  \<open>MapMux\<close> is shown to meet it twice.
\<close>

section \<open>Middleware\<close>

fun combine_loop :: "('h \<Rightarrow> 'h) \<Rightarrow> ('h \<Rightarrow> 'h) list \<Rightarrow> ('h \<Rightarrow> 'h)" where
  "combine_loop m [] = m"
| "combine_loop m (mid # ms) = combine_loop (\<lambda>nxt. m (mid nxt)) ms"

definition CombineMiddleware :: "('h \<Rightarrow> 'h) \<Rightarrow> ('h \<Rightarrow> 'h) list \<Rightarrow> ('h \<Rightarrow> 'h)" where
  "CombineMiddleware m ms = (if ms = [] then m else combine_loop m ms)"

text \<open>Adding middleware to a field that may be nil: \<open>GlobalMiddleware\<close>, \<open>Middleware\<close>, \<open>StreamMiddleware\<close>.\<close>

definition add_middleware :: "('h \<Rightarrow> 'h) option \<Rightarrow> ('h \<Rightarrow> 'h) list \<Rightarrow> ('h \<Rightarrow> 'h) option" where
  "add_middleware f ms =
     (case ms of
        [] \<Rightarrow> f
      | m # ms' \<Rightarrow>
          (case f of
             None \<Rightarrow> Some (CombineMiddleware m ms')
           | Some f' \<Rightarrow> Some (CombineMiddleware f' ms)))"

section \<open>MapMux\<close>

record ('h, 'g) mapmux =
  globalMiddleware :: "('h \<Rightarrow> 'h) option"
  middleware :: "('h \<Rightarrow> 'h) option"
  streamMiddleware :: "('h \<Rightarrow> 'h) option"
  handlers :: "(gostring \<rightharpoonup> 'h) option"
  middlewares :: "(gostring \<rightharpoonup> 'h \<Rightarrow> 'h) option"
  streamMiddlewares :: "(gostring \<rightharpoonup> 'h \<Rightarrow> 'h) option"
  streamHandlers :: "(gostring \<rightharpoonup> 'g) option"

definition NewMapMux :: "('h, 'g) mapmux" where
  "NewMapMux = \<lparr>globalMiddleware = None, middleware = None, streamMiddleware = None,
     handlers = Some Map.empty, middlewares = Some Map.empty,
     streamMiddlewares = Some Map.empty, streamHandlers = Some Map.empty\<rparr>"

text \<open>\<open>m[k] = v\<close> and \<open>m[k]\<close> of Go's maps with a nil zero value.\<close>

definition map_store :: "gostring \<Rightarrow> 'x option \<Rightarrow> (gostring \<rightharpoonup> 'x) option \<Rightarrow>
    (gostring \<rightharpoonup> 'x) option outcome" where
  "map_store k v m = (case m of None \<Rightarrow> Panics NilMapWrite | Some f \<Rightarrow> Returns (Some (f(k := v))))"

definition map_load :: "(gostring \<rightharpoonup> 'x) option \<Rightarrow> gostring \<Rightarrow> 'x option" where
  "map_load m k = (case m of None \<Rightarrow> None | Some f \<Rightarrow> f k)"

definition Handle :: "gostring \<Rightarrow> 'h option \<Rightarrow> ('h \<Rightarrow> 'h) list \<Rightarrow> ('h, 'g) mapmux \<Rightarrow>
    ('h, 'g) mapmux outcome" where
  "Handle path h ms mm =
     obind (case ms of
              [] \<Rightarrow> Returns mm
            | m # ms' \<Rightarrow>
                obind (map_store path (Some (CombineMiddleware m ms')) (middlewares mm))
                  (\<lambda>f. Returns (mm\<lparr>middlewares := f\<rparr>)))
       (\<lambda>mm. obind (map_store path h (handlers mm)) (\<lambda>f. Returns (mm\<lparr>handlers := f\<rparr>)))"

definition HandleStream :: "gostring \<Rightarrow> 'g option \<Rightarrow> ('h \<Rightarrow> 'h) list \<Rightarrow> ('h, 'g) mapmux \<Rightarrow>
    ('h, 'g) mapmux outcome" where
  "HandleStream path h ms mm =
     obind (case ms of
              [] \<Rightarrow> Returns mm
            | m # ms' \<Rightarrow>
                obind (map_store path (Some (CombineMiddleware m ms')) (streamMiddlewares mm))
                  (\<lambda>f. Returns (mm\<lparr>streamMiddlewares := f\<rparr>)))
       (\<lambda>mm. obind (map_store path h (streamHandlers mm)) (\<lambda>f. Returns (mm\<lparr>streamHandlers := f\<rparr>)))"

definition GlobalMiddleware :: "('h \<Rightarrow> 'h) list \<Rightarrow> ('h, 'g) mapmux \<Rightarrow> ('h, 'g) mapmux" where
  "GlobalMiddleware ms mm = mm\<lparr>globalMiddleware := add_middleware (globalMiddleware mm) ms\<rparr>"

definition SetGlobalMiddleware :: "('h \<Rightarrow> 'h) option \<Rightarrow> ('h, 'g) mapmux \<Rightarrow> ('h, 'g) mapmux" where
  "SetGlobalMiddleware m mm = mm\<lparr>globalMiddleware := m\<rparr>"

definition Middleware :: "('h \<Rightarrow> 'h) list \<Rightarrow> ('h, 'g) mapmux \<Rightarrow> ('h, 'g) mapmux" where
  "Middleware ms mm = mm\<lparr>middleware := add_middleware (middleware mm) ms\<rparr>"

definition SetMiddleware :: "('h \<Rightarrow> 'h) option \<Rightarrow> ('h, 'g) mapmux \<Rightarrow> ('h, 'g) mapmux" where
  "SetMiddleware m mm = mm\<lparr>middleware := m\<rparr>"

definition StreamMiddleware :: "('h \<Rightarrow> 'h) list \<Rightarrow> ('h, 'g) mapmux \<Rightarrow> ('h, 'g) mapmux" where
  "StreamMiddleware ms mm = mm\<lparr>streamMiddleware := add_middleware (streamMiddleware mm) ms\<rparr>"

definition SetStreamMiddleware :: "('h \<Rightarrow> 'h) option \<Rightarrow> ('h, 'g) mapmux \<Rightarrow> ('h, 'g) mapmux" where
  "SetStreamMiddleware m mm = mm\<lparr>streamMiddleware := m\<rparr>"

definition GetHandler :: "('h, 'g) mapmux \<Rightarrow> gostring \<Rightarrow> 'h option" where
  "GetHandler mm path = map_load (handlers mm) path"

definition GetMiddlewareFor :: "('h, 'g) mapmux \<Rightarrow> gostring \<Rightarrow> ('h \<Rightarrow> 'h) option" where
  "GetMiddlewareFor mm path = map_load (middlewares mm) path"

definition GetStreamHandler :: "('h, 'g) mapmux \<Rightarrow> gostring \<Rightarrow> 'g option" where
  "GetStreamHandler mm path = map_load (streamHandlers mm) path"

definition GetStreamMiddlewareFor :: "('h, 'g) mapmux \<Rightarrow> gostring \<Rightarrow> ('h \<Rightarrow> 'h) option" where
  "GetStreamMiddlewareFor mm path = map_load (streamMiddlewares mm) path"

section \<open>The interface the server reads\<close>

record ('h, 'g) mux =
  getHandler :: "gostring \<Rightarrow> 'h option"
  getMiddlewareFor :: "gostring \<Rightarrow> ('h \<Rightarrow> 'h) option"
  getStreamHandler :: "gostring \<Rightarrow> 'g option"
  getStreamMiddlewareFor :: "gostring \<Rightarrow> ('h \<Rightarrow> 'h) option"
  getGlobalMiddleware :: "('h \<Rightarrow> 'h) option"
  getMiddleware :: "('h \<Rightarrow> 'h) option"
  getStreamMiddleware :: "('h \<Rightarrow> 'h) option"

definition MapMux_mux :: "('h, 'g) mapmux \<Rightarrow> ('h, 'g) mux" where
  "MapMux_mux mm = \<lparr>getHandler = GetHandler mm, getMiddlewareFor = GetMiddlewareFor mm,
     getStreamHandler = GetStreamHandler mm, getStreamMiddlewareFor = GetStreamMiddlewareFor mm,
     getGlobalMiddleware = globalMiddleware mm, getMiddleware = middleware mm,
     getStreamMiddleware = streamMiddleware mm\<rparr>"

definition UnimplementedMux :: "('h, 'g) mux" where
  "UnimplementedMux = \<lparr>getHandler = (\<lambda>_. None), getMiddlewareFor = (\<lambda>_. None),
     getStreamHandler = (\<lambda>_. None), getStreamMiddlewareFor = (\<lambda>_. None),
     getGlobalMiddleware = None, getMiddleware = None, getStreamMiddleware = None\<rparr>"

text \<open>
  The handler the server calls for a request: \<open>handler = mw(handler)\<close> for the middleware of the
  path, of the kind of request, and the global one, each where it is not nil.
\<close>

definition wrap_with :: "('h \<Rightarrow> 'h) option \<Rightarrow> 'h \<Rightarrow> 'h" where
  "wrap_with mw h = (case mw of None \<Rightarrow> h | Some m \<Rightarrow> m h)"

definition chain_handler :: "('h, 'g) mux \<Rightarrow> gostring \<Rightarrow> 'h \<Rightarrow> 'h" where
  "chain_handler M path h =
     wrap_with (getGlobalMiddleware M) (wrap_with (getMiddleware M) (wrap_with (getMiddlewareFor M path) h))"

definition chain_stream :: "('h, 'g) mux \<Rightarrow> gostring \<Rightarrow> 'h \<Rightarrow> 'h" where
  "chain_stream M path noop =
     wrap_with (getGlobalMiddleware M)
       (wrap_with (getStreamMiddleware M) (wrap_with (getStreamMiddlewareFor M path) noop))"

section \<open>Order of middleware\<close>

text \<open>Middlewares \<open>m1, ..., mk\<close> around a handler: \<open>m1 (... (mk h))\<close>, so \<open>m1\<close> runs first.\<close>

definition around :: "('h \<Rightarrow> 'h) list \<Rightarrow> 'h \<Rightarrow> 'h" where
  "around ms h = foldr (\<lambda>m. m) ms h"

lemma around_simps [simp]:
  "around [] h = h" "around (m # ms) h = m (around ms h)"
  "around (ms @ ns) h = around ms (around ns h)"
  by (simp_all add: around_def)

lemma combine_loop_around: "combine_loop m ms h = m (around ms h)"
  by (induction ms arbitrary: m) simp_all

lemma CombineMiddleware_around: "CombineMiddleware m ms h = around (m # ms) h"
  by (simp add: CombineMiddleware_def combine_loop_around)

lemma wrap_with_simps [simp]: "wrap_with None h = h" "wrap_with (Some m) h = m h"
  by (simp_all add: wrap_with_def)

lemma wrap_add_middleware: "wrap_with (add_middleware f ms) h = wrap_with f (around ms h)"
  by (cases f; cases ms) (simp_all add: add_middleware_def CombineMiddleware_around)

lemma around_eta: "(\<lambda>h. around [] h) = id" "CombineMiddleware m ms = around (m # ms)"
  by (auto simp: CombineMiddleware_around)

section \<open>Routes\<close>

text \<open>Registering a list of routes, in order, with one of the two registration methods.\<close>

fun register :: "(gostring \<Rightarrow> 'x option \<Rightarrow> ('h \<Rightarrow> 'h) list \<Rightarrow> 'm \<Rightarrow> 'm outcome) \<Rightarrow>
    (gostring \<times> 'x option \<times> ('h \<Rightarrow> 'h) list) list \<Rightarrow> 'm \<Rightarrow> 'm outcome" where
  "register handle [] m = Returns m"
| "register handle ((p, h, ms) # rs) m = obind (handle p h ms m) (register handle rs)"

locale routes =
  fixes handle :: "gostring \<Rightarrow> 'x option \<Rightarrow> ('h \<Rightarrow> 'h) list \<Rightarrow> 'm \<Rightarrow> 'm outcome"
    and get :: "'m \<Rightarrow> gostring \<Rightarrow> 'x option"
    and getmw :: "'m \<Rightarrow> gostring \<Rightarrow> ('h \<Rightarrow> 'h) option"
    and ok :: "'m \<Rightarrow> bool"
  assumes handle_ok: "ok m \<Longrightarrow> \<exists>m'. handle p h ms m = Returns m' \<and> ok m' \<and>
      get m' = (get m)(p := h) \<and>
      getmw m' = (if ms = [] then getmw m else (getmw m)(p \<mapsto> around ms))"
begin

text \<open>After any registrations: the last handler of a path, the last middleware given for it.\<close>

lemma register_get:
  "ok m \<Longrightarrow> \<exists>m'. register handle rs m = Returns m' \<and> ok m' \<and>
     get m' = fold (\<lambda>(p, h, ms) f. f(p := h)) rs (get m) \<and>
     getmw m' = fold (\<lambda>(p, h, ms) f. if ms = [] then f else f(p \<mapsto> around ms)) rs (getmw m)"
proof (induction rs arbitrary: m)
  case (Cons r rs)
  obtain p h ms where r: "r = (p, h, ms)" by (cases r)
  obtain m1 where m1: "handle p h ms m = Returns m1" "ok m1" "get m1 = (get m)(p := h)"
    "getmw m1 = (if ms = [] then getmw m else (getmw m)(p \<mapsto> around ms))"
    using handle_ok [OF Cons.prems, of p h ms] by blast
  from Cons.IH [OF m1(2)] m1 show ?case by (simp add: r)
qed simp

end

lemma map_store_Some [simp]: "map_store k v (Some f) = Returns (Some (f(k := v)))"
  and map_store_None [simp]: "map_store k v None = Panics NilMapWrite"
  and map_load_Some [simp]: "map_load (Some f) = f"
  and map_load_None [simp]: "map_load None k = None"
  by (simp_all add: map_store_def map_load_def fun_eq_iff)

text \<open>A multiplexer made by \<open>NewMapMux\<close> has all four maps.\<close>

definition made :: "('h, 'g) mapmux \<Rightarrow> bool" where
  "made mm \<longleftrightarrow> handlers mm \<noteq> None \<and> middlewares mm \<noteq> None \<and>
     streamMiddlewares mm \<noteq> None \<and> streamHandlers mm \<noteq> None"

lemma get_eta:
  "GetHandler mm = map_load (handlers mm)" "GetMiddlewareFor mm = map_load (middlewares mm)"
  "GetStreamHandler mm = map_load (streamHandlers mm)"
  "GetStreamMiddlewareFor mm = map_load (streamMiddlewares mm)"
  by (simp_all add: fun_eq_iff GetHandler_def GetMiddlewareFor_def GetStreamHandler_def
      GetStreamMiddlewareFor_def)

interpretation regular: routes Handle GetHandler GetMiddlewareFor made
  by unfold_locales
    (auto simp: Handle_def made_def get_eta around_eta split: list.split)

interpretation streaming: routes HandleStream GetStreamHandler GetStreamMiddlewareFor made
  by unfold_locales
    (auto simp: HandleStream_def made_def get_eta around_eta split: list.split)

lemma made_NewMapMux [simp]: "made NewMapMux"
  by (simp add: made_def NewMapMux_def)

lemma fold_routes:
  "fold (\<lambda>(p, h, ms) f. f(p := h)) rs f p =
     (case map_of (rev rs) p of None \<Rightarrow> f p | Some (h, ms) \<Rightarrow> h)"
  by (induction rs arbitrary: f) (auto simp: map_add_def split: option.splits)

lemma HandleStream_frame:
  "HandleStream p h ms m = Returns m' \<Longrightarrow> handlers m' = handlers m \<and> middlewares m' = middlewares m"
  by (auto simp: HandleStream_def outcome_simps split: list.splits)

lemma register_stream_frame:
  "register HandleStream rs m = Returns m' \<Longrightarrow>
     handlers m' = handlers m \<and> middlewares m' = middlewares m"
proof (induction rs arbitrary: m)
  case (Cons r rs)
  then show ?case
    by (cases r) (auto simp: outcome_simps dest: HandleStream_frame)
qed simp

lemma NewMapMux_get [simp]:
  "GetHandler NewMapMux p = None" "GetMiddlewareFor NewMapMux p = None"
  "GetStreamHandler NewMapMux p = None" "GetStreamMiddlewareFor NewMapMux p = None"
  by (simp_all add: get_eta NewMapMux_def)

section \<open>Properties\<close>

text \<open>Registration and lookup.  Registering any list of routes with a new \<open>MapMux\<close> does not
  panic; afterwards a path has the handler registered for it last, and no other path has one.\<close>

theorem register_routes:
  "\<exists>mm. register Handle rs (NewMapMux :: ('h, 'g) mapmux) = Returns mm \<and>
     (\<forall>p. GetHandler mm p = (case map_of (rev rs) p of None \<Rightarrow> None | Some (h, ms) \<Rightarrow> h))"
  using regular.register_get [OF made_NewMapMux [where 'a = 'h and 'b = 'g], of rs] by (auto simp: fold_routes split: option.splits)

text \<open>Stream routes, the same way; and the two kinds do not touch each other: registering
  stream routes leaves every regular handler and middleware in place.\<close>

theorem register_stream_routes:
  "\<exists>mm. register HandleStream rs (NewMapMux :: ('h, 'g) mapmux) = Returns mm \<and>
     (\<forall>p. GetStreamHandler mm p = (case map_of (rev rs) p of None \<Rightarrow> None | Some (h, ms) \<Rightarrow> h)) \<and>
     (\<forall>p. GetHandler mm p = None \<and> GetMiddlewareFor mm p = None)"
proof -
  obtain mm where mm: "register HandleStream rs (NewMapMux :: ('h, 'g) mapmux) = Returns mm"
    "GetStreamHandler mm = fold (\<lambda>(p, h, ms) f. f(p := h)) rs (GetStreamHandler (NewMapMux :: ('h, 'g) mapmux))"
    using streaming.register_get [OF made_NewMapMux [where 'a = 'h and 'b = 'g], of rs]
    by (elim exE conjE) (rule that)
  moreover have "GetHandler mm p = None \<and> GetMiddlewareFor mm p = None" for p
    using register_stream_frame [OF mm(1)] by (simp add: get_eta NewMapMux_def)
  ultimately show ?thesis by (simp add: fold_routes split: option.splits)
qed

text \<open>The handler the server calls.  After any calls that add global, regular and path
  middleware, it is the registered handler inside all of them: first the global ones in the order
  they were added, then the regular ones, then those of the path.\<close>

theorem chain_order:
  "\<exists>mm. Handle p (Some h) ps (Middleware rs' (Middleware rs (GlobalMiddleware gs' (GlobalMiddleware gs
       (NewMapMux :: ('h, 'g) mapmux))))) = Returns mm \<and>
     GetHandler mm p = Some h \<and>
     chain_handler (MapMux_mux mm) p h = around (gs @ gs' @ rs @ rs' @ ps) h"
proof -
  let ?m = "Middleware rs' (Middleware rs (GlobalMiddleware gs' (GlobalMiddleware gs
       (NewMapMux :: ('h, 'g) mapmux))))"
  have "made ?m" by (simp add: made_def Middleware_def GlobalMiddleware_def NewMapMux_def)
  from regular.handle_ok [OF this, of p "Some h" ps] obtain mm where
    mm: "Handle p (Some h) ps ?m = Returns mm" "GetHandler mm p = Some h"
      "GetMiddlewareFor mm p = (if ps = [] then GetMiddlewareFor ?m p else Some (around ps))"
    by auto
  have "globalMiddleware mm = globalMiddleware ?m" "middleware mm = middleware ?m"
    using mm(1) by (auto simp: Handle_def outcome_simps split: list.splits)
  then show ?thesis
    using mm by (auto simp: chain_handler_def MapMux_mux_def Middleware_def GlobalMiddleware_def
        wrap_add_middleware get_eta NewMapMux_def)
qed

text \<open>Replacing a handler without giving middleware keeps the middleware of the handler that
  was replaced.\<close>

theorem Handle_keeps_middleware:
  "\<exists>mm. register Handle [(p, Some h, m # ms), (p, h', [])] NewMapMux = Returns mm \<and>
     GetHandler mm p = h' \<and> GetMiddlewareFor mm p = Some (around (m # ms))"
  using regular.register_get [OF made_NewMapMux, of "[(p, Some h, m # ms), (p, h', [])]"]
  by auto

text \<open>A \<open>MapMux\<close> that was not made by \<open>NewMapMux\<close> can be asked for any path, but registering a
  handler with it panics.\<close>

theorem zero_MapMux:
  "GetHandler (mm\<lparr>handlers := None\<rparr>) p = None \<and>
   Handle p h [] (mm\<lparr>handlers := None\<rparr>) = Panics NilMapWrite"
  by (simp add: Handle_def GetHandler_def)

end
