(* ===== verification/ServerGo.thy ===== *)
theory ServerGo
  imports ClientGo MuxGo
begin

text \<open>
  \<open>go/server.go\<close>: the server's side of a connection, and its HTTP entry point.

  \<^item> A handler turns a request and a response into the changed request and response.  The
    goroutine that runs it is a \<open>task\<close>: \<open>handleReq\<close> appends one to the connection's tasks, and
    \<open>task_run\<close> is its body, which runs at any later time.  A stream handler is a value of an
    unspecified type \<open>'g\<close>; \<open>handled\<close> records which were started on which stream.
  \<^item> The connection's \<open>streams\<close> map holds indices into the list of allocated streams.
  \<^item> \<open>server_frame\<close> is one round of \<open>handleServerConn\<close>, \<open>server_loop\<close> the loop.  The pooled buffers
    are the local variables they are used as.
  \<^item> The source computes lengths in 64-bit signed integers; \<open>wrap64\<close> is where it can overflow.
\<close>

section \<open>The server\<close>

definition DefaultMaxBodyLen :: int where "DefaultMaxBodyLen = 2 ^ 22"
definition DefaultMaxStreamBodyLen :: int where "DefaultMaxStreamBodyLen = 2 ^ 16"

definition initialBytes :: bytes where
  "initialBytes = [0, 0, 0, 0, 0, 1, 5] @ lit ''jtrpc''"

type_synonym 'v handler = "'v request \<times> ('v, nat) response \<Rightarrow> 'v request \<times> ('v, nat) response"

definition noopHandler :: "'v handler" where
  "noopHandler = (\<lambda>x. x)"

record ('v, 'g) server =
  Mux :: "('v handler, 'g) mux"
  MaxBodyLen :: int
  MaxStreamBodyLen :: int

definition NewServer :: "('v, 'g) server" where
  "NewServer = \<lparr>Mux = MapMux_mux NewMapMux, MaxBodyLen = DefaultMaxBodyLen,
     MaxStreamBodyLen = DefaultMaxStreamBodyLen\<rparr>"

text \<open>What \<open>Serve\<close> does to the limits before it accepts connections.\<close>

definition Serve_limits :: "('v, 'g) server \<Rightarrow> ('v, 'g) server" where
  "Serve_limits s =
     s\<lparr>MaxBodyLen := (if MaxBodyLen s = 0 then DefaultMaxBodyLen
                       else if MaxBodyLen s < 0 then 2 ^ 63 - 1 else MaxBodyLen s),
       MaxStreamBodyLen := (if MaxStreamBodyLen s = 0 then DefaultMaxStreamBodyLen
                       else if MaxStreamBodyLen s < 0 then 2 ^ 63 - 1 else MaxStreamBodyLen s)\<rparr>"

section \<open>Connections\<close>

record ('v, 'g) task =
  t_handler :: "'v handler"
  t_req :: "'v request"
  t_resp :: "('v, nat) response"
  t_stream :: "'g option"

record ('v, 'g) serverConn =
  sc_out :: conn_out
  sc_reqs :: "u64 \<rightharpoonup> 'v request"
  sc_streams :: "u64 \<rightharpoonup> nat"
  sc_strs :: "stream list"
  sc_tasks :: "('v, 'g) task list"
  sc_handled :: "(nat \<times> 'g) list"
  sc_closed :: bool

definition newServerConn :: "conn_out \<Rightarrow> ('v, 'g) serverConn" where
  "newServerConn w = \<lparr>sc_out = w, sc_reqs = Map.empty, sc_streams = Map.empty, sc_strs = [],
     sc_tasks = [], sc_handled = [], sc_closed = False\<rparr>"

text \<open>\<open>serverConn.Close\<close>: the streams are closed, in the order \<open>ps\<close>, with their map locked.\<close>

fun close_conn_streams :: "utils \<Rightarrow> nat list \<Rightarrow> ('v, 'g) serverConn \<Rightarrow> ('v, 'g) serverConn outcome" where
  "close_conn_streams U [] c = Returns c"
| "close_conn_streams U (p # ps) c =
     obind (close_stream U True False False (sc_strs c ! p) (dom (sc_streams c)) (sc_out c))
       (\<lambda>(s', ids, w, e). close_conn_streams U ps
          (c\<lparr>sc_strs := (sc_strs c)[p := s'], sc_streams := (sc_streams c) |` ids, sc_out := w\<rparr>))"

definition serverConn_Close :: "utils \<Rightarrow> nat list \<Rightarrow> ('v, 'g) serverConn \<Rightarrow> ('v, 'g) serverConn outcome" where
  "serverConn_Close U ps c = close_conn_streams U ps (c\<lparr>sc_closed := True\<rparr>)"

text \<open>An error that ends the loop of \<open>handleServerConn\<close>.\<close>

datatype conn_error = ConnIO ioerr | ConnStream stream_error

definition wrap64 :: "int \<Rightarrow> int" where
  "wrap64 i = sint (word_of_int i :: u64)"

definition Sprint_int :: "int \<Rightarrow> gostring" where
  "Sprint_int i = (if i < 0 then lit ''-'' @ dec_nat (nat (- i)) else dec_nat (nat i))"

section \<open>Stream messages\<close>

definition tooLargeMsg :: "('v, 'g) server \<Rightarrow> stream \<Rightarrow> message" where
  "tooLargeMsg s st = Message_SetBodyBytes (append8 [] (word_of_int (MaxStreamBodyLen s)))
     \<lparr>m_id = s_reqId st, m_flags = FlagStreamMsg OR MsgFlagTooLarge, m_Body = None\<rparr>"

definition server_handleStreamMsg :: "utils \<Rightarrow> ('v, 'g) server \<Rightarrow> nat \<Rightarrow> byte \<Rightarrow>
    ('v, 'g) serverConn \<Rightarrow> bytes \<Rightarrow> (('v, 'g) serverConn \<times> bytes \<times> conn_error option) outcome" where
  "server_handleStreamMsg U s p flags c r =
     (let st = sc_strs c ! p in
      case CopyN 8 r of
        (b, r1, Some e) \<Rightarrow> Returns (c, r1, Some (ConnIO e))
      | (b, r1, None) \<Rightarrow>
          let msgLen = sint (u64_at 0 b)
          in if hasCloseFlag flags
             then
               let msg = \<lparr>m_id = s_reqId st, m_flags = flags, m_Body = None\<rparr>;
                   finish = (\<lambda>msg c r err.
                     obind (closeWithMsgRecvd U False False msg st (dom (sc_streams c)) (sc_out c))
                       (\<lambda>(st', ids, w, e). Returns (c\<lparr>sc_strs := (sc_strs c)[p := st'],
                          sc_streams := (sc_streams c) |` ids, sc_out := w\<rparr>, r, err)))
               in if msgLen \<noteq> 0
                  then if msgLen > MaxStreamBodyLen s
                       then obind (Stream_Send U False (tooLargeMsg s st) st (sc_out c)) (\<lambda>(w, se).
                              case CopyN msgLen r1 of
                                (x, r2, e) \<Rightarrow> finish msg (c\<lparr>sc_out := w\<rparr>) r2 (map_option ConnIO e))
                       else (case CopyN msgLen r1 of
                               (b, r2, Some e) \<Rightarrow> Returns (c, r2, Some (ConnIO e))
                             | (b, r2, None) \<Rightarrow>
                                 finish (msg\<lparr>m_Body := Some (CloneSlice U b)\<rparr>) c r2 None)
                  else finish msg c r1 None
             else if msgLen > MaxStreamBodyLen s
             then obind (Stream_Send U False (tooLargeMsg s st) st (sc_out c)) (\<lambda>(w, se).
                    case CopyN msgLen r1 of
                      (x, r2, e) \<Rightarrow> Returns (c\<lparr>sc_out := w\<rparr>, r2, map_option ConnIO e))
             else (case CopyN msgLen r1 of
                     (b, r2, Some e) \<Rightarrow> Returns (c, r2, Some (ConnIO e))
                   | (b, r2, None) \<Rightarrow>
                       obind (addMsg \<lparr>m_id = s_reqId st, m_flags = flags,
                                       m_Body = Some (CloneSlice U b)\<rparr> st)
                         (\<lambda>(st', e). Returns (c\<lparr>sc_strs := (sc_strs c)[p := st']\<rparr>, r2,
                            map_option ConnStream e))))"

section \<open>Requests\<close>

definition server_handleReq :: "utils \<Rightarrow> ('v, 'g) server \<Rightarrow> gostring \<Rightarrow> u64 \<Rightarrow> byte \<Rightarrow>
    ('v, 'g) serverConn \<Rightarrow> bytes \<Rightarrow> ('v, 'g) serverConn \<times> bytes \<times> conn_error option" where
  "server_handleReq U s remoteAddr i flags c r =
     (let hasStream = hasStreamFlag flags in
      case CopyN 12 r of
        (b, r1, Some e) \<Rightarrow> (c, r1, Some (ConnIO e))
      | (b, r1, None) \<Rightarrow>
          let pathLen = int (unat (u16_at 0 b));
              headersLen = int (unat (u16_at 2 b));
              bodyLen = sint (u64_at 4 b);
              discard = (\<lambda>n w r. case CopyN n r of
                (x, r', e) \<Rightarrow> (c\<lparr>sc_out := w\<rparr>, r', map_option ConnIO e))
          in if bodyLen > MaxBodyLen s
             then (case writeRespMsg U i StatusBodyTooLarge (Sprint_int bodyLen) (sc_out c) of
                     (w, n, e) \<Rightarrow> discard (wrap64 (bodyLen + (pathLen + headersLen))) w r1)
             else
               case CopyN pathLen r1 of
                 (p, r2, Some e) \<Rightarrow> (c, r2, Some (ConnIO e))
               | (path, r2, None) \<Rightarrow>
                   let reject = (\<lambda>status.
                         case writeResp U i status (sc_out c) of
                           (w, n, e) \<Rightarrow> discard (wrap64 (headersLen + bodyLen)) w r2);
                       accept = (\<lambda>handler respFlags sh.
                         case CopyN headersLen r2 of
                           (h, r3, Some e) \<Rightarrow> (c, r3, Some (ConnIO e))
                         | (headerBytes, r3, None) \<Rightarrow>
                             (case CopyN bodyLen r3 of
                                (b, r4, Some e) \<Rightarrow> (c, r4, Some (ConnIO e))
                              | (body, r4, None) \<Rightarrow>
                                  let req = (newRequest i remoteAddr flags path (CloneSlice U headerBytes))
                                              \<lparr>rq_Body := Some body\<rparr>;
                                      resp = newResponse i respFlags (Some req)
                                  in (c\<lparr>sc_reqs := (sc_reqs c)(rq_id req \<mapsto> req),
                                        sc_tasks := sc_tasks c @ [\<lparr>t_handler = handler, t_req = req,
                                          t_resp = resp, t_stream = sh\<rparr>]\<rparr>, r4, None)))
                   in if hasStream
                      then (case getStreamHandler (Mux s) path of
                              Some sh \<Rightarrow> accept (chain_stream (Mux s) path noopHandler) flags (Some sh)
                            | None \<Rightarrow>
                                (case getHandler (Mux s) path of
                                   Some h \<Rightarrow> reject StatusNotStream
                                 | None \<Rightarrow> reject StatusNotFound))
                      else (case getHandler (Mux s) path of
                              None \<Rightarrow> reject StatusNotFound
                            | Some h \<Rightarrow> accept (chain_handler (Mux s) path h) 0 None))"

text \<open>The goroutine of a request.\<close>

definition task_run :: "utils \<Rightarrow> kvlist \<Rightarrow> ('v, 'g) task \<Rightarrow> ('v, 'g) serverConn \<Rightarrow> ('v, 'g) serverConn" where
  "task_run U kvs t c =
     (case t_handler t (t_req t, t_resp t) of
        (req, resp) \<Rightarrow>
          let c = c\<lparr>sc_reqs := (sc_reqs c)(rq_id req := None)\<rparr>
          in case Response_WriteTo U kvs resp (sc_out c) of
               (resp', w, n, e) \<Rightarrow>
                 let c = c\<lparr>sc_out := w\<rparr>
                 in case t_stream t of
                      None \<Rightarrow> c
                    | Some sh \<Rightarrow>
                        if StatusCode resp' = StatusOK \<and> e = None
                        then c\<lparr>sc_strs := sc_strs c @ [newStream (rq_id req)],
                               sc_streams := (sc_streams c)(rq_id req \<mapsto> length (sc_strs c)),
                               sc_handled := sc_handled c @ [(length (sc_strs c), sh)]\<rparr>
                        else c)"

section \<open>The loop\<close>

definition server_frame :: "utils \<Rightarrow> ('v, 'g) server \<Rightarrow> gostring \<Rightarrow> ('v, 'g) serverConn \<Rightarrow> bytes \<Rightarrow>
    (('v, 'g) serverConn \<times> bytes \<times> conn_error option) outcome" where
  "server_frame U s addr c r =
     (case CopyN 9 r of
        (b, r1, Some e) \<Rightarrow> Returns (c, r1, Some (ConnIO e))
      | (b, r1, None) \<Rightarrow>
          let i = u64_at 0 b; flags = b ! 8
          in if \<not> hasStreamMsgFlag flags then Returns (server_handleReq U s addr i flags c r1)
             else case sc_streams c i of
                    None \<Rightarrow>
                      (case Message_WriteTo U \<lparr>m_id = i, m_flags = MsgFlagNotStream, m_Body = None\<rparr> (sc_out c) of
                         (w, n, e) \<Rightarrow> Returns (c\<lparr>sc_out := w\<rparr>, r1, map_option ConnIO e))
                  | Some p \<Rightarrow> server_handleStreamMsg U s p flags c r1)"

text \<open>\<open>handle\<close>: the handshake; \<open>Inr\<close> when the loop of \<open>handleServerConn\<close> follows.  The version bytes
  are read and not looked at.  After a failed write of the answer the connection is left open.\<close>

definition server_handle :: "utils \<Rightarrow> bytes \<Rightarrow> conn_out \<Rightarrow>
    (conn_out \<times> bool) + (('v, 'g) serverConn \<times> bytes)" where
  "server_handle U r w =
     (case ReadFull 14 r of
        Inl e \<Rightarrow> Inl (w, True)
      | Inr (initial, r1) \<Rightarrow>
          if take 12 initial \<noteq> initialBytes
          then (case writeResp U 0 StatusInvalidInitialBytes w of (w', n, e) \<Rightarrow> Inl (w', True))
          else (case writeResp U 0 StatusOK w of
                  (w', n, Some e) \<Rightarrow> Inl (w', False)
                | (w', n, None) \<Rightarrow> Inr (newServerConn w', r1)))"

section \<open>Frames of the client, as the server reads them\<close>

definition request_tail :: "u16 \<Rightarrow> u16 \<Rightarrow> u64 \<Rightarrow> bytes" where
  "request_tail pl hl bl = le_put 2 pl @ le_put 2 hl @ le_put 8 bl"

lemma request_tail_reads [simp]:
  "length (request_tail pl hl bl) = 12" "u16_at 0 (request_tail pl hl bl) = pl"
  "u16_at 2 (request_tail pl hl bl) = hl" "u64_at 4 (request_tail pl hl bl) = bl"
  using u16_at_append [of "[]" 0 pl] u16_at_append [of "le_put 2 pl" 2 hl "le_put 8 bl"]
    u64_at_append [of "le_put 2 pl @ le_put 2 hl" 4 bl "[]"]
  by (simp_all add: request_tail_def)

lemma request_frame_split:
  "request_frame (kvs, r) = frame_start (rq_id r) (Flags r) @
     request_tail (of_nat (length (Path r))) (of_nat (length (hdr_out kvs (rq_Headers r))))
       (of_nat (length (body_out (rq_Body r)))) @
     Path r @ hdr_out kvs (rq_Headers r) @ body_out (rq_Body r)"
  by (simp add: request_frame_def request_bytes_def request_head_def frame_start_def request_tail_def)

lemma server_frame_start:
  "server_frame U s addr c (frame_start i fl @ r) =
     (if \<not> hasStreamMsgFlag fl then Returns (server_handleReq U s addr i fl c r)
      else case sc_streams c i of
             None \<Rightarrow>
               (case Message_WriteTo U \<lparr>m_id = i, m_flags = MsgFlagNotStream, m_Body = None\<rparr> (sc_out c) of
                  (w, n, e) \<Rightarrow> Returns (c\<lparr>sc_out := w\<rparr>, r, map_option ConnIO e))
           | Some p \<Rightarrow> server_handleStreamMsg U s p fl c r)"
proof -
  have "CopyN 9 (frame_start i fl @ r) = (frame_start i fl, r, None)" by simp
  then show ?thesis by (simp add: server_frame_def Let_def split: option.split)
qed

text \<open>What a request is answered with: an error status, or a handler, the flags of its response,
  and the stream handler to start.\<close>

definition route :: "('v, 'g) server \<Rightarrow> byte \<Rightarrow> gostring \<Rightarrow> byte + ('v handler \<times> byte \<times> 'g option)" where
  "route s fl path =
     (if hasStreamFlag fl
      then (case getStreamHandler (Mux s) path of
              Some sh \<Rightarrow> Inr (chain_stream (Mux s) path noopHandler, fl, Some sh)
            | None \<Rightarrow> Inl (if getHandler (Mux s) path = None then StatusNotFound else StatusNotStream))
      else (case getHandler (Mux s) path of
              None \<Rightarrow> Inl StatusNotFound
            | Some h \<Rightarrow> Inr (chain_handler (Mux s) path h, 0, None)))"

definition served_request :: "u64 \<Rightarrow> gostring \<Rightarrow> byte \<Rightarrow> gostring \<Rightarrow> bytes \<Rightarrow> bytes \<Rightarrow> 'v request" where
  "served_request i addr fl path h b = (newRequest i addr fl path h)\<lparr>rq_Body := Some b\<rparr>"

definition accepted :: "'v handler \<times> byte \<times> 'g option \<Rightarrow> 'v request \<Rightarrow> ('v, 'g) serverConn \<Rightarrow>
    ('v, 'g) serverConn" where
  "accepted x req c = (case x of (h, rf, sh) \<Rightarrow>
     c\<lparr>sc_reqs := (sc_reqs c)(rq_id req \<mapsto> req),
       sc_tasks := sc_tasks c @ [\<lparr>t_handler = h, t_req = req,
         t_resp = newResponse (rq_id req) rf (Some req), t_stream = sh\<rparr>]\<rparr>)"

lemma wrap64_small: "0 \<le> i \<Longrightarrow> i < 2 ^ 63 \<Longrightarrow> wrap64 i = i"
  by (simp add: wrap64_def signed_of_int signed_take_bit_int_eq_self)

lemma server_handleReq_frame:
  assumes U: "utils_contract U"
    and l: "length path < 2 ^ 16" "length h < 2 ^ 16" "length b < 2 ^ 62"
  shows "server_handleReq U s addr i fl c
      (request_tail (of_nat (length path)) (of_nat (length h)) (of_nat (length b)) @ path @ h @ b @ rest) =
    (if int (length b) > MaxBodyLen s
     then (c\<lparr>sc_out := fst (writeRespMsg U i StatusBodyTooLarge (Sprint_int (int (length b))) (sc_out c))\<rparr>, rest, None)
     else case route s fl path of
       Inl st \<Rightarrow> (c\<lparr>sc_out := fst (writeResp U i st (sc_out c))\<rparr>, rest, None)
     | Inr x \<Rightarrow> (accepted x (served_request i addr fl path h b) c, rest, None))"
proof -
  let ?t = "request_tail (of_nat (length path)) (of_nat (length h)) (of_nat (length b))"
  have t: "CopyN 12 (?t @ path @ h @ b @ rest) = (?t, path @ h @ b @ rest, None)"
    by simp
  have n: "unat (of_nat (length path) :: u16) = length path" "unat (of_nat (length h) :: u16) = length h"
    "sint (of_nat (length b) :: u64) = int (length b)"
    using l by (simp_all add: sint64_of_nat)
  have w1: "wrap64 (int (length b) + (int (length path) + int (length h))) =
      int (length (path @ h @ b))"
    using l by (subst wrap64_small) auto
  have w2: "wrap64 (int (length h) + int (length b)) = int (length (h @ b))"
    using l by (subst wrap64_small) auto
  have c1: "CopyN (int (length (path @ h @ b))) (path @ h @ b @ rest) = (path @ h @ b, rest, None)"
    using CopyN_append [OF refl, of "path @ h @ b" rest] by simp
  have c2: "CopyN (int (length (h @ b))) (h @ b @ rest) = (h @ b, rest, None)"
    using CopyN_append [OF refl, of "h @ b" rest] by simp
  show ?thesis
    unfolding server_handleReq_def Let_def t prod.case option.case request_tail_reads n w1 w2 c1 c2
      CopyN_append [OF refl]
    using utils_CloneSlice [OF U]
    by (auto simp: route_def accepted_def served_request_def newRequest_def split: option.split prod.split)
qed

section \<open>A connection and the users of its streams\<close>

text \<open>
  The threads of a connection: its loop, the tasks, and the users of its streams, one operation
  at a time.  \<open>conn_step\<close> is any of them; it is not told what arrives on the connection.
\<close>

inductive conn_step :: "utils \<Rightarrow> ('v, 'g) server \<Rightarrow> ('v, 'g) serverConn \<Rightarrow> ('v, 'g) serverConn \<Rightarrow> bool"
  for U s where
  cs_frame: "server_frame U s addr c r = Returns (c', r', e) \<Longrightarrow> conn_step U s c c'"
| cs_task: "i < length (sc_tasks c) \<Longrightarrow>
    conn_step U s c (task_run U kvs (sc_tasks c ! i)
      (c\<lparr>sc_tasks := take i (sc_tasks c) @ drop (Suc i) (sc_tasks c)\<rparr>))"
| cs_recv: "p < length (sc_strs c) \<Longrightarrow> Recv now None (sc_strs c ! p) = Returns (st', res) \<Longrightarrow>
    conn_step U s c (c\<lparr>sc_strs := (sc_strs c)[p := st']\<rparr>)"
| cs_deadline: "p < length (sc_strs c) \<Longrightarrow>
    conn_step U s c (c\<lparr>sc_strs := (sc_strs c)[p := SetRecvDeadline t (sc_strs c ! p)]\<rparr>)"
| cs_send: "p < length (sc_strs c) \<Longrightarrow> Stream_Send U False m (sc_strs c ! p) (sc_out c) = Returns (w, e) \<Longrightarrow>
    conn_step U s c (c\<lparr>sc_out := w\<rparr>)"
| cs_close: "p < length (sc_strs c) \<Longrightarrow>
    CloseWithMessage U False False m (sc_strs c ! p) (dom (sc_streams c)) (sc_out c) = Returns (st', ids, w, e) \<Longrightarrow>
    conn_step U s c (c\<lparr>sc_strs := (sc_strs c)[p := st'], sc_streams := (sc_streams c) |` ids, sc_out := w\<rparr>)"

inductive conn_reach :: "utils \<Rightarrow> ('v, 'g) server \<Rightarrow> ('v, 'g) serverConn \<Rightarrow> bool" for U s where
  conn_start: "conn_reach U s (newServerConn w)"
| conn_next: "conn_reach U s c \<Longrightarrow> conn_step U s c c' \<Longrightarrow> conn_reach U s c'"

text \<open>The invariant: every stream's overflow list is used only while its channel is full; a
  registered pointer leads to an open stream with the id it is registered under.\<close>

definition stream_inv :: "stream \<Rightarrow> bool" where
  "stream_inv st \<longleftrightarrow> chan_closed st = isClosed st \<and>
     (\<not> isClosed st \<longrightarrow> length (msgChan st) \<le> chan_cap \<and>
        (msgBuffer st \<noteq> [] \<longrightarrow> length (msgChan st) = chan_cap))"

definition conn_ok :: "('v, 'g) serverConn \<Rightarrow> bool" where
  "conn_ok c \<longleftrightarrow> list_all stream_inv (sc_strs c) \<and>
     (\<forall>i p. sc_streams c i = Some p \<longrightarrow>
        p < length (sc_strs c) \<and> s_reqId (sc_strs c ! p) = i \<and> \<not> isClosed (sc_strs c ! p))"

lemma conn_okD:
  "conn_ok c \<Longrightarrow> sc_streams c i = Some p \<Longrightarrow>
     p < length (sc_strs c) \<and> s_reqId (sc_strs c ! p) = i \<and> \<not> isClosed (sc_strs c ! p)"
  "conn_ok c \<Longrightarrow> p < length (sc_strs c) \<Longrightarrow> stream_inv (sc_strs c ! p)"
  by (auto simp: conn_ok_def list_all_length)

lemma addMsg_inv:
  assumes "stream_inv st" and "\<not> isClosed st"
  shows "\<exists>st'. addMsg m st = Returns (st', None) \<and> stream_inv st' \<and> s_reqId st' = s_reqId st \<and>
    \<not> isClosed st' \<and> stream_contents st' = stream_contents st @ [m]"
proof (cases "msgBuffer st")
  case Nil
  then show ?thesis
    using assms by (auto simp: addMsg_def add_locked_def stream_inv_def stream_contents_def)
next
  case (Cons x r)
  then have "addMsg m st = Returns (st\<lparr>msgBuffer := msgBuffer st @ [m]\<rparr>, None)"
    using assms by (simp add: addMsg_def add_locked_def stream_inv_def add_loop_full)
  then show ?thesis
    using assms Cons by (auto simp: stream_inv_def stream_contents_def)
qed

lemma Recv_inv:
  "stream_inv st \<Longrightarrow> Recv now None st = Returns (st', res) \<Longrightarrow>
     stream_inv st' \<and> s_reqId st' = s_reqId st \<and> isClosed st' = isClosed st"
  by (auto simp: Recv_def chan_recv_def after_recv_def moveMsg_def stream_inv_def outcome_simps
      split: list.splits if_splits option.splits)

lemma close_inv:
  assumes "stream_inv st" and "\<not> isClosed st"
  shows "\<exists>st' w' e. closeWithMessage U False False b m m' st ids w = Returns (st', ids - {s_reqId st}, w', e) \<and>
    stream_inv st' \<and> s_reqId st' = s_reqId st \<and> isClosed st' \<and> (b \<or> w' = w)"
  using assms
  by (auto simp: closeWithMessage_def send_msg_def Let_def stream_inv_def split: prod.split option.split)

lemma list_all_update: "list_all P xs \<Longrightarrow> P x \<Longrightarrow> list_all P (xs[p := x])"
  by (auto simp: list_all_iff dest: set_update_subset_insert [THEN subsetD])

lemma nth_list_update_in: "j < length xs \<Longrightarrow> xs[p := x] ! j = (if p = j then x else xs ! j)"
  by (cases "p = j") auto

text \<open>Replacing a stream by one with the same id that is open if it was.\<close>

lemma conn_ok_update:
  assumes "conn_ok c" "stream_inv st'" "s_reqId st' = s_reqId (sc_strs c ! p)"
    "isClosed st' = isClosed (sc_strs c ! p)"
  shows "conn_ok (c\<lparr>sc_strs := (sc_strs c)[p := st']\<rparr>)"
  using assms unfolding conn_ok_def
  by (auto simp: list_all_update nth_list_update_in)

text \<open>Closing a stream and removing its id.\<close>

lemma conn_ok_close:
  assumes "conn_ok c" "stream_inv st'" "s_reqId st' = s_reqId (sc_strs c ! p)" "p < length (sc_strs c)"
  shows "conn_ok (c\<lparr>sc_strs := (sc_strs c)[p := st'],
    sc_streams := (sc_streams c) |` (dom (sc_streams c) - {s_reqId (sc_strs c ! p)}), sc_out := w\<rparr>)"
  using assms unfolding conn_ok_def
  by (auto simp: list_all_update nth_list_update restrict_map_def split: if_splits)

lemma conn_ok_frame:
  "sc_strs c' = sc_strs c \<Longrightarrow> sc_streams c' = sc_streams c \<Longrightarrow> conn_ok c' = conn_ok c"
  by (simp add: conn_ok_def)

lemma server_handleReq_streams:
  "server_handleReq U s addr i fl c r = (c', r', e) \<Longrightarrow>
     sc_strs c' = sc_strs c \<and> sc_streams c' = sc_streams c"
  unfolding server_handleReq_def Let_def
  by (auto split: prod.splits option.splits if_splits)

lemma Stream_Send_no_lock: "\<exists>w' e. Stream_Send U False m st w = Returns (w', e)"
  by (auto simp: Stream_Send_def send_msg_def split: prod.split)

text \<open>What a message frame for a registered stream does.\<close>

lemma server_handleStreamMsg_ok:
  assumes ok: "conn_ok c" and p: "sc_streams c i = Some p"
  shows "\<exists>c' r' e. server_handleStreamMsg U s p fl c r = Returns (c', r', e) \<and> conn_ok c'"
proof -
  let ?st = "sc_strs c ! p"
  have st: "p < length (sc_strs c)" "\<not> isClosed ?st" "stream_inv ?st"
    using conn_okD(1) [OF ok p] conn_okD(2) [OF ok] by auto
  have cl: "\<exists>c' r' e'. obind (closeWithMsgRecvd U False False m ?st (dom (sc_streams c)) w)
      (\<lambda>(st', ids, w, e). Returns (c\<lparr>sc_strs := (sc_strs c)[p := st'],
         sc_streams := (sc_streams c) |` ids, sc_out := w\<rparr>, r2, err)) = Returns (c', r', e') \<and> conn_ok c'"
    for m w r2 err
  proof -
    obtain st' w' e where c: "closeWithMsgRecvd U False False m ?st (dom (sc_streams c)) w =
        Returns (st', dom (sc_streams c) - {s_reqId ?st}, w', e)"
      "stream_inv st'" "s_reqId st' = s_reqId ?st"
      using close_inv [OF st(3,2)] unfolding closeWithMsgRecvd_def by blast
    show ?thesis using c conn_ok_close [OF ok c(2,3) st(1), of w'] by simp
  qed
  have ad: "\<exists>c' r' e'. obind (addMsg m ?st) (\<lambda>(st', e). Returns (c\<lparr>sc_strs := (sc_strs c)[p := st']\<rparr>, r2,
      map_option ConnStream e)) = Returns (c', r', e') \<and> conn_ok c'" for m r2
  proof -
    obtain st' where a: "addMsg m ?st = Returns (st', None)" "stream_inv st'" "s_reqId st' = s_reqId ?st"
      "\<not> isClosed st'"
      using addMsg_inv [OF st(3,2)] by blast
    show ?thesis using a conn_ok_update [OF ok a(2,3)] st(2) by simp
  qed
  have ow: "conn_ok (c\<lparr>sc_out := w\<rparr>)" for w
    using ok by (simp add: conn_ok_def)
  obtain w1 e1 where snd1: "Stream_Send U False (tooLargeMsg s ?st) ?st (sc_out c) = Returns (w1, e1)"
    using Stream_Send_no_lock by blast
  show ?thesis
    unfolding server_handleStreamMsg_def Let_def snd1 obind.simps
    using cl ad ow ok
    by (auto split: prod.split option.split)
qed

lemma server_frame_ok:
  assumes "conn_ok c"
  shows "\<exists>c' r' e. server_frame U s addr c r = Returns (c', r', e) \<and> conn_ok c'"
proof -
  obtain b r1 e1 where f: "CopyN 9 r = (b, r1, e1)" by (cases "CopyN 9 r")
  have rq: "\<exists>c' r' e. server_handleReq U s addr i fl c r1 = (c', r', e) \<and> conn_ok c'" for i fl
    using server_handleReq_streams [of U s addr i fl c r1] assms conn_ok_frame
    by (metis prod_cases3)
  have ow: "conn_ok (c\<lparr>sc_out := w\<rparr>)" for w
    using assms by (simp add: conn_ok_def)
  show ?thesis
  proof (cases e1)
    case (Some x)
    then show ?thesis using f assms by (simp add: server_frame_def)
  next
    case None
    show ?thesis
    proof (cases "hasStreamMsgFlag (b ! 8)")
      case False
      then show ?thesis using f None rq [of "u64_at 0 b" "b ! 8"]
        by (auto simp: server_frame_def Let_def)
    next
      case True
      then show ?thesis
        using f None ow server_handleStreamMsg_ok [OF assms, of "u64_at 0 b" _ U s "b ! 8" r1]
        by (cases "sc_streams c (u64_at 0 b)")
          (auto simp: server_frame_def Let_def split: prod.split)
    qed
  qed
qed

lemma task_run_ok:
  assumes "conn_ok c"
  shows "conn_ok (task_run U kvs t c)"
proof -
  have n: "conn_ok (c\<lparr>sc_reqs := q, sc_out := w, sc_strs := sc_strs c @ [newStream i],
      sc_streams := (sc_streams c)(i \<mapsto> length (sc_strs c)), sc_handled := h\<rparr>)" for q w i h
    using assms unfolding conn_ok_def
    by (auto simp: nth_append stream_inv_def newStream_def less_SucI)
  have o: "conn_ok (c\<lparr>sc_reqs := q, sc_out := w\<rparr>)" for q w
    using assms by (simp add: conn_ok_def)
  show ?thesis
    using n o by (auto simp: task_run_def Let_def split: prod.split option.split)
qed

lemma conn_step_ok: "conn_step U s c c' \<Longrightarrow> conn_ok c \<Longrightarrow> conn_ok c'"
proof (induction rule: conn_step.induct)
  case (cs_frame addr c r c' r' e)
  then show ?case using server_frame_ok [of c U s addr r] by auto
next
  case (cs_task i c kvs)
  then have "conn_ok (c\<lparr>sc_tasks := take i (sc_tasks c) @ drop (Suc i) (sc_tasks c)\<rparr>)"
    by (simp add: conn_ok_def)
  then show ?case by (rule task_run_ok)
next
  case (cs_recv p c now st' res)
  then show ?case using Recv_inv conn_okD(2) conn_ok_update by blast
next
  case (cs_deadline p c t)
  then show ?case
    by (intro conn_ok_update) (auto dest: conn_okD(2) simp: SetRecvDeadline_def stream_inv_def)
next
  case (cs_send p c m w e)
  then show ?case by (simp add: conn_ok_def)
next
  case (cs_close p c m st' ids w e)
  note inv = conn_okD(2) [OF cs_close(3,1)]
  show ?case
  proof (cases "isClosed (sc_strs c ! p)")
    case True
    then have "st' = sc_strs c ! p" "ids = dom (sc_streams c)"
      using cs_close(2) by (auto simp: CloseWithMessage_def closeWithMessage_def)
    then show ?thesis using cs_close(3)
      by (auto simp: conn_ok_def restrict_map_def)
  next
    case False
    then show ?thesis
      using close_inv [OF inv, of U True m zeroMessage "dom (sc_streams c)" "sc_out c"] cs_close
        conn_ok_close [OF cs_close(3) _ _ cs_close(1), of st' w]
      by (auto simp: CloseWithMessage_def)
  qed
qed

lemma conn_reach_ok: "conn_reach U s c \<Longrightarrow> conn_ok c"
proof (induction rule: conn_reach.induct)
  case (conn_start w)
  show ?case by (simp add: conn_ok_def newServerConn_def)
qed (rule conn_step_ok)

section \<open>The loop ends with its input\<close>

lemma server_handleReq_length:
  assumes "server_handleReq U s addr i fl c r = (c', r', e)"
  shows "length r' \<le> length r"
  using assms unfolding server_handleReq_def Let_def
  by (auto dest!: CopyN_length split: prod.splits option.splits if_splits)

lemma server_handleStreamMsg_length:
  assumes "server_handleStreamMsg U s p fl c r = Returns (c', r', e)"
  shows "length r' \<le> length r"
  using assms unfolding server_handleStreamMsg_def Let_def
  by (auto simp: outcome_simps dest!: CopyN_length split: prod.splits option.splits if_splits)

lemma server_frame_shrinks:
  assumes "server_frame U s addr c r = Returns (c', r', None)"
  shows "length r' < length r"
proof -
  obtain b r1 where f: "CopyN 9 r = (b, r1, None)"
    using assms by (cases "CopyN 9 r") (auto simp: server_frame_def split: option.splits)
  have l: "length r1 < length r" using CopyN_ok [OF f] by auto
  have rq: "length r2 \<le> length r1" if "server_handleReq U s addr i fl c r1 = (c2, r2, e2)" for i fl c2 r2 e2
    using server_handleReq_length [OF that] .
  have sm: "length r2 \<le> length r1"
    if "server_handleStreamMsg U s p fl c r1 = Returns (c2, r2, e2)" for p fl c2 r2 e2
    using server_handleStreamMsg_length [OF that] .
  have "length r' \<le> length r1"
    using assms rq sm unfolding server_frame_def f prod.case option.case Let_def
    by (auto split: if_splits option.splits prod.splits)
  with l show ?thesis by simp
qed

function server_loop :: "utils \<Rightarrow> ('v, 'g) server \<Rightarrow> gostring \<Rightarrow> ('v, 'g) serverConn \<Rightarrow> bytes \<Rightarrow>
    (('v, 'g) serverConn \<times> conn_error) outcome" where
  "server_loop U s addr c r =
     (case server_frame U s addr c r of
        Panics p \<Rightarrow> Panics p
      | Blocks \<Rightarrow> Blocks
      | Returns (c', r', Some e) \<Rightarrow> Returns (c', e)
      | Returns (c', r', None) \<Rightarrow> server_loop U s addr c' r')"
  by pat_completeness auto

termination
  by (relation "measure (\<lambda>(U, s, addr, c, r). length r)") (auto dest: server_frame_shrinks)

declare server_loop.simps [simp del]

text \<open>\<open>handleServerConn\<close>: the loop, then the deferred \<open>Close\<close> with the streams in the order \<open>orders\<close> gives.\<close>

definition handleServerConn :: "utils \<Rightarrow> ('v, 'g) server \<Rightarrow> gostring \<Rightarrow>
    (('v, 'g) serverConn \<Rightarrow> nat list) \<Rightarrow> ('v, 'g) serverConn \<Rightarrow> bytes \<Rightarrow> ('v, 'g) serverConn outcome" where
  "handleServerConn U s addr orders c r =
     obind (server_loop U s addr c r) (\<lambda>(c', e). serverConn_Close U (orders c') c')"

lemma server_loop_end:
  "server_frame U s addr c r = Returns (c1, r1, Some e) \<Longrightarrow> server_loop U s addr c r = Returns (c1, e)"
  by (subst server_loop.simps) simp

lemma server_loop_next:
  "server_frame U s addr c r = Returns (c1, r1, None) \<Longrightarrow> server_loop U s addr c r = server_loop U s addr c1 r1"
  by (subst server_loop.simps) simp

lemma server_loop_ok:
  "conn_ok c \<Longrightarrow> \<exists>c' e. server_loop U s addr c r = Returns (c', e) \<and> conn_ok c'"
proof (induction U s addr c r rule: server_loop.induct)
  case (1 U s addr c r)
  obtain c1 r1 e1 where f: "server_frame U s addr c r = Returns (c1, r1, e1)" "conn_ok c1"
    using server_frame_ok [OF 1(2)] by blast
  show ?case
  proof (cases e1)
    case None
    then show ?thesis
      using 1(1) [of "(c1, r1, e1)" c1 "(r1, e1)" r1 e1] f by (simp add: server_loop_next)
  next
    case (Some e)
    then show ?thesis using f by (simp add: server_loop_end)
  qed
qed

section \<open>Bodies that reach a handler\<close>

definition body_limit :: "('v, 'g) server \<Rightarrow> ('v, 'g) task \<Rightarrow> bool" where
  "body_limit s t \<longleftrightarrow> int (length (body_out (rq_Body (t_req t)))) \<le> max 0 (MaxBodyLen s)"

lemma server_handleReq_limit:
  assumes "list_all (body_limit s) (sc_tasks c)" and "server_handleReq U s addr i fl c r = (c', r', e)"
  shows "list_all (body_limit s) (sc_tasks c')"
proof -
  have l: "int (length b) \<le> max 0 m" if "CopyN n x = (b, y, None)" "n \<le> m" for n x b y m
    using CopyN_ok [OF that(1)] that(2) by auto
  show ?thesis
    using assms unfolding server_handleReq_def Let_def
    by (auto simp: body_limit_def body_out_def dest: l split: prod.splits option.splits if_splits)
qed

lemma server_handleStreamMsg_tasks:
  "server_handleStreamMsg U s p fl c r = Returns (c', r', e) \<Longrightarrow> sc_tasks c' = sc_tasks c"
  unfolding server_handleStreamMsg_def Let_def
  by (auto simp: outcome_simps split: prod.splits option.splits if_splits)

lemma server_frame_limit:
  assumes "list_all (body_limit s) (sc_tasks c)" and "server_frame U s addr c r = Returns (c', r', e)"
  shows "list_all (body_limit s) (sc_tasks c')"
  using assms server_handleReq_limit [OF assms(1)] server_handleStreamMsg_tasks [of U s]
  unfolding server_frame_def Let_def
  by (auto split: prod.splits option.splits if_splits)

lemma server_loop_limit:
  "list_all (body_limit s) (sc_tasks c) \<Longrightarrow> server_loop U s addr c r = Returns (c', e) \<Longrightarrow>
     list_all (body_limit s) (sc_tasks c')"
proof (induction U s addr c r rule: server_loop.induct)
  case (1 U s addr c r)
  show ?case
  proof (cases "server_frame U s addr c r")
    case (Returns x)
    obtain c1 r1 e1 where x: "x = (c1, r1, e1)" by (cases x)
    with Returns have f: "server_frame U s addr c r = Returns (c1, r1, e1)" by simp
    note lim = server_frame_limit [OF 1(2) f]
    show ?thesis
    proof (cases e1)
      case None
      with f 1(3) have "server_loop U s addr c1 r1 = Returns (c', e)" by (simp add: server_loop_next)
      then show ?thesis using 1(1) [of "(c1, r1, e1)" c1 "(r1, e1)" r1 e1] f None lim by simp
    next
      case (Some e2)
      with f 1(3) have "c1 = c'" by (simp add: server_loop_end)
      then show ?thesis using lim by simp
    qed
  qed (use 1(3) in \<open>subst (asm) server_loop.simps, simp\<close>)+
qed

section \<open>Properties\<close>


definition demo_mux :: "(nat handler, nat) mapmux" where
  "demo_mux = NewMapMux\<lparr>handlers := Some [lit ''/a'' \<mapsto> (\<lambda>(req, resp). (req, Response_SetBodyBytes [1, 2] resp))],
     streamHandlers := Some [lit ''/s'' \<mapsto> 5]\<rparr>"

definition demo_server :: "(nat, nat) server" where
  "demo_server = \<lparr>Mux = MapMux_mux demo_mux, MaxBodyLen = 100, MaxStreamBodyLen = 3\<rparr>"

definition demo_conn :: "(nat, nat) serverConn" where
  "demo_conn = newServerConn \<lparr>out = [], room = None\<rparr>"

definition demo_request :: "nat request" where
  "demo_request = SetBodyBytes [9, 8] (NewRequest Background (lit ''/a''))"

lemma demo_request_sel:
  "Flags demo_request = 0" "Path demo_request = lit ''/a''" "hdr_out [] (rq_Headers demo_request) = []"
  "body_out (rq_Body demo_request) = [9, 8]" "length (lit ''/a'') = 2" "\<not> hasStreamMsgFlag 0"
  by (simp_all add: demo_request_def SetBodyBytes_def NewRequest_def hdr_out_def header_bytes_def
      Headers_Encode_def NewHeaders_def body_out_def lit_def hasStreamMsgFlag_def)


text \<open>Body lengths of \<open>2^63\<close> and more.  Such a frame passes the size check whatever the limit is,
  its handler is started with an empty body, and the loop goes on right behind its headers.\<close>

theorem negative_length_accepted:
  assumes "utils_contract U" and "\<not> hasStreamMsgFlag fl" and "length path < 2 ^ 16" and "length h < 2 ^ 16"
    and "sint bl < 0" and "0 \<le> MaxBodyLen s" and "route s fl path = Inr x"
  shows "server_frame U s addr c (frame_start i fl @
      request_tail (of_nat (length path)) (of_nat (length h)) bl @ path @ h @ rest) =
    Returns (accepted x (served_request i addr fl path h []) c, rest, None)"
proof -
  let ?t = "request_tail (of_nat (length path)) (of_nat (length h)) bl"
  have t: "CopyN 12 (?t @ path @ h @ rest) = (?t, path @ h @ rest, None)" by simp
  have n: "unat (of_nat (length path) :: u16) = length path" "unat (of_nat (length h) :: u16) = length h"
    using assms by simp_all
  have "server_handleReq U s addr i fl c (?t @ path @ h @ rest) =
      (accepted x (served_request i addr fl path h []) c, rest, None)"
    unfolding server_handleReq_def Let_def t prod.case option.case request_tail_reads n
      CopyN_append [OF refl]
    using assms(5-7) utils_CloneSlice [OF assms(1)]
    by (auto simp: route_def accepted_def served_request_def newRequest_def
        split: option.splits if_splits)
  then show ?thesis using assms(2) by (simp add: server_frame_start)
qed

lemma demo_route: "route demo_server 0 (lit ''/a'') =
    Inr (\<lambda>(req, resp). (req, Response_SetBodyBytes [1, 2] resp), 0, None)"
  by (simp add: route_def demo_server_def demo_mux_def MapMux_mux_def NewMapMux_def get_eta
      hasStreamFlag_def chain_handler_def)

lemma negative_length_accepted_witness:
  "server_frame plain_utils demo_server [] demo_conn (frame_start 3 0 @
      request_tail (of_nat (length (lit ''/a''))) (of_nat (length ([] :: bytes))) (- 1) @ lit ''/a'' @ [] @ [9, 9]) =
    Returns (accepted (\<lambda>(req, resp). (req, Response_SetBodyBytes [1, 2] resp), 0, None)
      (served_request 3 [] 0 (lit ''/a'') [] []) demo_conn, [9, 9], None)"
  by (rule negative_length_accepted [OF plain.utils_contract_axioms _ _ _ _ _ demo_route])
    (simp_all add: demo_request_sel demo_server_def)

text \<open>A message for a stream that is not open derails the connection.  The server answers that
  there is no such stream, but of the message it has taken only the first 9 bytes: its length and
  its body are read as the next frames.\<close>

theorem unknown_stream_desyncs:
  assumes "utils_contract U" and "sc_streams c (m_id msg) = None" and "room (sc_out c) = None"
  shows "\<exists>w. server_frame U s addr c (message_frame msg @ rest) =
      Returns (c\<lparr>sc_out := w\<rparr>, drop 9 (message_frame msg) @ rest, None) \<and>
    out w = out (sc_out c) @ message_frame \<lparr>m_id = m_id msg, m_flags = MsgFlagNotStream, m_Body = None\<rparr> \<and>
    length (drop 9 (message_frame msg)) \<ge> 8"
proof -
  let ?m = "\<lparr>m_id = m_id msg, m_flags = MsgFlagNotStream, m_Body = None\<rparr> :: message"
  have f: "hasStreamMsgFlag (m_flags msg OR FlagStreamMsg)"
    by (simp add: hasStreamMsgFlag_def word_ao_absorbs FlagStreamMsg_def)
  obtain w n e where wr: "Message_WriteTo U ?m (sc_out c) = (w, n, e)"
    by (cases "Message_WriteTo U ?m (sc_out c)")
  have "e = None" "out w = out (sc_out c) @ message_frame ?m"
    using Message_WriteTo_prefix [OF assms(1) wr] assms(3) by auto
  then show ?thesis
    using f wr assms(2)
    by (intro exI [of _ w]) (simp add: message_frame_split server_frame_start)
qed

lemma unknown_stream_desyncs_witness:
  "let U = plain_utils; c = demo_conn; msg = NewMessage [1, 2]; rest = [5] in
   \<exists>w. server_frame U demo_server [] c (message_frame msg @ rest) =
      Returns (c\<lparr>sc_out := w\<rparr>, drop 9 (message_frame msg) @ rest, None) \<and>
    out w = out (sc_out c) @ message_frame \<lparr>m_id = m_id msg, m_flags = MsgFlagNotStream, m_Body = None\<rparr> \<and>
    length (drop 9 (message_frame msg)) \<ge> 8"
  unfolding Let_def
  by (rule unknown_stream_desyncs [OF plain.utils_contract_axioms])
    (simp_all add: demo_conn_def newServerConn_def)

lemma hasCloseFlag_or: "hasCloseFlag (fl OR FlagStreamMsg) = hasCloseFlag fl"
  by (simp add: hasCloseFlag_def FlagStreamMsg_def MsgFlagClose_def word_ao_dist)

lemma hasStreamMsgFlag_or: "hasStreamMsgFlag (fl OR FlagStreamMsg)"
  by (simp add: hasStreamMsgFlag_def word_ao_absorbs FlagStreamMsg_def)

lemma server_stream_frame:
  assumes "sc_streams c (m_id msg) = Some p" and "length (Message_BodyBytes msg) < 2 ^ 63"
  shows "server_frame U s addr c (message_frame msg @ rest) =
      server_handleStreamMsg U s p (m_flags msg OR FlagStreamMsg) c
        (le_put 8 (of_nat (length (Message_BodyBytes msg)) :: u64) @ Message_BodyBytes msg @ rest)"
    and "CopyN 8 (le_put 8 (of_nat (length (Message_BodyBytes msg)) :: u64) @ Message_BodyBytes msg @ rest) =
      (le_put 8 (of_nat (length (Message_BodyBytes msg)) :: u64), Message_BodyBytes msg @ rest, None)"
    and "sint (u64_at 0 (le_put 8 (of_nat (length (Message_BodyBytes msg)) :: u64))) =
      int (length (Message_BodyBytes msg))"
    and "CopyN (int (length (Message_BodyBytes msg))) (Message_BodyBytes msg @ rest) = (Message_BodyBytes msg, rest, None)"
  using assms by (simp_all add: message_frame_split server_frame_start hasStreamMsgFlag_or sint64_of_nat)

text \<open>A message that closes its stream, and any other.\<close>

lemma server_close_frame:
  assumes U: "utils_contract U" and p: "sc_streams c (m_id msg) = Some p"
    and l: "length (Message_BodyBytes msg) < 2 ^ 63" and f: "hasCloseFlag (m_flags msg)"
  shows "\<exists>m w. server_frame U s addr c (message_frame msg @ rest) =
    obind (closeWithMsgRecvd U False False m (sc_strs c ! p) (dom (sc_streams c)) w)
      (\<lambda>(st', ids, w, e). Returns (c\<lparr>sc_strs := (sc_strs c)[p := st'], sc_streams := (sc_streams c) |` ids, sc_out := w\<rparr>,
        rest, None))"
proof -
  let ?b = "Message_BodyBytes msg" and ?st = "sc_strs c ! p"
  note fr = server_stream_frame [OF p l]
  obtain w1 e1 where snd1: "Stream_Send U False (tooLargeMsg s ?st) ?st (sc_out c) = Returns (w1, e1)"
    using Stream_Send_no_lock by blast
  consider "?b = []" | "?b \<noteq> []" "int (length ?b) > MaxStreamBodyLen s"
    | "?b \<noteq> []" "\<not> int (length ?b) > MaxStreamBodyLen s" by blast
  then show ?thesis
    unfolding fr(1) server_handleStreamMsg_def Let_def fr(2,3) prod.case option.case hasCloseFlag_or
    by cases (use f fr(4) snd1 utils_CloneSlice [OF U] in auto)
qed

lemma server_data_frame:
  assumes U: "utils_contract U" and p: "sc_streams c (m_id msg) = Some p"
    and l: "length (Message_BodyBytes msg) < 2 ^ 63" and f: "\<not> hasCloseFlag (m_flags msg)"
  shows "server_frame U s addr c (message_frame msg @ rest) =
    (if int (length (Message_BodyBytes msg)) > MaxStreamBodyLen s
     then obind (Stream_Send U False (tooLargeMsg s (sc_strs c ! p)) (sc_strs c ! p) (sc_out c))
       (\<lambda>(w, e). Returns (c\<lparr>sc_out := w\<rparr>, rest, None))
     else obind (addMsg \<lparr>m_id = s_reqId (sc_strs c ! p), m_flags = m_flags msg OR FlagStreamMsg,
         m_Body = Some (Message_BodyBytes msg)\<rparr> (sc_strs c ! p))
       (\<lambda>(st', e). Returns (c\<lparr>sc_strs := (sc_strs c)[p := st']\<rparr>, rest, map_option ConnStream e)))"
  using f utils_CloneSlice [OF U]
  unfolding server_stream_frame [OF p l] server_handleStreamMsg_def Let_def prod.case option.case hasCloseFlag_or
  by (simp add: server_stream_frame(4) [OF p l])


definition stream_conn :: "(nat, nat) serverConn" where
  "stream_conn = demo_conn\<lparr>sc_strs := [newStream 4], sc_streams := [4 \<mapsto> 0]\<rparr>"

lemma stream_conn_ok: "conn_ok stream_conn"
  by (simp add: stream_conn_def conn_ok_def stream_inv_def newStream_def)




text \<open>C38: The body limit.  Whatever bytes arrive on a new connection, no handler is started on a body
  longer than the configured limit.\<close>

theorem body_limit_holds:
  "case server_loop U s addr (newServerConn w) r of
     Returns (c, e) \<Rightarrow> list_all (body_limit s) (sc_tasks c) | _ \<Rightarrow> False"
proof -
  have "conn_ok (newServerConn w :: ('a, 'b) serverConn)"
    by (simp add: conn_ok_def newServerConn_def)
  then obtain c e where l: "server_loop U s addr (newServerConn w) r = Returns (c, e)"
    using server_loop_ok by blast
  have "list_all (body_limit s) (sc_tasks (newServerConn w))" by (simp add: newServerConn_def)
  from server_loop_limit [OF this l] show ?thesis by (simp add: l)
qed

text \<open>The goroutine of a request.  On a connection that takes all bytes it writes the frame of the
  response its handler made, removes the request, and registers a new stream under the request's
  id, with its handler started, exactly for a stream route whose response has the OK status.\<close>

theorem task_run_effect:
  assumes "utils_contract U" and "room (sc_out c) = None"
    and "t_handler t (t_req t, t_resp t) = (req, resp)" and "response_fits (kvs, resp)"
  shows "out (sc_out (task_run U kvs t c)) = out (sc_out c) @ response_frame (kvs, resp) \<and>
    sc_reqs (task_run U kvs t c) = (sc_reqs c)(rq_id req := None) \<and>
    sc_streams (task_run U kvs t c) = (if t_stream t \<noteq> None \<and> StatusCode resp = StatusOK
      then (sc_streams c)(rq_id req \<mapsto> length (sc_strs c)) else sc_streams c) \<and>
    sc_handled (task_run U kvs t c) = sc_handled c @ (case t_stream t of
      Some sh \<Rightarrow> if StatusCode resp = StatusOK then [(length (sc_strs c), sh)] else [] | None \<Rightarrow> [])"
proof -
  obtain r' w' n e where wr: "Response_WriteTo U kvs resp (sc_out c) = (r', w', n, e)"
    by (cases "Response_WriteTo U kvs resp (sc_out c)")
  note p = Response_WriteTo_prefix [OF assms(1) wr]
  have e: "e = None" and o: "out w' = out (sc_out c) @ response_frame (kvs, resp)"
    using p assms(2) response_fits_ok [OF assms(4)] by (simp_all add: response_frame_def)
  have st: "StatusCode r' = StatusCode resp"
    using wr by (auto simp: Response_WriteTo_eq Let_def close_body_def split: prod.splits option.splits)
  show ?thesis
    using wr e o st assms(3) by (cases "t_stream t") (simp_all add: task_run_def Let_def)
qed

lemma demo_handler_fits: "response_fits ([], Response_SetBodyBytes [1, 2] (newResponse 3 0 q))"
  by (simp add: response_fits_def Response_SetBodyBytes_def SetBodyReader_def SetBodyReadCloser_def
      newResponse_def hdr_out_def header_bytes_def Headers_Encode_def newHeaders_def FromReader_def avail_def)

lemma task_run_effect_witness:
  "let U = plain_utils; c = demo_conn; kvs = []; req = demo_request;
       resp = Response_SetBodyBytes [1, 2] (newResponse 3 0 None) :: (nat, nat) response;
       t = \<lparr>t_handler = (\<lambda>(req, resp). (req, Response_SetBodyBytes [1, 2] resp)), t_req = req,
             t_resp = newResponse 3 0 None, t_stream = Some 5\<rparr> in
   out (sc_out (task_run U kvs t c)) = out (sc_out c) @ response_frame (kvs, resp) \<and>
    sc_reqs (task_run U kvs t c) = (sc_reqs c)(rq_id req := None) \<and>
    sc_streams (task_run U kvs t c) = (if t_stream t \<noteq> None \<and> StatusCode resp = StatusOK
      then (sc_streams c)(rq_id req \<mapsto> length (sc_strs c)) else sc_streams c) \<and>
    sc_handled (task_run U kvs t c) = sc_handled c @ (case t_stream t of
      Some sh \<Rightarrow> if StatusCode resp = StatusOK then [(length (sc_strs c), sh)] else [] | None \<Rightarrow> [])"
  unfolding Let_def
  by (rule task_run_effect [OF plain.utils_contract_axioms _ _ demo_handler_fits])
    (simp_all add: demo_conn_def newServerConn_def)

text \<open>Closing a connection with an open stream.  \<open>serverConn.Close\<close> closes the streams with their
  map locked, and closing a stream locks the map: unless the locks of \<open>utils\<close> can be taken twice by
  one goroutine, the call never returns.\<close>

theorem close_conn_deadlock:
  assumes "\<not> reentrant U" and "conn_ok c" and "sc_streams c i = Some p"
  shows "serverConn_Close U (p # ps) c = Blocks"
proof -
  have "p < length (sc_strs c)" "\<not> isClosed (sc_strs c ! p)"
    using conn_okD(1) [OF assms(2,3)] by auto
  moreover from this have "\<not> chan_closed (sc_strs c ! p)"
    using conn_okD(2) [OF assms(2)] by (simp add: stream_inv_def)
  ultimately show ?thesis
    using assms(1) by (simp add: serverConn_Close_def close_stream_def closeWithMessage_def Let_def)
qed

lemma close_conn_deadlock_witness: "serverConn_Close plain_utils (0 # []) stream_conn = Blocks"
  by (rule close_conn_deadlock [OF _ stream_conn_ok, of _ 4]) (simp_all add: stream_conn_def)

section \<open>Requests between a client and a server\<close>

lemma server_takes_request:
  assumes "utils_contract U"
    and "length (Path r) < 2 ^ 16" and "length (hdr_out kvs (rq_Headers r)) < 2 ^ 16"
    and "length (body_out (rq_Body r)) < 2 ^ 62" and "int (length (body_out (rq_Body r))) \<le> MaxBodyLen s"
    and "\<not> hasStreamMsgFlag (Flags r)" and "route s (Flags r) (Path r) = Inr x"
  shows "server_frame U s addr sc (request_frame (kvs, r) @ rest) =
    Returns (accepted x (served_request (rq_id r) addr (Flags r) (Path r) (hdr_out kvs (rq_Headers r))
      (body_out (rq_Body r))) sc, rest, None)"
  using assms(5-7) server_handleReq_frame [OF assms(1-4), of s addr "rq_id r" "Flags r" sc rest]
  by (simp add: request_frame_split server_frame_start)

lemma served_request_sel [simp]:
  "rq_id (served_request i addr fl path h b) = i" "RemoteAddr (served_request i addr fl path h b) = addr"
  "Flags (served_request i addr fl path h b) = fl" "Path (served_request i addr fl path h b) = path"
  "rq_Headers (served_request i addr fl path h b) = Some (newHeaders h)"
  "rq_Body (served_request i addr fl path h b) = Some b"
  by (simp_all add: served_request_def newRequest_def)

lemma accepted_sel [simp]:
  "sc_tasks (accepted (h, rf, sh) req c) = sc_tasks c @ [\<lparr>t_handler = h, t_req = req,
     t_resp = newResponse (rq_id req) rf (Some req), t_stream = sh\<rparr>]"
  "sc_out (accepted (h, rf, sh) req c) = sc_out c"
  by (simp_all add: accepted_def)

lemma task_writes:
  assumes "utils_contract U" and "room (sc_out c) = None" and "response_fits (kvs, resp)"
    and "h (rq, rs) = (rq', resp)"
  shows "out (sc_out (task_run U kvs \<lparr>t_handler = h, t_req = rq, t_resp = rs, t_stream = sh\<rparr> c)) =
    out (sc_out c) @ response_frame (kvs, resp)"
proof -
  obtain r' w' n e where wr: "Response_WriteTo U kvs resp (sc_out c) = (r', w', n, e)"
    by (cases "Response_WriteTo U kvs resp (sc_out c)")
  have "out w' = out (sc_out c) @ response_frame (kvs, resp)"
    using Response_WriteTo_prefix [OF assms(1) wr] assms(2) by (simp add: response_frame_def)
  with wr assms(4) show ?thesis
    by (simp add: task_run_def Let_def split: option.split)
qed

text \<open>The server's side: the frame of a request is taken, one task is started, and its response written.\<close>

lemma server_answers:
  assumes U: "utils_contract U" and sc: "room (sc_out sc) = None"
    and l: "length (Path r) < 2 ^ 16" "length (hdr_out kvs (rq_Headers r)) < 2 ^ 16"
      "length (body_out (rq_Body r)) < 2 ^ 62" "int (length (body_out (rq_Body r))) \<le> MaxBodyLen s"
    and fl: "\<not> hasStreamMsgFlag (Flags r)" and rt: "route s (Flags r) (Path r) = Inr (h, 0, None)"
    and req: "req = served_request (rq_id r) addr (Flags r) (Path r) (hdr_out kvs (rq_Headers r))
      (body_out (rq_Body r))"
    and resp: "h (req, newResponse (rq_id r) 0 (Some req)) = (req', resp)" "response_fits (kvs', resp)"
  obtains sc1 t where
    "server_frame U s addr sc (request_frame (kvs, r) @ rest) = Returns (sc1, rest, None)"
    "sc_tasks sc1 = sc_tasks sc @ [t]" "t_req t = req" "t_resp t = newResponse (rq_id r) 0 (Some req)"
    "out (sc_out (task_run U kvs' t sc1)) = out (sc_out sc) @ response_frame (kvs', resp)"
proof -
  let ?t = "\<lparr>t_handler = h, t_req = req, t_resp = newResponse (rq_id r) 0 (Some req), t_stream = None\<rparr>"
  have "out (sc_out (task_run U kvs' ?t (accepted (h, 0, None) req sc))) =
      out (sc_out sc) @ response_frame (kvs', resp)"
    using task_writes [OF U _ resp(2), where c = "accepted (h, 0, None) req sc" and h = h] resp(1) sc by simp
  then show ?thesis
    using server_takes_request [OF U l fl rt, of addr sc rest] req
    by (intro that [of "accepted (h, 0, None) req sc" ?t]) simp_all
qed

text \<open>A request from a client to the server it is connected to, and the response.\<close>

lemma request_run:
  fixes c :: "'v client" and sc :: "('v, 'g) serverConn"
  assumes U: "utils_contract U"
    and c: "\<not> c_isClosed c" "room (c_out c) = None" and sc: "room (sc_out sc) = None"
    and l: "length (Path r) < 2 ^ 16" "length (hdr_out kvs (rq_Headers r)) < 2 ^ 16"
      "length (body_out (rq_Body r)) < 2 ^ 62" "int (length (body_out (rq_Body r))) \<le> MaxBodyLen s"
    and fl: "\<not> hasStreamMsgFlag (Flags r)"
    and rt: "route s (Flags r) (Path r) = Inr (h, 0, None)"
    and req: "req = served_request (reqCounter c + 1) addr (Flags r) (Path r)
      (hdr_out kvs (rq_Headers r)) (body_out (rq_Body r))"
    and resp: "h (req, newResponse (reqCounter c + 1) 0 (Some req)) = (req', resp)"
      "reqId resp = reqCounter c + 1" "rflags resp = 0" "response_fits (kvs', resp)"
  obtains q c1 sc1 t c2 rc p where
    "Client_Send U kvs r c = (Inr q, c1)"
    "server_frame U s addr sc (drop (length (out (c_out c))) (out (c_out c1)) @ rest) = Returns (sc1, rest, None)"
    "sc_tasks sc1 = sc_tasks sc @ [t]" "t_req t = req" "t_resp t = newResponse (reqCounter c + 1) 0 (Some req)"
    "client_frame U c1 (drop (length (out (sc_out sc))) (out (sc_out (task_run U kvs' t sc1))) @ rest') =
      Returns (c2, rest', None)"
    "ch (resp_chans c2 ! q) = Some (delivered rc kvs' resp p)"
proof -
  let ?i = "reqCounter c + 1" and ?q = "length (resp_chans c)"
  obtain c1 where c1: "Client_Send U kvs r c = (Inr ?q, c1)"
    "out (c_out c1) = out (c_out c) @ request_frame (kvs, r\<lparr>rq_id := ?i\<rparr>)"
    "reqs c1 ?i = Some ?q" "waiting ?q c1"
    by (rule Client_Send_waits [OF U c])
  obtain sc1 t where sv: "server_frame U s addr sc (request_frame (kvs, r\<lparr>rq_id := ?i\<rparr>) @ rest) = Returns (sc1, rest, None)"
    "sc_tasks sc1 = sc_tasks sc @ [t]" "t_req t = req" "t_resp t = newResponse ?i 0 (Some req)"
    "out (sc_out (task_run U kvs' t sc1)) = out (sc_out sc) @ response_frame (kvs', resp)"
    by (rule server_answers [OF U sc, of "r\<lparr>rq_id := ?i\<rparr>" kvs s h req addr req' resp kvs' rest])
      (use l fl rt req resp in simp_all)
  obtain c2 p where "client_frame U c1 (response_frame (kvs', resp) @ rest') = Returns (c2, rest', None)"
    "ch (resp_chans c2 ! ?q) = Some (delivered (resp_chans c1 ! ?q) kvs' resp p)"
    using client_receives [OF resp(4) _ _ c1(4), of U rest'] resp(2,3) c1(3)
    by (auto simp: hasStreamMsgFlag_def)
  with sv show ?thesis
    by (intro that [OF c1(1), of sc1 t c2 "resp_chans c1 ! ?q" p])
      (simp_all add: out_is_prefix [OF c1(2)] out_is_prefix [OF sv(5)])
qed

end
