(* ===== verification/ServerRun.thy ===== *)
theory ServerRun
  imports ServerGo
begin

text \<open>
  \<open>go/server.go\<close>: setting a server up and running it.

  \<^item> \<open>mux_methods\<close> is the interface \<open>Mux\<close> with the methods that change a multiplexer, over any state;
    a server holds a multiplexer of state \<open>'m\<close>, and its field \<open>Mux\<close> is what it reads of it.
  \<^item> \<open>srv_call\<close> is a call a program makes before it runs its server, on the server or on the
    \<open>MapMux\<close> in it.  The theorem says what a request is answered with after any of them.
  \<^item> \<open>Server_Serve\<close> is the loop of \<open>Serve\<close> over any listener, for a number of rounds (\<open>serve_rounds\<close> of
    Prelude): the loop is meant to go on for ever.
\<close>

section \<open>Functions as handlers\<close>

definition HandlerFunc :: "('v request \<Rightarrow> ('v, nat) response \<Rightarrow> 'v request \<times> ('v, nat) response) \<Rightarrow> 'v handler" where
  "HandlerFunc f = (\<lambda>(req, resp). f req resp)"

definition HandleFunc :: "gostring \<Rightarrow> ('v request \<Rightarrow> ('v, nat) response \<Rightarrow> 'v request \<times> ('v, nat) response) \<Rightarrow>
    ('v handler \<Rightarrow> 'v handler) list \<Rightarrow> ('v handler, 'g) mapmux \<Rightarrow> ('v handler, 'g) mapmux outcome" where
  "HandleFunc path f ms mm = Handle path (Some (HandlerFunc f)) ms mm"

text \<open>What a stream handler does is left open, so the one made of a function is that function.\<close>

definition StreamHandlerFunc :: "'g \<Rightarrow> 'g" where
  "StreamHandlerFunc h = h"

definition HandleStreamFunc :: "gostring \<Rightarrow> 'g \<Rightarrow> ('h \<Rightarrow> 'h) list \<Rightarrow> ('h, 'g) mapmux \<Rightarrow> ('h, 'g) mapmux outcome" where
  "HandleStreamFunc path f ms mm = HandleStream path (Some (StreamHandlerFunc f)) ms mm"

section \<open>A server and its multiplexer\<close>

record ('m, 'h, 'g) mux_methods =
  mm_Handle :: "gostring \<Rightarrow> 'h option \<Rightarrow> ('h \<Rightarrow> 'h) list \<Rightarrow> 'm \<Rightarrow> 'm outcome"
  mm_HandleStream :: "gostring \<Rightarrow> 'g option \<Rightarrow> ('h \<Rightarrow> 'h) list \<Rightarrow> 'm \<Rightarrow> 'm outcome"
  mm_GlobalMiddleware :: "('h \<Rightarrow> 'h) list \<Rightarrow> 'm \<Rightarrow> 'm"
  mm_Middleware :: "('h \<Rightarrow> 'h) list \<Rightarrow> 'm \<Rightarrow> 'm"
  mm_StreamMiddleware :: "('h \<Rightarrow> 'h) list \<Rightarrow> 'm \<Rightarrow> 'm"
  mm_reads :: "'m \<Rightarrow> ('h, 'g) mux"

definition MapMux_methods :: "(('h, 'g) mapmux, 'h, 'g) mux_methods" where
  "MapMux_methods = \<lparr>mm_Handle = Handle, mm_HandleStream = HandleStream, mm_GlobalMiddleware = GlobalMiddleware,
     mm_Middleware = Middleware, mm_StreamMiddleware = StreamMiddleware, mm_reads = MapMux_mux\<rparr>"

definition UnimplementedMux_methods :: "('m, 'h, 'g) mux_methods" where
  "UnimplementedMux_methods = \<lparr>mm_Handle = (\<lambda>_ _ _. Returns), mm_HandleStream = (\<lambda>_ _ _. Returns),
     mm_GlobalMiddleware = (\<lambda>_ m. m), mm_Middleware = (\<lambda>_ m. m), mm_StreamMiddleware = (\<lambda>_ m. m),
     mm_reads = (\<lambda>_. UnimplementedMux)\<rparr>"

type_synonym ('m, 'v, 'g) mounted = "'m \<times> ('v, 'g) server"

text \<open>The server after its multiplexer has changed.\<close>

definition remount :: "('m, 'v handler, 'g) mux_methods \<Rightarrow> ('v, 'g) server \<Rightarrow> 'm \<Rightarrow> ('m, 'v, 'g) mounted" where
  "remount I s m = (m, s\<lparr>Mux := mm_reads I m\<rparr>)"

definition Server_Handle :: "('m, 'v handler, 'g) mux_methods \<Rightarrow> gostring \<Rightarrow> 'v handler option \<Rightarrow>
    ('v handler \<Rightarrow> 'v handler) list \<Rightarrow> ('m, 'v, 'g) mounted \<Rightarrow> ('m, 'v, 'g) mounted outcome" where
  "Server_Handle I path h ms = (\<lambda>(m, s). obind (mm_Handle I path h ms m) (\<lambda>m. Returns (remount I s m)))"

definition Server_HandleStream :: "('m, 'v handler, 'g) mux_methods \<Rightarrow> gostring \<Rightarrow> 'g option \<Rightarrow>
    ('v handler \<Rightarrow> 'v handler) list \<Rightarrow> ('m, 'v, 'g) mounted \<Rightarrow> ('m, 'v, 'g) mounted outcome" where
  "Server_HandleStream I path h ms = (\<lambda>(m, s). obind (mm_HandleStream I path h ms m) (\<lambda>m. Returns (remount I s m)))"

definition Server_HandleFunc :: "('m, 'v handler, 'g) mux_methods \<Rightarrow> gostring \<Rightarrow>
    ('v request \<Rightarrow> ('v, nat) response \<Rightarrow> 'v request \<times> ('v, nat) response) \<Rightarrow>
    ('v handler \<Rightarrow> 'v handler) list \<Rightarrow> ('m, 'v, 'g) mounted \<Rightarrow> ('m, 'v, 'g) mounted outcome" where
  "Server_HandleFunc I path f ms =
     (\<lambda>(m, s). obind (mm_Handle I path (Some (HandlerFunc f)) ms m) (\<lambda>m. Returns (remount I s m)))"

definition Server_HandleStreamFunc :: "('m, 'v handler, 'g) mux_methods \<Rightarrow> gostring \<Rightarrow> 'g \<Rightarrow>
    ('v handler \<Rightarrow> 'v handler) list \<Rightarrow> ('m, 'v, 'g) mounted \<Rightarrow> ('m, 'v, 'g) mounted outcome" where
  "Server_HandleStreamFunc I path f ms =
     (\<lambda>(m, s). obind (mm_HandleStream I path (Some (StreamHandlerFunc f)) ms m) (\<lambda>m. Returns (remount I s m)))"

definition Server_GlobalMiddleware :: "('m, 'v handler, 'g) mux_methods \<Rightarrow> ('v handler \<Rightarrow> 'v handler) list \<Rightarrow>
    ('m, 'v, 'g) mounted \<Rightarrow> ('m, 'v, 'g) mounted" where
  "Server_GlobalMiddleware I ms = (\<lambda>(m, s). remount I s (mm_GlobalMiddleware I ms m))"

definition Server_Middleware :: "('m, 'v handler, 'g) mux_methods \<Rightarrow> ('v handler \<Rightarrow> 'v handler) list \<Rightarrow>
    ('m, 'v, 'g) mounted \<Rightarrow> ('m, 'v, 'g) mounted" where
  "Server_Middleware I ms = (\<lambda>(m, s). remount I s (mm_Middleware I ms m))"

definition Server_StreamMiddleware :: "('m, 'v handler, 'g) mux_methods \<Rightarrow> ('v handler \<Rightarrow> 'v handler) list \<Rightarrow>
    ('m, 'v, 'g) mounted \<Rightarrow> ('m, 'v, 'g) mounted" where
  "Server_StreamMiddleware I ms = (\<lambda>(m, s). remount I s (mm_StreamMiddleware I ms m))"

section \<open>Setting up\<close>

datatype ('v, 'g) srv_call =
    SetHandle gostring "'v handler option" "('v handler \<Rightarrow> 'v handler) list"
  | SetHandleFunc gostring "'v request \<Rightarrow> ('v, nat) response \<Rightarrow> 'v request \<times> ('v, nat) response"
      "('v handler \<Rightarrow> 'v handler) list"
  | SetHandleStream gostring "'g option" "('v handler \<Rightarrow> 'v handler) list"
  | SetHandleStreamFunc gostring 'g "('v handler \<Rightarrow> 'v handler) list"
  | SetGlobal "('v handler \<Rightarrow> 'v handler) list"
  | SetRegular "('v handler \<Rightarrow> 'v handler) list"
  | SetStream "('v handler \<Rightarrow> 'v handler) list"

fun apply_call :: "('m, 'v handler, 'g) mux_methods \<Rightarrow> ('v, 'g) srv_call \<Rightarrow> ('m, 'v, 'g) mounted \<Rightarrow>
    ('m, 'v, 'g) mounted outcome" where
  "apply_call I (SetHandle p h ms) x = Server_Handle I p h ms x"
| "apply_call I (SetHandleFunc p f ms) x = Server_HandleFunc I p f ms x"
| "apply_call I (SetHandleStream p h ms) x = Server_HandleStream I p h ms x"
| "apply_call I (SetHandleStreamFunc p f ms) x = Server_HandleStreamFunc I p f ms x"
| "apply_call I (SetGlobal ms) x = Returns (Server_GlobalMiddleware I ms x)"
| "apply_call I (SetRegular ms) x = Returns (Server_Middleware I ms x)"
| "apply_call I (SetStream ms) x = Returns (Server_StreamMiddleware I ms x)"

fun apply_calls :: "('m, 'v handler, 'g) mux_methods \<Rightarrow> ('v, 'g) srv_call list \<Rightarrow> ('m, 'v, 'g) mounted \<Rightarrow>
    ('m, 'v, 'g) mounted outcome" where
  "apply_calls I [] x = Returns x"
| "apply_calls I (c # cs) x = obind (apply_call I c x) (apply_calls I cs)"

text \<open>What the calls say: the middleware of each kind, and for a path its last handler and the last
  middleware that came with one.\<close>

fun globals :: "('v, 'g) srv_call \<Rightarrow> ('v handler \<Rightarrow> 'v handler) list" where
  "globals (SetGlobal ms) = ms" | "globals _ = []"

fun regulars :: "('v, 'g) srv_call \<Rightarrow> ('v handler \<Rightarrow> 'v handler) list" where
  "regulars (SetRegular ms) = ms" | "regulars _ = []"

fun stream_mws :: "('v, 'g) srv_call \<Rightarrow> ('v handler \<Rightarrow> 'v handler) list" where
  "stream_mws (SetStream ms) = ms" | "stream_mws _ = []"

fun as_handle :: "('v, 'g) srv_call \<Rightarrow> (gostring \<times> 'v handler option \<times> ('v handler \<Rightarrow> 'v handler) list) option" where
  "as_handle (SetHandle p h ms) = Some (p, h, ms)"
| "as_handle (SetHandleFunc p f ms) = Some (p, Some (HandlerFunc f), ms)"
| "as_handle _ = None"

fun as_stream :: "('v, 'g) srv_call \<Rightarrow> (gostring \<times> 'g option \<times> ('v handler \<Rightarrow> 'v handler) list) option" where
  "as_stream (SetHandleStream p h ms) = Some (p, h, ms)"
| "as_stream (SetHandleStreamFunc p f ms) = Some (p, Some (StreamHandlerFunc f), ms)"
| "as_stream _ = None"

definition last_for :: "(gostring \<times> 'x option \<times> 'y list) list \<Rightarrow> gostring \<Rightarrow> 'x option" where
  "last_for rs p = (case map_of (rev rs) p of None \<Rightarrow> None | Some (h, ms) \<Rightarrow> h)"

definition mws_for :: "(gostring \<times> 'x \<times> 'y list) list \<Rightarrow> gostring \<Rightarrow> 'y list" where
  "mws_for rs p = (case map_of (rev (filter (\<lambda>(q, h, ms). ms \<noteq> []) rs)) p of None \<Rightarrow> [] | Some (h, ms) \<Rightarrow> ms)"

definition handles :: "('v, 'g) srv_call list \<Rightarrow> (gostring \<times> 'v handler option \<times> ('v handler \<Rightarrow> 'v handler) list) list" where
  "handles cs = concat (map (\<lambda>c. case as_handle c of None \<Rightarrow> [] | Some r \<Rightarrow> [r]) cs)"

definition stream_handles :: "('v, 'g) srv_call list \<Rightarrow> (gostring \<times> 'g option \<times> ('v handler \<Rightarrow> 'v handler) list) list" where
  "stream_handles cs = concat (map (\<lambda>c. case as_stream c of None \<Rightarrow> [] | Some r \<Rightarrow> [r]) cs)"

text \<open>A \<open>MapMux\<close> that does what the calls say.\<close>

definition mux_says :: "('v, 'g) srv_call list \<Rightarrow> ('v handler, 'g) mapmux \<Rightarrow> bool" where
  "mux_says cs m \<longleftrightarrow> made m \<and>
     wrap_with (globalMiddleware m) = around (concat (map globals cs)) \<and>
     wrap_with (middleware m) = around (concat (map regulars cs)) \<and>
     wrap_with (streamMiddleware m) = around (concat (map stream_mws cs)) \<and>
     GetHandler m = last_for (handles cs) \<and> GetStreamHandler m = last_for (stream_handles cs) \<and>
     (\<forall>p. wrap_with (GetMiddlewareFor m p) = around (mws_for (handles cs) p)) \<and>
     (\<forall>p. wrap_with (GetStreamMiddlewareFor m p) = around (mws_for (stream_handles cs) p))"

lemma wrap_eta: "wrap_with None = id" "wrap_with (Some f) = f" "around [] = id"
  by (simp_all add: fun_eq_iff)

lemma wrap_add_eta: "wrap_with (add_middleware f ms) = wrap_with f \<circ> around ms"
  by (simp add: fun_eq_iff wrap_add_middleware)

lemma around_append_eta: "around (ms @ ns) = around ms \<circ> around ns"
  by (simp add: fun_eq_iff)

lemma last_for_snoc: "last_for (rs @ [(p, h, ms)]) = (last_for rs)(p := h)"
  by (simp add: fun_eq_iff last_for_def)

lemma mws_for_snoc: "mws_for (rs @ [(p, h, ms)]) q = (if q = p \<and> ms \<noteq> [] then ms else mws_for rs q)"
  by (simp add: mws_for_def)

lemma Handle_run:
  assumes "made m"
  shows "\<exists>m'. Handle p h ms m = Returns m' \<and> made m' \<and> GetHandler m' = (GetHandler m)(p := h) \<and>
    GetMiddlewareFor m' = (if ms = [] then GetMiddlewareFor m else (GetMiddlewareFor m)(p \<mapsto> around ms)) \<and>
    globalMiddleware m' = globalMiddleware m \<and> middleware m' = middleware m \<and>
    streamMiddleware m' = streamMiddleware m \<and> streamHandlers m' = streamHandlers m \<and>
    streamMiddlewares m' = streamMiddlewares m"
  using assms by (auto simp: Handle_def made_def get_eta around_eta split: list.split)

lemma HandleStream_run:
  assumes "made m"
  shows "\<exists>m'. HandleStream p h ms m = Returns m' \<and> made m' \<and> GetStreamHandler m' = (GetStreamHandler m)(p := h) \<and>
    GetStreamMiddlewareFor m' = (if ms = [] then GetStreamMiddlewareFor m else (GetStreamMiddlewareFor m)(p \<mapsto> around ms)) \<and>
    globalMiddleware m' = globalMiddleware m \<and> middleware m' = middleware m \<and>
    streamMiddleware m' = streamMiddleware m \<and> handlers m' = handlers m \<and> middlewares m' = middlewares m"
  using assms by (auto simp: HandleStream_def made_def get_eta around_eta split: list.split)

lemma says_snoc [simp]:
  "handles (cs @ [c]) = handles cs @ (case as_handle c of None \<Rightarrow> [] | Some r \<Rightarrow> [r])"
  "stream_handles (cs @ [c]) = stream_handles cs @ (case as_stream c of None \<Rightarrow> [] | Some r \<Rightarrow> [r])"
  by (simp_all add: handles_def stream_handles_def)

lemma mux_says_handle:
  assumes "mux_says cs m" and "as_handle c = Some (p, h, ms)"
  shows "\<exists>m'. Handle p h ms m = Returns m' \<and> mux_says (cs @ [c]) m'"
proof -
  have ids: "globals c = []" "regulars c = []" "stream_mws c = []" "as_stream c = None"
    using assms(2) by (cases c; simp)+
  obtain m' where m': "Handle p h ms m = Returns m'" "made m'" "GetHandler m' = (GetHandler m)(p := h)"
    "GetMiddlewareFor m' = (if ms = [] then GetMiddlewareFor m else (GetMiddlewareFor m)(p \<mapsto> around ms))"
    "globalMiddleware m' = globalMiddleware m" "middleware m' = middleware m"
    "streamMiddleware m' = streamMiddleware m" "streamHandlers m' = streamHandlers m"
    "streamMiddlewares m' = streamMiddlewares m"
    using Handle_run [of m p h ms] assms(1) unfolding mux_says_def by blast
  then have "mux_says (cs @ [c]) m'"
    using assms ids by (auto simp: mux_says_def last_for_snoc mws_for_snoc get_eta wrap_eta)
  with m'(1) show ?thesis by blast
qed

lemma mux_says_stream:
  assumes "mux_says cs m" and "as_stream c = Some (p, h, ms)"
  shows "\<exists>m'. HandleStream p h ms m = Returns m' \<and> mux_says (cs @ [c]) m'"
proof -
  have ids: "globals c = []" "regulars c = []" "stream_mws c = []" "as_handle c = None"
    using assms(2) by (cases c; simp)+
  obtain m' where m': "HandleStream p h ms m = Returns m'" "made m'" "GetStreamHandler m' = (GetStreamHandler m)(p := h)"
    "GetStreamMiddlewareFor m' = (if ms = [] then GetStreamMiddlewareFor m else (GetStreamMiddlewareFor m)(p \<mapsto> around ms))"
    "globalMiddleware m' = globalMiddleware m" "middleware m' = middleware m"
    "streamMiddleware m' = streamMiddleware m" "handlers m' = handlers m" "middlewares m' = middlewares m"
    using HandleStream_run [of m p h ms] assms(1) unfolding mux_says_def by blast
  then have "mux_says (cs @ [c]) m'"
    using assms ids by (auto simp: mux_says_def last_for_snoc mws_for_snoc get_eta wrap_eta)
  with m'(1) show ?thesis by blast
qed

lemma mux_says_middleware:
  assumes "mux_says cs m"
  shows "mux_says (cs @ [SetGlobal ms]) (GlobalMiddleware ms m)" "mux_says (cs @ [SetRegular ms]) (Middleware ms m)"
    "mux_says (cs @ [SetStream ms]) (StreamMiddleware ms m)"
  using assms by (simp_all add: mux_says_def GlobalMiddleware_def Middleware_def StreamMiddleware_def made_def get_eta
      wrap_add_eta around_append_eta)

lemma apply_call_MapMux:
  "apply_call MapMux_methods c (m, s) =
     obind (case c of SetHandle p h ms \<Rightarrow> Handle p h ms m | SetHandleFunc p f ms \<Rightarrow> Handle p (Some (HandlerFunc f)) ms m
       | SetHandleStream p h ms \<Rightarrow> HandleStream p h ms m
       | SetHandleStreamFunc p f ms \<Rightarrow> HandleStream p (Some (StreamHandlerFunc f)) ms m | SetGlobal ms \<Rightarrow> Returns (GlobalMiddleware ms m)
       | SetRegular ms \<Rightarrow> Returns (Middleware ms m) | SetStream ms \<Rightarrow> Returns (StreamMiddleware ms m))
     (\<lambda>m. Returns (m, s\<lparr>Mux := MapMux_mux m\<rparr>))"
  by (cases c) (simp_all add: MapMux_methods_def remount_def Server_Handle_def Server_HandleFunc_def
      Server_HandleStream_def Server_HandleStreamFunc_def Server_GlobalMiddleware_def Server_Middleware_def Server_StreamMiddleware_def)

lemma apply_call_says:
  assumes "mux_says cs m"
  obtains m' where "apply_call MapMux_methods c (m, s) = Returns (m', s\<lparr>Mux := MapMux_mux m'\<rparr>)"
    "mux_says (cs @ [c]) m'"
proof -
  have "\<exists>m'. (case c of SetHandle p h ms \<Rightarrow> Handle p h ms m | SetHandleFunc p f ms \<Rightarrow> Handle p (Some (HandlerFunc f)) ms m
       | SetHandleStream p h ms \<Rightarrow> HandleStream p h ms m
       | SetHandleStreamFunc p f ms \<Rightarrow> HandleStream p (Some (StreamHandlerFunc f)) ms m | SetGlobal ms \<Rightarrow> Returns (GlobalMiddleware ms m)
       | SetRegular ms \<Rightarrow> Returns (Middleware ms m) | SetStream ms \<Rightarrow> Returns (StreamMiddleware ms m)) =
      Returns m' \<and> mux_says (cs @ [c]) m'"
    using mux_says_handle [OF assms, of c] mux_says_stream [OF assms, of c] mux_says_middleware [OF assms]
    by (cases c) simp_all
  then show ?thesis using that by (auto simp: apply_call_MapMux)
qed

lemma apply_calls_says:
  "mux_says cs m \<Longrightarrow> Mux s = MapMux_mux m \<Longrightarrow>
   \<exists>m' s'. apply_calls MapMux_methods ds (m, s) = Returns (m', s') \<and> mux_says (cs @ ds) m' \<and>
     s' = s\<lparr>Mux := MapMux_mux m'\<rparr>"
proof (induction ds arbitrary: cs m s)
  case Nil
  then have "s\<lparr>Mux := MapMux_mux m\<rparr> = s" by (cases s) simp
  with Nil show ?case by simp
next
  case (Cons d ds)
  obtain m1 s1 where c: "apply_call MapMux_methods d (m, s) = Returns (m1, s1)" "mux_says (cs @ [d]) m1"
    "s1 = s\<lparr>Mux := MapMux_mux m1\<rparr>"
    by (rule apply_call_says [OF Cons.prems(1), of d s]) blast
  have "Mux s1 = MapMux_mux m1" using c(3) by simp
  from Cons.IH [OF c(2) this] c(1,3) show ?case by simp
qed

lemma mux_says_new: "mux_says [] (NewMapMux :: ('v handler, 'g) mapmux)"
  by (simp add: mux_says_def handles_def stream_handles_def last_for_def mws_for_def fun_eq_iff)
    (simp add: NewMapMux_def)

text \<open>What a request is answered with, by what the calls say.\<close>

definition configured :: "('v, 'g) srv_call list \<Rightarrow> byte \<Rightarrow> gostring \<Rightarrow> byte + ('v handler \<times> byte \<times> 'g option)" where
  "configured cs fl p =
     (let glob = concat (map globals cs) in
      if hasStreamFlag fl
      then (case last_for (stream_handles cs) p of
              Some sh \<Rightarrow> Inr (around (glob @ concat (map stream_mws cs) @ mws_for (stream_handles cs) p) noopHandler,
                fl, Some sh)
            | None \<Rightarrow> Inl (if last_for (handles cs) p = None then StatusNotFound else StatusNotStream))
      else (case last_for (handles cs) p of
              None \<Rightarrow> Inl StatusNotFound
            | Some h \<Rightarrow> Inr (around (glob @ concat (map regulars cs) @ mws_for (handles cs) p) h, 0, None)))"

lemma route_configured:
  "mux_says cs m \<Longrightarrow> Mux s = MapMux_mux m \<Longrightarrow> route s fl p = configured cs fl p"
  by (auto simp: mux_says_def route_def configured_def MapMux_mux_def chain_handler_def chain_stream_def Let_def
      split: option.split)



section \<open>Deadlines\<close>

text \<open>The deadlines of a connection, \<open>None\<close> for the zero time.\<close>

record deadlines =
  d_read :: "int option"
  d_write :: "int option"

definition setReadTimeout :: "int \<Rightarrow> int \<Rightarrow> deadlines \<Rightarrow> deadlines" where
  "setReadTimeout now dur d = (if dur \<le> 0 then d\<lparr>d_read := None\<rparr> else d\<lparr>d_read := Some (now + dur)\<rparr>)"

definition setWriteTimeout :: "int \<Rightarrow> int \<Rightarrow> deadlines \<Rightarrow> deadlines" where
  "setWriteTimeout now dur d = (if dur \<le> 0 then d\<lparr>d_write := None\<rparr> else d\<lparr>d_write := Some (now + dur)\<rparr>)"

text \<open>\<open>handle\<close> with its deadline: it is accepted at \<open>now\<close>, the 14 bytes are there at \<open>at\<close>.\<close>

definition handle_timed :: "utils \<Rightarrow> int \<Rightarrow> int \<Rightarrow> int \<Rightarrow> bytes \<Rightarrow> conn_out \<Rightarrow> deadlines \<Rightarrow>
    ((conn_out \<times> bool) + (('v, 'g) serverConn \<times> bytes)) \<times> deadlines" where
  "handle_timed U connectTimeout now at r w d =
     (let d = setReadTimeout now connectTimeout d in
      if (case d_read d of None \<Rightarrow> False | Some t \<Rightarrow> t \<le> at) \<or> length r < 14 then (Inl (w, True), d)
      else (server_handle U r w, setReadTimeout at 0 d))"

section \<open>Accepting connections\<close>

definition Server_Serve :: "('l \<Rightarrow> ('l \<times> ('e + 'c)) outcome) \<Rightarrow> nat \<Rightarrow> ('v, 'g) server \<Rightarrow> 'l \<Rightarrow>
    ('v, 'g) server \<times> 'c list \<times> ('l \<times> 'e option) outcome" where
  "Server_Serve accept n s l = (Serve_limits s, serve_rounds accept n l)"

definition Server_Run :: "(gostring \<Rightarrow> 'e + 'l) \<Rightarrow> ('l \<Rightarrow> ('l \<times> ('e + 'c)) outcome) \<Rightarrow> nat \<Rightarrow> gostring \<Rightarrow>
    ('v, 'g) server \<Rightarrow> 'e + ('v, 'g) server \<times> 'c list \<times> ('l \<times> 'e option) outcome" where
  "Server_Run listen accept n addr s =
     (case listen addr of Inl e \<Rightarrow> Inl e | Inr ln \<Rightarrow> Inr (Server_Serve accept n s ln))"

section \<open>The handshake\<close>

lemma writeResp_frame:
  assumes "utils_contract U" and "room w = None"
  shows "\<exists>w'. writeResp U i st w = (w', 20, None) \<and> room w' = None \<and>
    out w' = out w @ response_frame ([], (zeroResponse :: (unit, unit) response)\<lparr>reqId := i, StatusCode := st\<rparr>)"
proof -
  let ?b = "response_head i 0 st 0 0"
  have "response_frame ([], (zeroResponse :: (unit, unit) response)\<lparr>reqId := i, StatusCode := st\<rparr>) = ?b"
    by (simp add: response_frame_def response_bytes_def zeroResponse_def hdr_out_def)
  moreover have "writeResp U i st w = WriteAll U w ?b"
    by (simp add: writeResp_def response_head_zero response_head_writes)
  ultimately show ?thesis
    using utils_WriteAll(4) [OF assms(1), of w ?b] assms(2) by auto
qed

lemma bare_response_fits:
  "response_fits ([], (zeroResponse :: (unit, unit) response)\<lparr>reqId := i, StatusCode := st\<rparr>)"
  by (simp add: response_fits_def zeroResponse_def hdr_out_def)

lemma server_handle_ok:
  assumes "utils_contract U" and "room v = None"
  shows "\<exists>v'. server_handle U (initialBytes @ [major, minor] @ rest) v =
      Inr (newServerConn v' :: ('v, 'g) serverConn, rest) \<and> room v' = None \<and>
    out v' = out v @ response_frame ([], (zeroResponse :: (unit, unit) response)\<lparr>reqId := 0, StatusCode := StatusOK\<rparr>)"
proof -
  let ?i = "initialBytes @ [major, minor]"
  have f: "ReadFull 14 (initialBytes @ [major, minor] @ rest) = Inr (?i, rest)"
    using ReadFull_append [of ?i 14 rest] by (simp add: initialBytes_def lit_def)
  have t: "take 12 ?i = initialBytes" by (simp add: initialBytes_def lit_def)
  obtain v' where v': "writeResp U 0 StatusOK v = (v', 20, None)" "room v' = None"
    "out v' = out v @ response_frame ([], (zeroResponse :: (unit, unit) response)\<lparr>reqId := 0, StatusCode := StatusOK\<rparr>)"
    using writeResp_frame [OF assms, of 0 StatusOK] by blast
  then show ?thesis
    unfolding server_handle_def f sum.case prod.case t by (intro exI [of _ v']) simp
qed

text \<open>A slow client.  With a timeout the server gives up a connection whose first 14 bytes are not there
  in time, and without one it waits for ever; once they are there no deadline is left for what
  follows, and what the server does is what it does without a clock.\<close>

theorem handle_deadline:
  assumes "14 \<le> length r"
  shows "if 0 < timeout \<and> now + timeout \<le> at
    then (handle_timed U timeout now at r w d :: (_ + ('v, 'g) serverConn \<times> bytes) \<times> _) =
      (Inl (w, True), d\<lparr>d_read := Some (now + timeout)\<rparr>)
    else (handle_timed U timeout now at r w d :: (_ + ('v, 'g) serverConn \<times> bytes) \<times> _) =
      (server_handle U r w, d\<lparr>d_read := None\<rparr>)"
  using assms by (simp add: handle_timed_def setReadTimeout_def Let_def)

lemma handle_deadline_witness:
  "let r = replicate 14 1; w = \<lparr>out = [], room = None\<rparr>; d = \<lparr>d_read = None, d_write = None\<rparr> in
   if (0 :: int) < 10 \<and> (0 :: int) + 10 \<le> 20
    then (handle_timed plain_utils 10 0 20 r w d :: (_ + (nat, nat) serverConn \<times> bytes) \<times> _) =
      (Inl (w, True), d\<lparr>d_read := Some (0 + 10)\<rparr>)
    else (handle_timed plain_utils 10 0 20 r w d :: (_ + (nat, nat) serverConn \<times> bytes) \<times> _) =
      (server_handle plain_utils r w, d\<lparr>d_read := None\<rparr>)"
  unfolding Let_def by (rule handle_deadline) simp

end
