(* ===== verification/ProxyMux.thy ===== *)
theory ProxyMux
  imports ServerGo
begin

text \<open>
  \<open>proxy/mux.go\<close>: the proxy's multiplexer, which passes requests on to the servers behind it.

  \<^item> \<open>proxy\<close> is the state of the process: the map of servers it shares with the listeners, and the
    objects the code points to.  A \<open>*Server\<close>, a \<open>*jtrpc.Client\<close>, a \<open>net.Conn\<close> and a \<open>*time.Timer\<close>
    are indices into the lists of those that exist; a nil pointer is \<open>None\<close>.  A client comes with
    the bytes its reader will still receive, a connection with those and with its other side.
  \<^item> A nil map can be read but not written, so the map of servers is an \<open>option\<close>.
  \<^item> A handler takes the state with the request and the response, and may panic or block.
  \<^item> \<open>penv\<close> holds what the code does not decide: the package \<open>utils\<close>, which client \<open>Range\<close> of a set
    visits first, the JSON codec, the order of maps, and what other goroutines do to the state
    while \<open>newClient\<close> waits for a connection.
\<close>

section \<open>Paths\<close>

definition slash :: byte where "slash = 47"

text \<open>\<open>strings.IndexByte\<close>: the index, or the length where the source gets \<open>-1\<close>.\<close>

definition index_byte :: "byte \<Rightarrow> gostring \<Rightarrow> nat option" where
  "index_byte c s =
     (let n = length (takeWhile (\<lambda>x. x \<noteq> c) s) in if n < length s then Some n else None)"

definition splitPath :: "gostring \<Rightarrow> gostring \<times> gostring" where
  "splitPath path0 =
     (let path = (if path0 = [] \<or> path0 ! 0 \<noteq> slash then slash # path0 else path0)
      in case index_byte slash (drop 1 path) of
           None \<Rightarrow> (path, [])
         | Some i0 \<Rightarrow> let i = i0 + 1 in (take i path, drop i path))"

section \<open>Servers and clients\<close>

type_synonym conn = "bytes \<times> conn_out"

text \<open>
  \<open>Server\<close>.  \<open>ps_clients\<close> is the set of clients, \<open>ps_tunnelConn\<close> the value stored in the atomic
  (a \<open>TConn\<close>, whose connection may be nil), \<open>ps_tch\<close> the connections waiting in the channel.
\<close>

record pserver =
  ps_Name :: gostring
  ps_Path :: gostring
  ps_Addr :: gostring
  ps_Hidden :: bool
  ps_clients :: "nat set option"
  ps_tunnelConn :: "nat option option"
  ps_tch :: "nat list option"
  ps_nWaiting :: "32 word"

definition tch_cap :: nat where "tch_cap = 15"

definition tunnel :: gostring where "tunnel = lit ''tunnel''"

text \<open>A server as JSON gives it: the exported fields, the others zero.\<close>

record srv_fields =
  f_Name :: gostring
  f_Path :: gostring
  f_Addr :: gostring
  f_Hidden :: bool

definition json_server :: "srv_fields \<Rightarrow> pserver" where
  "json_server f = \<lparr>ps_Name = f_Name f, ps_Path = f_Path f, ps_Addr = f_Addr f, ps_Hidden = f_Hidden f,
     ps_clients = None, ps_tunnelConn = None, ps_tch = None, ps_nWaiting = 0\<rparr>"

definition newClientsSet :: "nat set" where
  "newClientsSet = {}"

definition Server_init :: "pserver \<Rightarrow> pserver" where
  "Server_init s =
     (let s = (if ps_clients s = None then s\<lparr>ps_clients := Some newClientsSet\<rparr> else s);
          s = (if ps_tunnelConn s = None then s\<lparr>ps_tunnelConn := Some None\<rparr> else s)
      in if ps_Addr s = tunnel then s\<lparr>ps_tch := Some []\<rparr> else s)"

datatype timer = Pending | Fired | Stopped

record 'v proxy =
  p_servers :: "(gostring \<rightharpoonup> nat option) option"
  p_srvs :: "pserver list"
  p_clients :: "('v client \<times> bytes) list"
  p_conns :: "conn list"
  p_timers :: "timer list"
  p_dials :: "gostring \<Rightarrow> conn list"
  p_password :: gostring

text \<open>
  The codec of \<open>encoding/json\<close> for the three types the admin requests use.  A decoded object is
  the list of its members in the order \<open>range\<close> will visit them; \<open>None\<close> is JSON's \<open>null\<close>.
\<close>

record json =
  dec_servers :: "bytes \<Rightarrow> gostring + (gostring \<times> srv_fields option) list option"
  dec_paths :: "bytes \<Rightarrow> gostring + gostring list"
  enc_servers :: "(gostring \<rightharpoonup> srv_fields option) option \<Rightarrow> gostring + bytes"
  enc_errors :: "(gostring \<rightharpoonup> gostring) \<Rightarrow> gostring + bytes"

record 'v penv =
  e_utils :: utils
  e_pick :: "nat set \<Rightarrow> nat option"
  e_json :: json
  e_kvs :: "'v request \<Rightarrow> kvlist"
  e_orders :: "'v client \<Rightarrow> nat list \<times> nat list"
  e_others :: "'v proxy \<Rightarrow> 'v proxy"
  e_keys :: "gostring list"

text \<open>\<open>Range\<close> of a set calls its function on every element until it returns false.\<close>

definition picks :: "(nat set \<Rightarrow> nat option) \<Rightarrow> bool" where
  "picks f \<longleftrightarrow> (\<forall>S. finite S \<longrightarrow> (S = {} \<longrightarrow> f S = None) \<and> (S \<noteq> {} \<longrightarrow> (\<exists>x\<in>S. f S = Some x)))"

definition clientsSet_Get :: "'v penv \<Rightarrow> nat set \<Rightarrow> nat option" where
  "clientsSet_Get E cs = e_pick E cs"

datatype 'v send_error =
    DialRefused
  | DialFailed "'v dial_error"
  | NoTunnelConn
  | TunnelWrite ioerr
  | TunnelTimedOut
  | ClientErr client_error
  | ErrMaxAttempts

text \<open>\<open>jtrpc.Dial\<close>: \<open>p_dials\<close> are the connections the network will make to an address.\<close>

definition add_client :: "'v client \<Rightarrow> bytes \<Rightarrow> 'v proxy \<Rightarrow> 'v proxy \<times> nat" where
  "add_client c r P = (P\<lparr>p_clients := p_clients P @ [(c, r)]\<rparr>, length (p_clients P))"

definition Dial :: "'v penv \<Rightarrow> gostring \<Rightarrow> 'v proxy \<Rightarrow> 'v proxy \<times> ('v send_error + nat)" where
  "Dial E addr P =
     (case p_dials P addr of
        [] \<Rightarrow> (P, Inl DialRefused)
      | (r, w) # cs \<Rightarrow>
          let P = P\<lparr>p_dials := (p_dials P)(addr := cs)\<rparr>
          in case WithRW (e_utils E) r w of
               Inl e \<Rightarrow> (P, Inl (DialFailed e))
             | Inr (c, r') \<Rightarrow> (case add_client c r' P of (P, i) \<Rightarrow> (P, Inr i)))"

text \<open>\<open>if n := nWaiting.Add(-1); n < 0 { nWaiting.Add(1) }\<close>\<close>

definition waiting_done :: "32 word \<Rightarrow> 32 word" where
  "waiting_done n = (let n' = n - 1 in if sint n' < 0 then n' + 1 else n')"

definition upd_srv :: "nat \<Rightarrow> (pserver \<Rightarrow> pserver) \<Rightarrow> 'v proxy \<Rightarrow> 'v proxy" where
  "upd_srv i f P = P\<lparr>p_srvs := (p_srvs P)[i := f (p_srvs P ! i)]\<rparr>"

text \<open>The message that asks for a new connection: \<open>tunnelInitial\<close>, the length of the path, the path.\<close>

definition tunnelInitial :: byte where "tunnelInitial = 1"

definition tunnel_request :: "gostring \<Rightarrow> bytes" where
  "tunnel_request path = ([tunnelInitial] @ le_put 2 (of_nat (length path) :: u16)) @ path"

section \<open>Connecting to a server\<close>

text \<open>
  The half of \<open>newClient\<close> for a tunnelled server that runs before it waits: ask for a
  connection on the tunnel, having announced that one is expected.
\<close>

definition ask_tunnel :: "'v penv \<Rightarrow> nat \<Rightarrow> 'v proxy \<Rightarrow> ('v proxy \<times> 'v send_error option) outcome" where
  "ask_tunnel E i P =
     (case ps_tunnelConn (p_srvs P ! i) of
        None \<Rightarrow> Panics NilDeref
      | Some None \<Rightarrow> Returns (P, Some NoTunnelConn)
      | Some (Some t) \<Rightarrow>
          let buf = tunnel_request (ps_Path (p_srvs P ! i));
              P = upd_srv i (\<lambda>s. s\<lparr>ps_nWaiting := ps_nWaiting s + 1\<rparr>) P
          in case WriteAll (e_utils E) (snd (p_conns P ! t)) buf of (w, n, e) \<Rightarrow>
               let P = P\<lparr>p_conns := (p_conns P)[t := (fst (p_conns P ! t), w)]\<rparr>
               in case e of
                    Some x \<Rightarrow>
                      Returns (upd_srv i (\<lambda>s. s\<lparr>ps_nWaiting := waiting_done (ps_nWaiting s)\<rparr>) P,
                        Some (TunnelWrite x))
                  | None \<Rightarrow> Returns (P, None))"

text \<open>
  The \<open>select\<close> behind it: a connection that the tunnel's side has put into the channel, or the
  timeout.  A receive from a nil channel is never ready.
\<close>

definition await_tunnel :: "'v penv \<Rightarrow> nat \<Rightarrow> 'v proxy \<Rightarrow> 'v proxy \<times> ('v send_error + nat)" where
  "await_tunnel E i P =
     (case ps_tch (p_srvs P ! i) of
        Some (k # ks) \<Rightarrow>
          let P = upd_srv i (\<lambda>s. s\<lparr>ps_tch := Some ks\<rparr>) P
          in (case p_conns P ! k of (r, w) \<Rightarrow>
                (case WithRW (e_utils E) r w of
                   Inl e \<Rightarrow> (P, Inl (DialFailed e))
                 | Inr (c, r') \<Rightarrow> (case add_client c r' P of (P, j) \<Rightarrow> (P, Inr j))))
      | _ \<Rightarrow>
          (upd_srv i (\<lambda>s. s\<lparr>ps_nWaiting := waiting_done (ps_nWaiting s)\<rparr>) P, Inl TunnelTimedOut))"

definition newClient :: "'v penv \<Rightarrow> nat \<Rightarrow> 'v proxy \<Rightarrow> ('v proxy \<times> ('v send_error + nat)) outcome" where
  "newClient E i P =
     (if ps_Addr (p_srvs P ! i) \<noteq> tunnel then Returns (Dial E (ps_Addr (p_srvs P ! i)) P)
      else obind (ask_tunnel E i P) (\<lambda>(P, e).
        case e of
          Some x \<Rightarrow> Returns (P, Inl x)
        | None \<Rightarrow> Returns (await_tunnel E i (e_others E P))))"

text \<open>
  \<open>sendReq\<close>: at most \<open>maxReqAttempts\<close> rounds.  \<open>client = nil\<close> in the source sets the local variable:
  a closed client stays in the set.  \<open>Send\<close> gives the request a new id and leaves its headers
  encoded and its body read; the result is the client and the response channel.  A closed client
  that has no error yet makes \<open>Send\<close> return a zero \<open>RespChan\<close> and no error; every caller then
  receives from its nil channel, so the model blocks.
\<close>

definition maxReqAttempts :: nat where "maxReqAttempts = 5"

definition sent_request :: "utils \<Rightarrow> kvlist \<Rightarrow> 'v request \<Rightarrow> 'v client \<Rightarrow> 'v request" where
  "sent_request U kvs req c = (if c_isClosed c then req else fst (Send_write U kvs req c))"

definition pick_client :: "'v penv \<Rightarrow> nat \<Rightarrow> 'v proxy \<Rightarrow> ('v proxy \<times> ('v send_error + nat)) outcome" where
  "pick_client E i P =
     (case ps_clients (p_srvs P ! i) of
        None \<Rightarrow> Panics NilDeref
      | Some cs \<Rightarrow>
          (case clientsSet_Get E cs of
             Some j \<Rightarrow> Returns (P, Inr j)
           | None \<Rightarrow>
               obind (newClient E i P) (\<lambda>(P, r).
                 case r of
                   Inl e \<Rightarrow> Returns (P, Inl e)
                 | Inr j \<Rightarrow>
                     Returns (upd_srv i (\<lambda>s. s\<lparr>ps_clients := map_option (insert j) (ps_clients s)\<rparr>) P, Inr j))))"

fun sendReq_loop :: "'v penv \<Rightarrow> nat \<Rightarrow> nat \<Rightarrow> 'v request \<Rightarrow> 'v proxy \<Rightarrow>
    ('v proxy \<times> 'v request \<times> ('v send_error + nat \<times> nat)) outcome" where
  "sendReq_loop E 0 i req P = Returns (P, req, Inl ErrMaxAttempts)"
| "sendReq_loop E (Suc n) i req P =
     obind (pick_client E i P) (\<lambda>(P, r).
       case r of
         Inl e \<Rightarrow> Returns (P, req, Inl e)
       | Inr j \<Rightarrow>
           (case p_clients P ! j of (c, inp) \<Rightarrow>
             (case Client_Send (e_utils E) (e_kvs E req) req c of (res, c') \<Rightarrow>
                let req' = sent_request (e_utils E) (e_kvs E req) req c;
                    P = P\<lparr>p_clients := (p_clients P)[j := (c', inp)]\<rparr>
                in case res of
                     Inr q \<Rightarrow> Returns (P, req', Inr (j, q))
                   | Inl None \<Rightarrow> Blocks
                   | Inl (Some e) \<Rightarrow>
                       if c_isClosed c' then sendReq_loop E n i req' P
                       else Returns (P, req', Inl (ClientErr e)))))"

definition sendReq :: "'v penv \<Rightarrow> 'v request \<Rightarrow> nat \<Rightarrow> 'v proxy \<Rightarrow>
    ('v proxy \<times> 'v request \<times> ('v send_error + nat \<times> nat)) outcome" where
  "sendReq E req i P = sendReq_loop E maxReqAttempts i req P"

text \<open>
  \<open>pr, ok := <-respChan.Chan()\<close>: the client's reader goroutine reads its frames until the channel
  has the response or is closed.  When its input ends, it closes the client and with it the channel.
  A client that is closed has no reader any more.
\<close>

function await_resp :: "utils \<Rightarrow> ('v client \<Rightarrow> nat list \<times> nat list) \<Rightarrow> nat \<Rightarrow> 'v client \<Rightarrow> bytes \<Rightarrow>
    ('v client \<times> bytes \<times> ('v, nat) response option) outcome" where
  "await_resp U orders q c r =
     (case ch (resp_chans c ! q) of
        Some resp \<Rightarrow>
          Returns (c\<lparr>resp_chans := (resp_chans c)[q := (resp_chans c ! q)\<lparr>ch := None\<rparr>]\<rparr>, r, Some resp)
      | None \<Rightarrow>
          if ch_closed (resp_chans c ! q) then Returns (c, r, None)
          else if c_isClosed c then Blocks
          else (case client_frame U c r of
                  Panics p \<Rightarrow> Panics p
                | Blocks \<Rightarrow> Blocks
                | Returns (c', r', None) \<Rightarrow> await_resp U orders q c' r'
                | Returns (c', r', Some e) \<Rightarrow>
                    (case orders c' of (ps, qs) \<Rightarrow>
                       obind (closeWithErr U ps qs (Some e) c') (\<lambda>(c'', x).
                         case ch (resp_chans c'' ! q) of
                           Some resp \<Rightarrow>
                             Returns (c''\<lparr>resp_chans := (resp_chans c'')[q := (resp_chans c'' ! q)\<lparr>ch := None\<rparr>]\<rparr>, r', Some resp)
                         | None \<Rightarrow> if ch_closed (resp_chans c'' ! q) then Returns (c'', r', None) else Blocks))))"
  by pat_completeness auto

termination
  by (relation "measure (\<lambda>(U, orders, q, c, r). length r)") (auto dest: client_frame_shrinks)

declare await_resp.simps [simp del]

text \<open>Waiting at the proxy for the channel \<open>q\<close> of client \<open>j\<close>.\<close>

definition await_at :: "'v penv \<Rightarrow> nat \<times> nat \<Rightarrow> 'v proxy \<Rightarrow>
    ('v proxy \<times> ('v, nat) response option) outcome" where
  "await_at E = (\<lambda>(j, q) P.
     case p_clients P ! j of (c, r) \<Rightarrow>
       obind (await_resp (e_utils E) (e_orders E) q c r) (\<lambda>(c', r', resp).
         Returns (P\<lparr>p_clients := (p_clients P)[j := (c', r')]\<rparr>, resp)))"

section \<open>Middleware and handlers\<close>

record minfo =
  mi_server :: "nat option"
  mi_first :: gostring
  mi_rest :: gostring
  mi_stream :: "(nat \<times> nat) option"
  mi_timer :: "nat option"

text \<open>The values in a request's context: a \<open>MiddlewareInfo\<close>, or one of another type.\<close>

datatype 'x pval = Info minfo | OtherValue 'x

type_synonym 'x preq = "'x pval request"
type_synonym 'x presp = "('x pval, nat) response"
type_synonym 'x pstate = "'x pval proxy"
type_synonym 'x phandler =
  "'x pstate \<Rightarrow> 'x preq \<Rightarrow> 'x presp \<Rightarrow> ('x pstate \<times> 'x preq \<times> 'x presp) outcome"

definition ctxKey :: string where "ctxKey = ''ctxkey''"

definition ctx_info :: "'x preq \<Rightarrow> minfo option" where
  "ctx_info req =
     (case ctx_Value (rq_ctx req) ctxKey of Some (Info mi) \<Rightarrow> Some mi | _ \<Rightarrow> None)"

definition admin :: gostring where "admin = lit ''/admin''"

definition path_info :: "nat option \<Rightarrow> gostring \<Rightarrow> gostring \<Rightarrow> minfo" where
  "path_info sv first rest = \<lparr>mi_server = sv, mi_first = first, mi_rest = rest,
     mi_stream = None, mi_timer = None\<rparr>"

text \<open>The \<open>defer\<close> of the source puts the path back on every return.\<close>

definition px_middleware :: "'x phandler \<Rightarrow> 'x phandler" where
  "px_middleware nxt = (\<lambda>P req resp.
     let path = Path req;
         restore = (\<lambda>(P, req, resp). Returns (P, req\<lparr>Path := path\<rparr>, resp))
     in case splitPath path of (first, rest) \<Rightarrow>
          if first = admin
          then obind (nxt P (SetContext (WithValue (rq_ctx req) ctxKey (Info (path_info None first rest))) req) resp)
                 restore
          else
            (case (case p_servers P of None \<Rightarrow> None | Some mp \<Rightarrow> mp first) of
               None \<Rightarrow> restore (P, req, resp\<lparr>StatusCode := StatusNotFound\<rparr>)
             | Some sv \<Rightarrow>
                 obind (nxt P (SetContext (WithValue (rq_ctx req) ctxKey (Info (path_info sv first rest))) req) resp)
                   restore))"

definition fail500 :: "'x presp \<Rightarrow> 'x presp" where
  "fail500 resp = resp\<lparr>StatusCode := StatusInternalServerError\<rparr>"

text \<open>What is logged of a server and of a request.\<close>

definition bool_text :: "bool \<Rightarrow> gostring" where
  "bool_text b = (if b then lit ''true'' else lit ''false'')"

definition Server_LogString :: "pserver \<Rightarrow> gostring" where
  "Server_LogString s = lit ''name: '' @ ps_Name s @ lit '' | path: '' @ ps_Path s @ lit '' | addr: '' @ ps_Addr s @
     lit '' | hiden: '' @ bool_text (ps_Hidden s)"

definition MiddlewareInfo_LogString :: "'v proxy \<Rightarrow> minfo \<Rightarrow> gostring" where
  "MiddlewareInfo_LogString P mi =
     (let srvrLogStr = (case mi_server mi of None \<Rightarrow> lit ''server: N/A'' | Some i \<Rightarrow> Server_LogString (p_srvs P ! i))
      in lit ''path: ['' @ mi_first mi @ lit '']'' @ mi_rest mi @ lit '' | stream: '' @
         bool_text (mi_stream mi \<noteq> None) @ lit '' | server: '' @ srvrLogStr)"

text \<open>
  \<open>streamMiddleware\<close>: a copy of the request asks the server for a stream; \<open>next\<close> runs with the
  stream and its timer in the context.  The copy's body is nil.
\<close>

definition px_streamMiddleware :: "'x pval penv \<Rightarrow> 'x phandler \<Rightarrow> 'x phandler" where
  "px_streamMiddleware E nxt = (\<lambda>P req resp.
     case ctx_info req of
       None \<Rightarrow>
         if fst (splitPath (Path req)) = admin then nxt P req resp
         else Returns (P, req, fail500 resp)
     | Some mi \<Rightarrow>
         (case mi_server mi of
            None \<Rightarrow> Returns (P, req, fail500 resp)
          | Some i \<Rightarrow>
              if ps_clients (p_srvs P ! i) = None then Returns (P, req, fail500 resp)
              else
                let preq = SetStream True ((Request_Clone (e_utils E) (rq_ctx req) req)\<lparr>Path := mi_rest mi\<rparr>)
                in obind (sendReq E preq i P) (\<lambda>(P, preq, r).
                  case r of
                    Inl e \<Rightarrow> Returns (P, req, fail500 resp)
                  | Inr (j, q) \<Rightarrow>
                      obind (await_at E (j, q) P) (\<lambda>(P, pr).
                        case pr of
                          None \<Rightarrow> Returns (P, req, fail500 resp)
                        | Some pr \<Rightarrow>
                            (case rStream pr of
                               None \<Rightarrow> Returns (P, req, fail500 resp)
                             | Some p \<Rightarrow>
                                 let mi = mi\<lparr>mi_stream := Some (j, p), mi_timer := Some (length (p_timers P))\<rparr>;
                                     P = P\<lparr>p_timers := p_timers P @ [Pending]\<rparr>;
                                     req = SetContext (WithValue (rq_ctx req) ctxKey (Info mi)) req
                                 in obind (nxt P req resp) (\<lambda>(P, req, resp).
                                      Returns (P, req, ShallowCopyFrom pr resp)))))))"

definition px_jtrpcHandler :: "'x pval penv \<Rightarrow> 'x phandler" where
  "px_jtrpcHandler E = (\<lambda>P req resp.
     case ctx_info req of
       None \<Rightarrow> Returns (P, req, fail500 resp)
     | Some mi \<Rightarrow>
         (case mi_server mi of
            None \<Rightarrow> Returns (P, req, fail500 resp)
          | Some i \<Rightarrow>
              if ps_clients (p_srvs P ! i) = None then Returns (P, req, fail500 resp)
              else
                let req = req\<lparr>Path := mi_rest mi\<rparr>
                in obind (sendReq E req i P) (\<lambda>(P, req, r).
                  case r of
                    Inl e \<Rightarrow> Returns (P, req, fail500 resp)
                  | Inr (j, q) \<Rightarrow>
                      obind (await_at E (j, q) P) (\<lambda>(P, pr).
                        case pr of
                          None \<Rightarrow> Returns (P, req, fail500 resp)
                        | Some pr \<Rightarrow> Returns (P, req, ShallowCopyFrom pr resp)))))"

section \<open>Admin requests\<close>

definition SetBodyString :: "gostring \<Rightarrow> ('v, 's) response \<Rightarrow> ('v, 's) response" where
  "SetBodyString s r = SetBodyReader s (int (length s)) r"

definition SetStatusBodyString :: "byte \<Rightarrow> gostring \<Rightarrow> ('v, 's) response \<Rightarrow> ('v, 's) response" where
  "SetStatusBodyString status body r = SetBodyString body (r\<lparr>StatusCode := status\<rparr>)"

text \<open>
  The loop of \<open>getServersHandler\<close> writes into a map that was declared and never made: it panics at
  the first server it wants to list.  \<open>e_keys\<close> is the order in which \<open>range\<close> visits the map.
\<close>

fun visible_loop :: "bool \<Rightarrow> pserver list \<Rightarrow> (gostring \<rightharpoonup> nat option) \<Rightarrow> gostring list \<Rightarrow> unit outcome" where
  "visible_loop authed srvs mp [] = Returns ()"
| "visible_loop authed srvs mp (k # ks) =
     (case mp k of
        None \<Rightarrow> visible_loop authed srvs mp ks
      | Some sv \<Rightarrow>
          if authed then Panics NilMapWrite
          else (case sv of
                  None \<Rightarrow> Panics NilDeref
                | Some i \<Rightarrow> if \<not> ps_Hidden (srvs ! i) then Panics NilMapWrite
                           else visible_loop authed srvs mp ks))"

definition getServersHandler :: "'x pval penv \<Rightarrow> bool \<Rightarrow> 'x phandler" where
  "getServersHandler E authed = (\<lambda>P req resp.
     obind (visible_loop authed (p_srvs P) (case p_servers P of None \<Rightarrow> Map.empty | Some mp \<Rightarrow> mp) (e_keys E))
       (\<lambda>_. case enc_servers (e_json E) None of
              Inr b \<Rightarrow> Returns (P, req, Response_SetBodyBytes b resp)
            | Inl e \<Rightarrow> Returns (P, req, fail500 resp)))"

definition setAdminSrvrsErr :: "json \<Rightarrow> (gostring \<rightharpoonup> gostring) \<Rightarrow> nat \<Rightarrow> ('v, 's) response \<Rightarrow> ('v, 's) response" where
  "setAdminSrvrsErr J errMap otherLen resp =
     (let le = card (dom errMap) in
      if le \<noteq> 0
      then if otherLen \<noteq> le
           then (case enc_errors J errMap of
                   Inr b \<Rightarrow> SetStatusBodyBytes StatusPartialError b resp
                 | Inl e \<Rightarrow> SetStatusBodyString StatusPartialError
                     (lit ''partial error with request; error sending response'') resp)
           else (case enc_errors J errMap of
                   Inr b \<Rightarrow> SetStatusBodyBytes StatusBadRequest b resp
                 | Inl e \<Rightarrow> SetStatusBodyString StatusBadRequest
                     (lit ''error with request; error sending response'') resp)
      else resp)"

text \<open>\<open>req.Body\<close> is read by the decoder; reading a nil \<open>*bytes.Buffer\<close> panics.\<close>

definition decode_body :: "(bytes \<Rightarrow> gostring + 'd) \<Rightarrow> 'x preq \<Rightarrow> (gostring + 'd) outcome" where
  "decode_body dec req = (case rq_Body req of None \<Rightarrow> Panics NilDeref | Some b \<Rightarrow> Returns (dec b))"

definition admin_err :: gostring where "admin_err = lit ''First path segment cannot be /admin''"
definition exists_err :: gostring where "exists_err = lit ''Already exists''"
definition missing_err :: gostring where "missing_err = lit ''Path doesn't exist''"

text \<open>A decoded \<open>*Server\<close> gets its place in memory when it is first used; \<open>init\<close> of a nil one panics.\<close>

fun new_loop :: "(gostring \<times> srv_fields option) list \<Rightarrow> (gostring \<rightharpoonup> nat option) option \<Rightarrow> pserver list \<Rightarrow>
    (gostring \<rightharpoonup> gostring) \<Rightarrow>
    ((gostring \<rightharpoonup> nat option) option \<times> pserver list \<times> (gostring \<rightharpoonup> gostring)) outcome" where
  "new_loop [] mp srvs errs = Returns (mp, srvs, errs)"
| "new_loop ((path, sv) # rest) mp srvs errs =
     (if fst (splitPath path) = admin then new_loop rest mp srvs (errs(path \<mapsto> admin_err))
      else if map_load mp path \<noteq> None then new_loop rest mp srvs (errs(path \<mapsto> exists_err))
      else case sv of
             None \<Rightarrow> Panics NilDeref
           | Some s \<Rightarrow>
               obind (map_store path (Some (Some (length srvs))) mp) (\<lambda>mp.
                 new_loop rest mp (srvs @ [Server_init (json_server s)]) errs))"

definition newServersHandler :: "'x pval penv \<Rightarrow> 'x phandler" where
  "newServersHandler E = (\<lambda>P req resp.
     obind (decode_body (dec_servers (e_json E)) req) (\<lambda>d.
       case d of
         Inl e \<Rightarrow> Returns (P, req, SetStatusBodyString StatusBadRequest e resp)
       | Inr svs \<Rightarrow>
           let servers = (case svs of None \<Rightarrow> [] | Some l \<Rightarrow> l)
           in obind (new_loop servers (p_servers P) (p_srvs P) Map.empty) (\<lambda>(mp, srvs, errs).
                Returns (P\<lparr>p_servers := mp, p_srvs := srvs\<rparr>, req,
                  setAdminSrvrsErr (e_json E) errs (length servers) resp))))"

fun del_loop :: "gostring list \<Rightarrow> (gostring \<rightharpoonup> nat option) option \<Rightarrow> (gostring \<rightharpoonup> gostring) \<Rightarrow>
    (gostring \<rightharpoonup> nat option) option \<times> (gostring \<rightharpoonup> gostring)" where
  "del_loop [] mp errs = (mp, errs)"
| "del_loop (path # ps) mp errs =
     (if map_load mp path \<noteq> None then del_loop ps (map_option (\<lambda>m. m(path := None)) mp) errs
      else del_loop ps mp (errs(path \<mapsto> missing_err)))"

definition delServersHandler :: "'x pval penv \<Rightarrow> 'x phandler" where
  "delServersHandler E = (\<lambda>P req resp.
     obind (decode_body (dec_paths (e_json E)) req) (\<lambda>d.
       case d of
         Inl e \<Rightarrow> Returns (P, req, SetStatusBodyString StatusBadRequest e resp)
       | Inr paths \<Rightarrow>
           (case del_loop paths (p_servers P) Map.empty of (mp, errs) \<Rightarrow>
              Returns (P\<lparr>p_servers := mp\<rparr>, req,
                setAdminSrvrsErr (e_json E) errs (length paths) resp))))"

text \<open>
  \<open>replaceServersHandler\<close>: entries under \<open>/admin\<close> are reported and not initialised, and installed
  with the others; a decoded \<open>null\<close> makes the map nil.
\<close>

fun replace_loop :: "(gostring \<times> srv_fields option) list \<Rightarrow> (gostring \<rightharpoonup> nat option) \<Rightarrow> pserver list \<Rightarrow>
    (gostring \<rightharpoonup> gostring) \<Rightarrow>
    ((gostring \<rightharpoonup> nat option) \<times> pserver list \<times> (gostring \<rightharpoonup> gostring)) outcome" where
  "replace_loop [] mp srvs errs = Returns (mp, srvs, errs)"
| "replace_loop ((path, sv) # rest) mp srvs errs =
     (if fst (splitPath path) = admin
      then (case sv of
              None \<Rightarrow> replace_loop rest (mp(path \<mapsto> None)) srvs (errs(path \<mapsto> admin_err))
            | Some s \<Rightarrow> replace_loop rest (mp(path \<mapsto> Some (length srvs))) (srvs @ [json_server s]) (errs(path \<mapsto> admin_err)))
      else case sv of
             None \<Rightarrow> Panics NilDeref
           | Some s \<Rightarrow> replace_loop rest (mp(path \<mapsto> Some (length srvs))) (srvs @ [Server_init (json_server s)]) errs)"

definition replaceServersHandler :: "'x pval penv \<Rightarrow> 'x phandler" where
  "replaceServersHandler E = (\<lambda>P req resp.
     obind (decode_body (dec_servers (e_json E)) req) (\<lambda>d.
       case d of
         Inl e \<Rightarrow> Returns (P, req, SetStatusBodyString StatusBadRequest e resp)
       | Inr svs \<Rightarrow>
           let servers = (case svs of None \<Rightarrow> [] | Some l \<Rightarrow> l)
           in obind (replace_loop servers Map.empty (p_srvs P) Map.empty) (\<lambda>(mp, srvs, errs).
                Returns (P\<lparr>p_servers := (case svs of None \<Rightarrow> None | Some _ \<Rightarrow> Some mp), p_srvs := srvs\<rparr>, req,
                  setAdminSrvrsErr (e_json E) errs (length servers) resp))))"

definition adminHandler :: "'x pval penv \<Rightarrow> 'x phandler" where
  "adminHandler E = (\<lambda>P req resp.
     case ctx_info req of
       None \<Rightarrow> Returns (P, req, fail500 resp)
     | Some mi \<Rightarrow>
         (case rq_Headers req of
            None \<Rightarrow> Panics NilDeref
          | Some hs \<Rightarrow>
              obind (GetChecked (lit ''password'') hs) (\<lambda>(pwd, ok).
                if \<not> ok \<or> pwd \<noteq> p_password P
                then if mi_rest mi = lit ''/servers'' then getServersHandler E False P req resp
                     else Returns (P, req, SetBodyString (lit ''invalid credentials'')
                            (resp\<lparr>StatusCode := StatusUnauthorized\<rparr>))
                else if mi_rest mi = lit ''/servers'' then getServersHandler E True P req resp
                else if mi_rest mi = lit ''/servers/new'' then newServersHandler E P req resp
                else if mi_rest mi = lit ''/servers/del'' then delServersHandler E P req resp
                else if mi_rest mi = lit ''/servers/replace'' then replaceServersHandler E P req resp
                else Returns (P, req, resp))))"

section \<open>Streams through the proxy\<close>

text \<open>
  One end of a proxied stream: the stream, the ids registered on its connection, the connection.
  \<open>px_jtrpcStreamHandler\<close> returns the two streams it starts to pipe.  \<open>time.AfterFunc\<close> leaves the
  timer's channel nil, so the receive behind a failed \<open>Stop\<close> blocks for ever.
\<close>

type_synonym endpoint = "stream \<times> u64 set \<times> conn_out"

definition close_end :: "utils \<Rightarrow> message \<Rightarrow> endpoint \<Rightarrow> endpoint outcome" where
  "close_end U msg = (\<lambda>(s, ids, w).
     obind (CloseWithMessage U False False msg s ids w) (\<lambda>(s', ids', w', e). Returns (s', ids', w')))"

definition internal_error :: message where
  "internal_error = NewMessage (lit ''internal server error'')"

definition px_jtrpcStreamHandler :: "utils \<Rightarrow> 'x preq \<Rightarrow> 'x pstate \<Rightarrow> endpoint \<Rightarrow>
    ('x pstate \<times> endpoint \<times> (nat \<times> nat) option) outcome" where
  "px_jtrpcStreamHandler U req P c =
     (case ctx_info req of
        None \<Rightarrow> obind (close_end U internal_error c) (\<lambda>c. Returns (P, c, None))
      | Some mi \<Rightarrow>
          (case mi_timer mi of
             None \<Rightarrow> Panics NilDeref
           | Some t \<Rightarrow>
               if p_timers P ! t \<noteq> Pending then Blocks
               else
                 let P = P\<lparr>p_timers := (p_timers P)[t := Stopped]\<rparr>
                 in case mi_stream mi of
                      None \<Rightarrow> obind (close_end U internal_error c) (\<lambda>c. Returns (P, c, None))
                    | Some ref \<Rightarrow> Returns (P, c, Some ref)))"

text \<open>\<open>GetStreamClosedError\<close>\<close>

definition GetStreamClosedError :: "stream_error \<Rightarrow> closed_error option" where
  "GetStreamClosedError err = (case err of StreamClosed sce \<Rightarrow> Some sce | _ \<Rightarrow> None)"

text \<open>One round of \<open>pipeStreams\<close>: the two ends, and whether the loop goes on.  A nil \<open>*StreamClosedError\<close>
  is an \<open>error\<close> that is not nil, and \<open>GetStreamClosedError\<close> gives it back as nil.\<close>

definition send_error_msg :: message where
  "send_error_msg = NewMessage (lit ''send error'')"

definition forward :: "utils \<Rightarrow> message \<Rightarrow> endpoint \<Rightarrow> endpoint \<Rightarrow> (endpoint \<times> endpoint \<times> bool) outcome" where
  "forward U msg frm dst =
     (case dst of (s, ids, w) \<Rightarrow>
        obind (Stream_Send U False msg s w) (\<lambda>(w', e).
          case e of
            None \<Rightarrow> Returns (frm, (s, ids, w'), True)
          | Some _ \<Rightarrow>
              obind (close_end U send_error_msg (s, ids, w')) (\<lambda>dst.
                obind (close_end U send_error_msg frm) (\<lambda>frm. Returns (frm, dst, False)))))"

definition pipe_round :: "utils \<Rightarrow> int \<Rightarrow> message option \<Rightarrow> endpoint \<Rightarrow> endpoint \<Rightarrow>
    (endpoint \<times> endpoint \<times> bool) outcome" where
  "pipe_round U now late frm dst =
     (case frm of (s, ids, w) \<Rightarrow>
        obind (Recv now late s) (\<lambda>(s', r).
          case r of
            Inl (Some err) \<Rightarrow>
              (case GetStreamClosedError err of
                 None \<Rightarrow> Returns ((s', ids, w), dst, True)
               | Some sce \<Rightarrow>
                   obind (close_end U (if HasMessage sce then sce_Message sce else zeroMessage) dst)
                     (\<lambda>dst. Returns ((s', ids, w), dst, False)))
          | Inl None \<Rightarrow> Returns ((s', ids, w), dst, True)
          | Inr msg \<Rightarrow> forward U msg (s', ids, w) dst))"

section \<open>The multiplexer\<close>

text \<open>
  \<open>Mux\<close> embeds a zero \<open>MapMux\<close>, whose maps are nil; \<open>newMux\<close> adds its own middleware to it.  A
  handler found there wins; every other path is passed on.
\<close>

type_synonym 'x pstream_handler =
  "'x preq \<Rightarrow> 'x pstate \<Rightarrow> endpoint \<Rightarrow> ('x pstate \<times> endpoint \<times> (nat \<times> nat) option) outcome"

type_synonym 'x pmux = "('x phandler, 'x pstream_handler) mapmux"

definition zero_mapmux :: "('h, 'g) mapmux" where
  "zero_mapmux = \<lparr>globalMiddleware = None, middleware = None, streamMiddleware = None,
     handlers = None, middlewares = None, streamMiddlewares = None, streamHandlers = None\<rparr>"

definition newMux :: "'x pval penv \<Rightarrow> 'x pmux" where
  "newMux E = StreamMiddleware [px_streamMiddleware E] (GlobalMiddleware [px_middleware] zero_mapmux)"

text \<open>The map of servers \<open>newMux\<close> keeps: an empty one for a nil one.\<close>

definition mux_servers :: "(gostring \<rightharpoonup> nat option) option \<Rightarrow> (gostring \<rightharpoonup> nat option) option" where
  "mux_servers servers = (case servers of None \<Rightarrow> Some Map.empty | Some mp \<Rightarrow> Some mp)"

definition px_GetHandler :: "'x pval penv \<Rightarrow> 'x pmux \<Rightarrow> gostring \<Rightarrow> 'x phandler option" where
  "px_GetHandler E mm path =
     (if fst (splitPath path) = admin then Some (adminHandler E)
      else case GetHandler mm path of None \<Rightarrow> Some (px_jtrpcHandler E) | Some h \<Rightarrow> Some h)"

definition px_GetStreamHandler :: "'x pval penv \<Rightarrow> 'x pmux \<Rightarrow> gostring \<Rightarrow> 'x pstream_handler option" where
  "px_GetStreamHandler E mm path =
     (if fst (splitPath path) = admin then None
      else case GetStreamHandler mm path of
             None \<Rightarrow> Some (px_jtrpcStreamHandler (e_utils E)) | Some h \<Rightarrow> Some h)"

text \<open>The multiplexer as \<open>jtrpc.Server\<close> reads it; the other methods are those of the embedded \<open>MapMux\<close>.\<close>

definition px_mux :: "'x pval penv \<Rightarrow> ('x phandler, 'x pstream_handler) mux" where
  "px_mux E = (MapMux_mux (newMux E))\<lparr>getHandler := px_GetHandler E (newMux E),
     getStreamHandler := px_GetStreamHandler E (newMux E)\<rparr>"

section \<open>Splitting paths\<close>

text \<open>A path as the code reads it: with a slash in front.\<close>

definition slash_front :: "gostring \<Rightarrow> gostring" where
  "slash_front p = (if p \<noteq> [] \<and> hd p = slash then p else slash # p)"

lemma index_byte_simps [simp]:
  "index_byte c [] = None"
  "index_byte c (x # s) = (if x = c then Some 0 else map_option Suc (index_byte c s))"
  by (auto simp: index_byte_def Let_def)

lemma index_byte_Some:
  "index_byte c s = Some n \<longleftrightarrow> n < length s \<and> s ! n = c \<and> c \<notin> set (take n s)"
proof (induction s arbitrary: n)
  case (Cons x s)
  then show ?case by (cases n) auto
qed simp

lemma index_byte_None: "index_byte c s = None \<longleftrightarrow> c \<notin> set s"
  by (induction s) auto

definition split_ok :: "gostring \<Rightarrow> gostring \<Rightarrow> gostring \<Rightarrow> bool" where
  "split_ok p first rest \<longleftrightarrow> first @ rest = slash_front p \<and> first \<noteq> [] \<and> hd first = slash \<and>
     slash \<notin> set (tl first) \<and> (rest = [] \<or> hd rest = slash)"

lemma splitPath_slash:
  "splitPath (slash # s) =
     (case index_byte slash s of None \<Rightarrow> (slash # s, []) | Some i \<Rightarrow> (slash # take i s, drop i s))"
  by (simp add: splitPath_def Let_def split: option.split)

lemma splitPath_front: "splitPath p = splitPath (slash_front p)"
  by (cases p) (simp_all add: splitPath_def slash_front_def)

lemma slash_front_Cons: "slash_front p = slash # tl (slash_front p)"
  by (cases p) (simp_all add: slash_front_def)

lemma split_unique:
  "\<lbrakk>a @ r = b @ r'; c \<notin> set a; c \<notin> set b; r = [] \<or> hd r = c; r' = [] \<or> hd r' = c\<rbrakk>
    \<Longrightarrow> a = b \<and> r = r'"
proof (induction a arbitrary: b)
  case Nil
  then show ?case by (cases b) auto
next
  case (Cons x a)
  then show ?case by (cases b) auto
qed

lemma splitPath_ok: "split_ok p (fst (splitPath p)) (snd (splitPath p))"
proof -
  define s where "s = tl (slash_front p)"
  have f: "slash_front p = slash # s" unfolding s_def by (rule slash_front_Cons)
  have "splitPath p = (case index_byte slash s of None \<Rightarrow> (slash # s, [])
      | Some i \<Rightarrow> (slash # take i s, drop i s))"
    unfolding splitPath_front [of p] f by (rule splitPath_slash)
  then show ?thesis
    by (cases "index_byte slash s")
      (auto simp: split_ok_def f index_byte_None index_byte_Some hd_drop_conv_nth)
qed

lemma splitPath_iff: "splitPath p = (first, rest) \<longleftrightarrow> split_ok p first rest"
proof
  assume ok: "split_ok p first rest"
  obtain f r where fr: "splitPath p = (f, r)" by (cases "splitPath p")
  with splitPath_ok [of p] have "split_ok p f r" by simp
  have ab: "first = slash # tl first" "f = slash # tl f"
    using ok \<open>split_ok p f r\<close> unfolding split_ok_def by (metis list.collapse)+
  have "tl first = tl f \<and> rest = r"
  proof (rule split_unique [of _ _ _ _ slash])
    have "slash # (tl first @ rest) = slash # (tl f @ r)"
      using ok \<open>split_ok p f r\<close> ab by (metis append_Cons split_ok_def)
    then show "tl first @ rest = tl f @ r" by simp
  qed (use ok \<open>split_ok p f r\<close> in \<open>auto simp: split_ok_def\<close>)
  then show "splitPath p = (first, rest)" using fr ab by metis
qed (use splitPath_ok [of p] in auto)

lemma splitPath_first: "splitPath (fst (splitPath p)) = (fst (splitPath p), [])"
  using splitPath_ok [of p] unfolding splitPath_iff
  by (auto simp: split_ok_def slash_front_def)

text \<open>C33: The split of a path.  \<open>splitPath\<close> gives the only pair whose first part is a slash and
  a segment without slashes, whose second part is empty or starts with a slash, and which
  makes up the path (with a slash in front, where it had none).\<close>

theorem splitPath_spec: "splitPath p = (first, rest) \<longleftrightarrow> split_ok p first rest"
  by (rule splitPath_iff)

section \<open>The path and the servers a request sees\<close>

lemma px_middleware_split:
  "px_middleware nxt P req resp = Returns (P', req', resp') \<Longrightarrow> Path req' = Path req"
  by (auto simp: px_middleware_def Let_def outcome_simps split: prod.splits if_splits option.splits)

text \<open>The path a request came with is there again when the proxy's middleware returns, whatever
  the handlers inside do to it.\<close>

theorem middleware_restores_path:
  assumes "px_middleware nxt P req resp = Returns (P', req', resp')"
  shows "Path req' = Path req"
  using assms by (rule px_middleware_split)

text \<open>No server under the first segment of a path that is not \<open>/admin\<close>: the answer is Not
  Found, no handler runs, and nothing is sent or changed.\<close>

theorem unknown_server_not_found:
  assumes "fst (splitPath (Path req)) \<noteq> admin" and "map_load (p_servers P) (fst (splitPath (Path req))) = None"
  shows "px_middleware nxt P req resp = Returns (P, req, resp\<lparr>StatusCode := StatusNotFound\<rparr>)"
  using assms
  by (cases "splitPath (Path req)") (auto simp: px_middleware_def map_load_def split: option.splits)

section \<open>Admin requests\<close>

lemma visible_loop_cases:
  "visible_loop authed srvs mp ks = Returns () \<or> (\<exists>p. visible_loop authed srvs mp ks = Panics p)"
  by (induction ks) (auto split: option.split)

lemma getServersHandler_state:
  "getServersHandler E authed P req resp = Returns (P', req', resp') \<Longrightarrow> P' = P \<and> req' = req"
  by (auto simp: getServersHandler_def outcome_simps split: sum.splits)

text \<open>C29: Authentication.  Without the password, or with a wrong one, an admin request changes nothing:
  when the handler returns, the servers and everything else are as they were; and except for
  \<open>/admin/servers\<close> the answer is Unauthorized.\<close>

theorem admin_needs_password:
  assumes "ctx_info req = Some mi" and "rq_Headers req = Some hs"
    and "GetChecked (lit ''password'') hs = Returns (pwd, ok)" and "\<not> ok \<or> pwd \<noteq> p_password P"
  shows "case adminHandler E P req resp of
      Returns (P', req', resp') \<Rightarrow> P' = P \<and>
        (mi_rest mi = lit ''/servers'' \<or> StatusCode resp' = StatusUnauthorized)
    | Panics p \<Rightarrow> mi_rest mi = lit ''/servers''
    | Blocks \<Rightarrow> False"
proof (cases "mi_rest mi = lit ''/servers''")
  case True
  then have "adminHandler E P req resp = getServersHandler E False P req resp"
    using assms by (auto simp: adminHandler_def)
  moreover have "getServersHandler E False P req resp \<noteq> Blocks"
    using visible_loop_cases [of False "p_srvs P" "case p_servers P of None \<Rightarrow> Map.empty | Some mp \<Rightarrow> mp" "e_keys E"]
    by (auto simp: getServersHandler_def outcome_simps split: sum.split)
  ultimately show ?thesis
    using True getServersHandler_state [of E False P req resp] by (auto split: outcome.split)
next
  case False
  then show ?thesis
    using assms
    by (auto simp: adminHandler_def SetBodyString_def SetBodyReader_def SetBodyReadCloser_def Let_def)
qed

text \<open>What listing the servers does: the map it fills was never made.\<close>

definition visible :: "bool \<Rightarrow> pserver list \<Rightarrow> nat option \<Rightarrow> bool" where
  "visible authed srvs sv = (authed \<or> (case sv of None \<Rightarrow> True | Some i \<Rightarrow> \<not> ps_Hidden (srvs ! i)))"

lemma visible_loop_none:
  "\<forall>k\<in>set ks. \<forall>sv. mp k = Some sv \<longrightarrow> \<not> visible authed srvs sv \<Longrightarrow>
    visible_loop authed srvs mp ks = Returns ()"
  by (induction ks) (auto simp: visible_def split: option.splits)

lemma visible_loop_some:
  "k \<in> set ks \<Longrightarrow> mp k = Some sv \<Longrightarrow> visible authed srvs sv \<Longrightarrow>
    \<exists>p. visible_loop authed srvs mp ks = Panics p"
  by (induction ks) (auto simp: visible_def split: option.splits)

text \<open>Listing the servers crashes the proxy.  Whenever the map holds a server the caller may see,
  the handler panics; only when there is none does it answer, with the encoding of a nil map.\<close>

theorem getServers_panics:
  assumes "p_servers P = Some mp" and "set (e_keys E) = dom mp"
  shows "if \<exists>k sv. mp k = Some sv \<and> visible authed (p_srvs P) sv
    then \<exists>p. getServersHandler E authed P req resp = Panics p
    else getServersHandler E authed P req resp = Returns (P, req,
      case enc_servers (e_json E) None of Inr b \<Rightarrow> Response_SetBodyBytes b resp | Inl e \<Rightarrow> fail500 resp)"
proof (cases "\<exists>k sv. mp k = Some sv \<and> visible authed (p_srvs P) sv")
  case True
  then obtain k sv where "mp k = Some sv" "visible authed (p_srvs P) sv" "k \<in> set (e_keys E)"
    using assms(2) by auto
  from visible_loop_some [of k "e_keys E" mp sv authed "p_srvs P", OF this(3,1,2)] True show ?thesis
    by (auto simp: getServersHandler_def assms(1) outcome_simps)
next
  case False
  then have "visible_loop authed (p_srvs P) mp (e_keys E) = Returns ()"
    by (intro visible_loop_none) auto
  with False show ?thesis by (auto simp: getServersHandler_def assms(1) split: sum.split)
qed

section \<open>A small proxy for concrete runs\<close>

definition demo_fields :: srv_fields where
  "demo_fields = \<lparr>f_Name = lit ''a'', f_Path = [], f_Addr = lit ''host:1'', f_Hidden = False\<rparr>"

definition demo_json :: json where
  "demo_json = \<lparr>dec_servers = (\<lambda>b. if b = [1] then Inr (Some [(lit ''/b'', Some demo_fields)]) else Inr None),
     dec_paths = (\<lambda>b. if b = [1] then Inr [lit ''/a'', lit ''/a''] else Inr [lit ''/b'']),
     enc_servers = (\<lambda>_. Inr (lit ''null'')), enc_errors = (\<lambda>_. Inr (lit ''{}''))\<rparr>"

definition demo_env :: "nat pval penv" where
  "demo_env = \<lparr>e_utils = plain_utils, e_pick = (\<lambda>S. if S = {} then None else Some (Min S)),
     e_json = demo_json, e_kvs = (\<lambda>_. []), e_orders = (\<lambda>_. ([], [])), e_others = (\<lambda>P. P),
     e_keys = [lit ''/a'']\<rparr>"

definition fresh_client :: "nat pval client" where
  "fresh_client = \<lparr>c_out = \<lparr>out = [], room = None\<rparr>, reqCounter = 0, reqs = Map.empty,
      streams = Map.empty, resp_chans = [], strs = [], c_isClosed = False, c_closeErr = None\<rparr>"

definition demo_proxy :: "(nat pval client \<times> bytes) list \<Rightarrow> nat pval proxy" where
  "demo_proxy cs = \<lparr>p_servers = Some [lit ''/a'' \<mapsto> Some 0],
     p_srvs = [(Server_init (json_server demo_fields))\<lparr>ps_clients := Some {0 ..< length cs}\<rparr>],
     p_clients = cs, p_conns = [], p_timers = [], p_dials = (\<lambda>_. []), p_password = lit ''pw''\<rparr>"

definition demo_req :: "gostring \<Rightarrow> nat preq" where
  "demo_req path = newRequest 7 [] 0 path []"

lemma lit_simps: "lit [] = []" "lit (c # s) = of_char c # lit s"
  by (simp_all add: lit_def)

lemma middleware_restores_path_witness:
  "let r = px_middleware (\<lambda>P req resp. Returns (P, req\<lparr>Path := []\<rparr>, resp)) (demo_proxy [])
       (demo_req (lit ''/admin'')) zeroResponse
   in case r of Returns (P, req, resp) \<Rightarrow> Path req = lit ''/admin'' | _ \<Rightarrow> False"
proof -
  let ?r = "px_middleware (\<lambda>P req resp. Returns (P, req\<lparr>Path := []\<rparr>, resp)) (demo_proxy [])
       (demo_req (lit ''/admin'')) zeroResponse"
  obtain P req resp where r: "?r = Returns (P, req, resp)"
    by (auto simp: px_middleware_def demo_req_def newRequest_def splitPath_def slash_def admin_def Let_def
        SetContext_def lit_simps)
  show ?thesis using middleware_restores_path [OF r] unfolding r by (simp add: demo_req_def newRequest_def)
qed

lemma unknown_server_not_found_witness:
  "px_middleware (px_jtrpcHandler demo_env) (demo_proxy []) (demo_req (lit ''/b/x'')) zeroResponse =
     Returns (demo_proxy [], demo_req (lit ''/b/x''), zeroResponse\<lparr>StatusCode := StatusNotFound\<rparr>)"
  by (rule unknown_server_not_found)
    (simp_all add: demo_proxy_def demo_req_def newRequest_def splitPath_def slash_def admin_def Let_def
      map_load_def lit_simps)

lemma admin_needs_password_witness:
  "let mi = path_info None (lit ''/admin'') (lit ''/servers/del'');
       req = SetContext (WithValue Background ctxKey (Info mi)) ((demo_req (lit ''/admin/servers/del''))\<lparr>rq_Body := Some [1]\<rparr>)
   in case adminHandler demo_env (demo_proxy []) req zeroResponse of
      Returns (P', req', resp') \<Rightarrow> P' = demo_proxy [] \<and>
        (mi_rest mi = lit ''/servers'' \<or> StatusCode resp' = StatusUnauthorized)
    | Panics p \<Rightarrow> mi_rest mi = lit ''/servers''
    | Blocks \<Rightarrow> False"
  unfolding Let_def
  by (rule admin_needs_password [where hs = "newHeaders []" and pwd = "[]" and ok = False])
    (simp_all add: ctx_info_def SetContext_def demo_req_def newRequest_def GetChecked_def newHeaders_def
      get_loop.simps)

lemma getServers_panics_witness:
  "if \<exists>k sv. [lit ''/a'' \<mapsto> Some 0] k = Some sv \<and> visible False (p_srvs (demo_proxy [])) sv
    then \<exists>p. getServersHandler demo_env False (demo_proxy []) (demo_req []) zeroResponse = Panics p
    else getServersHandler demo_env False (demo_proxy []) (demo_req []) zeroResponse =
      Returns (demo_proxy [], demo_req [],
        case enc_servers (e_json demo_env) None of Inr b \<Rightarrow> Response_SetBodyBytes b zeroResponse
        | Inl e \<Rightarrow> fail500 zeroResponse)"
  by (rule getServers_panics) (simp_all add: demo_proxy_def demo_env_def dom_def fun_upd_def)

end
