(* ===== verification/ProxyState.thy ===== *)
theory ProxyState
  imports ProxyMux
begin

text \<open>
  The invariant of the proxy's memory of servers, clients and connections, kept by everything
  that connects to a server (\<open>Dial\<close>, \<open>newClient\<close>, the tunnels), and the loop of
  \<open>sendReq\<close> (src/proxy/mux.go): it always returns.
\<close>

section \<open>Well-formed proxies\<close>

text \<open>
  \<open>srv_ok\<close>: the pointers a server holds, with \<open>nc\<close> clients and \<open>nk\<close> connections in memory.
  \<open>proxy_ok\<close>: that for every server, every server that the middleware can find is initialised,
  and a client that is closed says why.
\<close>

definition srv_ok :: "nat \<Rightarrow> nat \<Rightarrow> pserver \<Rightarrow> bool" where
  "srv_ok nc nk s \<longleftrightarrow>
     (\<forall>cs. ps_clients s = Some cs \<longrightarrow> finite cs \<and> (\<forall>c\<in>cs. c < nc)) \<and>
     (\<forall>t. ps_tunnelConn s = Some (Some t) \<longrightarrow> t < nk) \<and>
     (\<forall>ks. ps_tch s = Some ks \<longrightarrow> length ks \<le> tch_cap \<and> (\<forall>k\<in>set ks. k < nk))"

definition initialised :: "pserver \<Rightarrow> bool" where
  "initialised s \<longleftrightarrow> ps_clients s \<noteq> None \<and> ps_tunnelConn s \<noteq> None \<and>
     (ps_Addr s = tunnel \<longrightarrow> ps_tch s \<noteq> None)"

definition client_ok :: "'v client \<times> bytes \<Rightarrow> bool" where
  "client_ok x \<longleftrightarrow> (c_isClosed (fst x) \<longrightarrow> c_closeErr (fst x) \<noteq> None)"

definition proxy_ok :: "'v proxy \<Rightarrow> bool" where
  "proxy_ok P \<longleftrightarrow>
     (\<forall>s\<in>set (p_srvs P). srv_ok (length (p_clients P)) (length (p_conns P)) s) \<and>
     (\<forall>x\<in>set (p_clients P). client_ok x) \<and>
     (\<forall>p sv. map_load (p_servers P) p = Some sv \<and> fst (splitPath p) \<noteq> admin \<longrightarrow>
        (\<exists>i<length (p_srvs P). sv = Some i \<and> initialised (p_srvs P ! i))) \<and>
     (\<forall>p i. map_load (p_servers P) p = Some (Some i) \<longrightarrow> i < length (p_srvs P))"

lemma proxy_ok_index: "proxy_ok P \<Longrightarrow> map_load (p_servers P) p = Some (Some i) \<Longrightarrow> i < length (p_srvs P)"
  by (simp add: proxy_ok_def)

lemma proxy_okD:
  "proxy_ok P \<Longrightarrow> map_load (p_servers P) p = Some sv \<Longrightarrow> fst (splitPath p) \<noteq> admin \<Longrightarrow>
    \<exists>i<length (p_srvs P). sv = Some i \<and> initialised (p_srvs P ! i)"
  by (simp add: proxy_ok_def)

text \<open>Nothing that exists goes away, and an initialised server stays so.\<close>

definition proxy_le :: "'v proxy \<Rightarrow> 'v proxy \<Rightarrow> bool" where
  "proxy_le P P' \<longleftrightarrow> length (p_srvs P) \<le> length (p_srvs P') \<and>
     length (p_clients P) \<le> length (p_clients P') \<and> length (p_conns P) \<le> length (p_conns P') \<and>
     (\<forall>i<length (p_srvs P). initialised (p_srvs P ! i) \<longrightarrow> initialised (p_srvs P' ! i) \<and>
        ps_Addr (p_srvs P' ! i) = ps_Addr (p_srvs P ! i))"

lemma proxy_le_refl [simp]: "proxy_le P P"
  by (simp add: proxy_le_def)

lemma proxy_le_trans: "proxy_le P Q \<Longrightarrow> proxy_le Q R \<Longrightarrow> proxy_le P R"
  by (auto simp: proxy_le_def)

lemma srv_ok_mono: "srv_ok a b s \<Longrightarrow> a \<le> a' \<Longrightarrow> b \<le> b' \<Longrightarrow> srv_ok a' b' s"
  unfolding srv_ok_def by (meson order.strict_trans2)

lemma Server_init_ok: "initialised (Server_init s)"
  by (simp add: initialised_def Server_init_def Let_def newClientsSet_def)

lemma json_server_ok: "srv_ok a b (json_server f)" "srv_ok a b (Server_init (json_server f))"
  by (simp_all add: srv_ok_def json_server_def Server_init_def Let_def newClientsSet_def)

text \<open>A change of one server.\<close>

lemma upd_srv_ok:
  assumes "proxy_ok P" and "i < length (p_srvs P)"
    and "srv_ok (length (p_clients P)) (length (p_conns P)) (f (p_srvs P ! i))"
    and "initialised (p_srvs P ! i) \<Longrightarrow> initialised (f (p_srvs P ! i)) \<and>
      ps_Addr (f (p_srvs P ! i)) = ps_Addr (p_srvs P ! i)"
  shows "proxy_ok (upd_srv i f P)" and "proxy_le P (upd_srv i f P)"
proof -
  show "proxy_ok (upd_srv i f P)"
    unfolding proxy_ok_def
  proof (intro conjI allI impI ballI)
    fix s assume "s \<in> set (p_srvs (upd_srv i f P))"
    then have "s = f (p_srvs P ! i) \<or> s \<in> set (p_srvs P)"
      using set_update_subset_insert [of "p_srvs P" i "f (p_srvs P ! i)"] by (auto simp: upd_srv_def)
    then show "srv_ok (length (p_clients (upd_srv i f P))) (length (p_conns (upd_srv i f P))) s"
      using assms(1,3) by (auto simp: upd_srv_def proxy_ok_def)
  next
    fix p sv assume "map_load (p_servers (upd_srv i f P)) p = Some sv \<and> fst (splitPath p) \<noteq> admin"
    then obtain k where "k < length (p_srvs P)" "sv = Some k" "initialised (p_srvs P ! k)"
      using proxy_okD [OF assms(1), of p sv] by (auto simp: upd_srv_def)
    then show "\<exists>k<length (p_srvs (upd_srv i f P)). sv = Some k \<and> initialised (p_srvs (upd_srv i f P) ! k)"
      using assms(2,4) by (intro exI [of _ k]) (auto simp: upd_srv_def nth_list_update)
  qed (use assms(1) in \<open>auto simp: upd_srv_def proxy_ok_def\<close>)
  show "proxy_le P (upd_srv i f P)"
    using assms(2,4) by (auto simp: proxy_le_def upd_srv_def nth_list_update)
qed

lemma proxy_ok_clients:
  assumes "proxy_ok P" and "\<forall>x\<in>set cs. client_ok x" and "length (p_clients P) \<le> length cs"
  shows "proxy_ok (P\<lparr>p_clients := cs\<rparr>)" and "proxy_le P (P\<lparr>p_clients := cs\<rparr>)"
  using assms by (auto simp: proxy_ok_def proxy_le_def intro: srv_ok_mono)

lemma proxy_ok_conns:
  assumes "proxy_ok P" and "length (p_conns P) = length cs"
  shows "proxy_ok (P\<lparr>p_conns := cs\<rparr>)" and "proxy_le P (P\<lparr>p_conns := cs\<rparr>)"
  using assms by (auto simp: proxy_ok_def proxy_le_def)

lemma proxy_ok_other [simp]:
  "proxy_ok (P\<lparr>p_timers := ts\<rparr>) = proxy_ok P" "proxy_ok (P\<lparr>p_dials := ds\<rparr>) = proxy_ok P"
  "proxy_le P (P\<lparr>p_timers := ts\<rparr>)" "proxy_le P (P\<lparr>p_dials := ds\<rparr>)"
  by (simp_all add: proxy_ok_def proxy_le_def)

text \<open>What the other goroutines may do while one waits.\<close>

definition env_ok :: "'v penv \<Rightarrow> bool" where
  "env_ok E \<longleftrightarrow> picks (e_pick E) \<and>
     (\<forall>P. proxy_ok P \<longrightarrow> proxy_ok (e_others E P) \<and> proxy_le P (e_others E P))"

lemma add_client_ok:
  assumes "add_client c r P = (P', j)" and "proxy_ok P" and "\<not> c_isClosed c"
  shows "proxy_ok P' \<and> proxy_le P P' \<and> j < length (p_clients P') \<and> p_srvs P' = p_srvs P"
  using assms proxy_ok_clients [of P "p_clients P @ [(c, r)]"]
  by (auto simp: add_client_def client_ok_def proxy_ok_def)

lemma WithRW_open: "WithRW U r w = Inr (c, r') \<Longrightarrow> \<not> c_isClosed c"
  by (auto simp: WithRW_def split: prod.splits option.splits if_splits)

lemma Dial_ok:
  fixes P :: "'a proxy"
  assumes "Dial E addr P = (P', res)" and "proxy_ok P"
  shows "proxy_ok P' \<and> proxy_le P P' \<and> p_srvs P' = p_srvs P \<and>
    (case res of Inl e \<Rightarrow> True | Inr j \<Rightarrow> j < length (p_clients P'))"
proof (cases "p_dials P addr")
  case Nil
  then show ?thesis using assms by (auto simp: Dial_def)
next
  case (Cons x cs)
  obtain r w where x: "x = (r, w)" by (cases x)
  let ?Q = "P\<lparr>p_dials := (p_dials P)(addr := cs)\<rparr>"
  have Q: "proxy_ok ?Q" "proxy_le P ?Q" using assms(2) by simp_all
  show ?thesis
  proof (cases "WithRW (e_utils E) r w :: 'a dial_error + 'a client \<times> bytes")
    case (Inl e)
    then show ?thesis using assms Q Cons x by (auto simp: Dial_def Let_def)
  next
    case (Inr y)
    obtain c r' where y: "y = (c, r')" by (cases y)
    obtain P1 j where a: "add_client c r' ?Q = (P1, j)" by (cases "add_client c r' ?Q")
    from add_client_ok [OF a Q(1) WithRW_open] Inr y
    have "proxy_ok P1 \<and> proxy_le ?Q P1 \<and> j < length (p_clients P1) \<and> p_srvs P1 = p_srvs P" by auto
    moreover have "P' = P1" "res = Inr j" using assms(1) Cons x Inr y a by (auto simp: Dial_def Let_def)
    ultimately show ?thesis using proxy_le_trans [OF Q(2)] by auto
  qed
qed

lemma srv_ok_nWaiting [simp]: "srv_ok a b (s\<lparr>ps_nWaiting := n\<rparr>) = srv_ok a b s"
  "initialised (s\<lparr>ps_nWaiting := n\<rparr>) = initialised s"
  by (simp_all add: srv_ok_def initialised_def)

lemma proxy_ok_srv: "proxy_ok P \<Longrightarrow> i < length (p_srvs P) \<Longrightarrow>
    srv_ok (length (p_clients P)) (length (p_conns P)) (p_srvs P ! i)"
  by (simp add: proxy_ok_def)

lemma upd_nWaiting_ok:
  "proxy_ok P \<Longrightarrow> i < length (p_srvs P) \<Longrightarrow>
    proxy_ok (upd_srv i (\<lambda>s. s\<lparr>ps_nWaiting := f s\<rparr>) P) \<and> proxy_le P (upd_srv i (\<lambda>s. s\<lparr>ps_nWaiting := f s\<rparr>) P)"
  using upd_srv_ok [of P i "\<lambda>s. s\<lparr>ps_nWaiting := f s\<rparr>"] by (simp add: proxy_ok_srv)

lemma upd_srv_lengths [simp]:
  "length (p_srvs (upd_srv i f P)) = length (p_srvs P)" "p_conns (upd_srv i f P) = p_conns P"
  "p_clients (upd_srv i f P) = p_clients P"
  by (simp_all add: upd_srv_def)

lemma ask_tunnel_ok:
  assumes "proxy_ok P" and "i < length (p_srvs P)" and "ps_tunnelConn (p_srvs P ! i) \<noteq> None"
  shows "\<exists>P' e. ask_tunnel E i P = Returns (P', e) \<and> proxy_ok P' \<and> proxy_le P P'"
proof (cases "ps_tunnelConn (p_srvs P ! i)")
  case (Some x)
  show ?thesis
  proof (cases x)
    case None
    then show ?thesis using assms Some by (simp add: ask_tunnel_def)
  next
    case (Some t)
    let ?P1 = "upd_srv i (\<lambda>s. s\<lparr>ps_nWaiting := ps_nWaiting s + 1\<rparr>) P"
    obtain w n e where w: "WriteAll (e_utils E) (snd (p_conns P ! t)) (tunnel_request (ps_Path (p_srvs P ! i))) = (w, n, e)"
      by (cases "WriteAll (e_utils E) (snd (p_conns P ! t)) (tunnel_request (ps_Path (p_srvs P ! i)))")
    let ?P2 = "?P1\<lparr>p_conns := (p_conns ?P1)[t := (fst (p_conns ?P1 ! t), w)]\<rparr>"
    have 1: "proxy_ok ?P1" "proxy_le P ?P1"
      using upd_nWaiting_ok [OF assms(1,2)] by auto
    have 2: "proxy_ok ?P2" "proxy_le ?P1 ?P2"
      using proxy_ok_conns [OF 1(1), of "(p_conns ?P1)[t := (fst (p_conns ?P1 ! t), w)]"] by auto
    have i: "i < length (p_srvs ?P2)" using assms(2) by simp
    show ?thesis
    proof (cases e)
      case None
      then show ?thesis
        using \<open>x = Some t\<close> \<open>ps_tunnelConn _ = Some x\<close> w 2 proxy_le_trans [OF 1(2) 2(2)]
        by (simp add: ask_tunnel_def Let_def)
    next
      case (Some y)
      then show ?thesis
        using \<open>x = Some t\<close> \<open>ps_tunnelConn _ = Some x\<close> w upd_nWaiting_ok [OF 2(1) i]
          proxy_le_trans [OF 1(2) proxy_le_trans [OF 2(2)]]
        by (simp add: ask_tunnel_def Let_def)
    qed
  qed
qed (use assms in simp)

lemma await_tunnel_ok:
  fixes P :: "'a proxy"
  assumes "proxy_ok P" and "i < length (p_srvs P)" and "await_tunnel E i P = (P', res)"
  shows "proxy_ok P' \<and> proxy_le P P' \<and> (case res of Inl e \<Rightarrow> True | Inr j \<Rightarrow> j < length (p_clients P'))"
proof -
  have timeout: ?thesis
    if "(P', res) = (upd_srv i (\<lambda>s. s\<lparr>ps_nWaiting := waiting_done (ps_nWaiting s)\<rparr>) P, Inl TunnelTimedOut)"
    using that upd_nWaiting_ok [OF assms(1,2)] by auto
  show ?thesis
  proof (cases "ps_tch (p_srvs P ! i)")
    case None
    then show ?thesis using assms(3) timeout by (simp add: await_tunnel_def)
  next
    case (Some ch)
    show ?thesis
    proof (cases ch)
      case Nil
      then show ?thesis using Some assms(3) timeout by (simp add: await_tunnel_def)
    next
      case (Cons k ks)
      let ?P1 = "upd_srv i (\<lambda>s. s\<lparr>ps_tch := Some ks\<rparr>) P"
      have 1: "proxy_ok ?P1" "proxy_le P ?P1"
        using upd_srv_ok [OF assms(1,2), of "\<lambda>s. s\<lparr>ps_tch := Some ks\<rparr>"] proxy_ok_srv [OF assms(1,2)] Some Cons
        by (auto simp: srv_ok_def initialised_def)
      obtain r w where k: "p_conns P ! k = (r, w)" by (cases "p_conns P ! k")
      show ?thesis
      proof (cases "WithRW (e_utils E) r w :: 'a dial_error + 'a client \<times> bytes")
        case (Inl e)
        then show ?thesis using assms(3) Some Cons k 1 by (auto simp: await_tunnel_def Let_def)
      next
        case (Inr y)
        obtain c r' where y: "y = (c, r')" by (cases y)
        obtain P2 j where a: "add_client c r' ?P1 = (P2, j)" by (cases "add_client c r' ?P1")
        from add_client_ok [OF a 1(1) WithRW_open] Inr y
        have "proxy_ok P2 \<and> proxy_le ?P1 P2 \<and> j < length (p_clients P2)" by auto
        moreover have "P' = P2" "res = Inr j"
          using assms(3) Some Cons k Inr y a by (auto simp: await_tunnel_def Let_def)
        ultimately show ?thesis using proxy_le_trans [OF 1(2)] by auto
      qed
    qed
  qed
qed

lemma newClient_ok:
  assumes "proxy_ok P" and "i < length (p_srvs P)" and "initialised (p_srvs P ! i)" and "env_ok E"
  shows "\<exists>P' res. newClient E i P = Returns (P', res) \<and> proxy_ok P' \<and> proxy_le P P' \<and>
    (case res of Inl e \<Rightarrow> True | Inr j \<Rightarrow> j < length (p_clients P'))"
proof (cases "ps_Addr (p_srvs P ! i) = tunnel")
  case False
  obtain P' res where d: "Dial E (ps_Addr (p_srvs P ! i)) P = (P', res)"
    by (cases "Dial E (ps_Addr (p_srvs P ! i)) P")
  with Dial_ok [OF d assms(1)] False show ?thesis by (simp add: newClient_def)
next
  case True
  have "ps_tunnelConn (p_srvs P ! i) \<noteq> None" using assms(3) by (simp add: initialised_def)
  from ask_tunnel_ok [OF assms(1,2) this, of E] obtain P1 e where
    a: "ask_tunnel E i P = Returns (P1, e)" "proxy_ok P1" "proxy_le P P1" by blast
  show ?thesis
  proof (cases e)
    case (Some x)
    then show ?thesis using a True by (simp add: newClient_def)
  next
    case None
    let ?P2 = "e_others E P1"
    have 2: "proxy_ok ?P2" "proxy_le P1 ?P2" using assms(4) a(2) by (auto simp: env_ok_def)
    have i: "i < length (p_srvs ?P2)"
      using assms(2) a(3) 2(2) by (auto simp: proxy_le_def)
    obtain P3 res where w: "await_tunnel E i ?P2 = (P3, res)" by (cases "await_tunnel E i ?P2")
    from await_tunnel_ok [OF 2(1) i w] a None True w proxy_le_trans [OF a(3) proxy_le_trans [OF 2(2)]]
    show ?thesis by (simp add: newClient_def)
  qed
qed

lemma pick_client_ok:
  assumes "proxy_ok P" and "i < length (p_srvs P)" and "initialised (p_srvs P ! i)" and "env_ok E"
  shows "\<exists>P' res. pick_client E i P = Returns (P', res) \<and> proxy_ok P' \<and> proxy_le P P' \<and>
    (case res of Inl e \<Rightarrow> True | Inr j \<Rightarrow> j < length (p_clients P'))"
proof -
  obtain cs where cs: "ps_clients (p_srvs P ! i) = Some cs" using assms(3) by (auto simp: initialised_def)
  have fin: "finite cs" "\<forall>c\<in>cs. c < length (p_clients P)"
    using proxy_ok_srv [OF assms(1,2)] cs by (auto simp: srv_ok_def)
  show ?thesis
  proof (cases "clientsSet_Get E cs")
    case (Some j)
    then have "j \<in> cs"
      using assms(4) fin(1) by (auto simp: env_ok_def picks_def clientsSet_Get_def dest!: spec [of _ cs])
    then show ?thesis using cs Some assms(1) fin by (simp add: pick_client_def)
  next
    case None
    obtain P1 res where n: "newClient E i P = Returns (P1, res)" "proxy_ok P1" "proxy_le P P1"
      "case res of Inl e \<Rightarrow> True | Inr j \<Rightarrow> j < length (p_clients P1)"
      using newClient_ok [OF assms] by blast
    show ?thesis
    proof (cases res)
      case (Inl e)
      then show ?thesis using cs None n by (simp add: pick_client_def)
    next
      case (Inr j)
      have i: "i < length (p_srvs P1)" using assms(2) n(3) by (auto simp: proxy_le_def)
      let ?f = "\<lambda>s. s\<lparr>ps_clients := map_option (insert j) (ps_clients s)\<rparr>"
      have "srv_ok (length (p_clients P1)) (length (p_conns P1)) (?f (p_srvs P1 ! i))"
        using proxy_ok_srv [OF n(2) i] n(4) Inr by (auto simp: srv_ok_def)
      from upd_srv_ok [where f = ?f, OF n(2) i this] have "proxy_ok (upd_srv i ?f P1)" "proxy_le P1 (upd_srv i ?f P1)"
        by (auto simp: initialised_def)
      then show ?thesis using cs None n Inr proxy_le_trans [OF n(3)] by (simp add: pick_client_def)
    qed
  qed
qed

section \<open>Sending a request on\<close>

lemma proxy_ok_client: "proxy_ok P \<Longrightarrow> j < length (p_clients P) \<Longrightarrow> client_ok (p_clients P ! j)"
  by (simp add: proxy_ok_def)

lemma upd_client_ok:
  assumes "proxy_ok P" and "client_ok x"
  shows "proxy_ok (P\<lparr>p_clients := (p_clients P)[j := x]\<rparr>)" and "proxy_le P (P\<lparr>p_clients := (p_clients P)[j := x]\<rparr>)"
proof -
  have "\<forall>y\<in>set ((p_clients P)[j := x]). client_ok y"
    using assms set_update_subset_insert [of "p_clients P" j x] by (auto simp: proxy_ok_def)
  then show "proxy_ok (P\<lparr>p_clients := (p_clients P)[j := x]\<rparr>)"
    and "proxy_le P (P\<lparr>p_clients := (p_clients P)[j := x]\<rparr>)"
    using proxy_ok_clients [OF assms(1)] by simp_all
qed

text \<open>The response channel \<open>q\<close> of client \<open>j\<close> exists.\<close>

definition chan_at :: "'v proxy \<Rightarrow> nat \<times> nat \<Rightarrow> bool" where
  "chan_at P = (\<lambda>(j, q). j < length (p_clients P) \<and> q < length (resp_chans (fst (p_clients P ! j))))"

lemma sendReq_loop_ok:
  assumes "proxy_ok P" and "i < length (p_srvs P)" and "initialised (p_srvs P ! i)" and "env_ok E"
  shows "\<exists>P' req' res. sendReq_loop E n i req P = Returns (P', req', res) \<and> proxy_ok P' \<and> proxy_le P P' \<and>
    (case res of Inl e \<Rightarrow> True | Inr jq \<Rightarrow> chan_at P' jq)"
  using assms(1-3)
proof (induction n arbitrary: req P)
  case 0
  then show ?case by simp
next
  case (Suc n)
  obtain P1 res where p: "pick_client E i P = Returns (P1, res)" "proxy_ok P1" "proxy_le P P1"
    "case res of Inl e \<Rightarrow> True | Inr j \<Rightarrow> j < length (p_clients P1)"
    using pick_client_ok [OF Suc.prems assms(4)] by blast
  show ?case
  proof (cases res)
    case (Inl e)
    then show ?thesis using p by simp
  next
    case (Inr j)
    then have j: "j < length (p_clients P1)" using p(4) by simp
    obtain c r where c: "p_clients P1 ! j = (c, r)" by (cases "p_clients P1 ! j")
    have cok: "client_ok (c, r)" using proxy_ok_client [OF p(2) j] c by simp
    let ?kvs = "e_kvs E req"
    show ?thesis
    proof (cases "c_isClosed c")
      case False
      let ?c' = "snd (Send_register (fst (Send_write (e_utils E) ?kvs req c)) (snd (Send_write (e_utils E) ?kvs req c)))"
      have "client_ok (?c', r)" using False by (simp add: client_ok_def)
      from upd_client_ok [OF p(2) this, of j] show ?thesis
        using p(1,3) Inr c False j proxy_le_trans [OF p(3)]
        by (simp add: Client_Send_cases Let_def chan_at_def)
    next
      case True
      then obtain e where e: "c_closeErr c = Some e" using cok by (auto simp: client_ok_def)
      have same: "P1\<lparr>p_clients := (p_clients P1)[j := (c, r)]\<rparr> = P1"
        using c j by (metis (no_types, lifting) list_update_id proxy.surjective proxy.update_convs(3))
      have i: "i < length (p_srvs P1)" "initialised (p_srvs P1 ! i)"
        using Suc.prems p(3) by (auto simp: proxy_le_def)
      from Suc.IH [OF p(2) i, of req] obtain P' req' res' where
        r: "sendReq_loop E n i req P1 = Returns (P', req', res')" "proxy_ok P'" "proxy_le P1 P'"
          "case res' of Inl e \<Rightarrow> True | Inr jq \<Rightarrow> chan_at P' jq" by blast
      have "sendReq_loop E (Suc n) i req P = sendReq_loop E n i req P1"
        using p(1) Inr c True e same by (simp add: Client_Send_cases Let_def sent_request_def)
      then show ?thesis using r proxy_le_trans [OF p(3) r(3)] by auto
    qed
  qed
qed


lemma demo_env_ok: "env_ok demo_env"
  by (auto simp: env_ok_def demo_env_def picks_def intro: Min_in)

lemma demo_proxy_ok: "\<forall>x\<in>set cs. client_ok x \<Longrightarrow> proxy_ok (demo_proxy cs)"
  by (auto simp: proxy_ok_def demo_proxy_def srv_ok_def initialised_def Server_init_def Let_def
      json_server_def demo_fields_def tunnel_def lit_simps newClientsSet_def)

lemma demo_initialised: "0 < length (p_srvs (demo_proxy cs))" "initialised (p_srvs (demo_proxy cs) ! 0)"
  by (auto simp: demo_proxy_def initialised_def Server_init_def Let_def
      json_server_def demo_fields_def tunnel_def lit_simps newClientsSet_def)


text \<open>A client that is closed is never given up.  While the set yields a closed client, every round
  of \<open>sendReq\<close> gets that one again: no new connection is made, nothing is sent, and the request
  fails after the five rounds.\<close>

theorem closed_client_kept:
  assumes "ps_clients (p_srvs P ! i) = Some cs" and "e_pick E cs = Some j" and "j < length (p_clients P)"
    and "c_isClosed (fst (p_clients P ! j))" and "c_closeErr (fst (p_clients P ! j)) \<noteq> None"
  shows "sendReq E req i P = Returns (P, req, Inl ErrMaxAttempts)"
proof -
  obtain c r e where c: "p_clients P ! j = (c, r)" "c_isClosed c" "c_closeErr c = Some e"
    using assms(4,5) by (cases "p_clients P ! j") auto
  have same: "P\<lparr>p_clients := (p_clients P)[j := (c, r)]\<rparr> = P"
    using c(1) assms(3) by (metis (no_types, lifting) list_update_id proxy.surjective proxy.update_convs(3))
  have step: "sendReq_loop E (Suc n) i req P = sendReq_loop E n i req P" for n
    using assms(1,2) c same
    by (simp add: pick_client_def clientsSet_Get_def Client_Send_cases sent_request_def Let_def)
  have "sendReq_loop E n i req P = Returns (P, req, Inl ErrMaxAttempts)" for n
    by (induction n) (simp_all only: step sendReq_loop.simps(1))
  then show ?thesis by (simp add: sendReq_def)
qed

lemma closed_client_kept_witness:
  "let P = demo_proxy [(fresh_client\<lparr>c_isClosed := True, c_closeErr := Some (ClientClosedError None)\<rparr>, [])];
       req = demo_req (lit ''/x'')
   in sendReq demo_env req 0 P = Returns (P, req, Inl ErrMaxAttempts)"
  unfolding Let_def
  by (rule closed_client_kept [where cs = "{0}" and j = 0]) (simp_all add: demo_proxy_def demo_env_def)

end
