(* ===== verification/ProxyAdmin.thy ===== *)
theory ProxyAdmin
  imports ProxyMux
begin

text \<open>
  What the proxy's admin handlers do to its servers (\<open>newServersHandler\<close>,
  \<open>delServersHandler\<close>, \<open>replaceServersHandler\<close> of src/proxy/mux.go): adding, deleting and
  replacing the servers of the definitions in ProxyMux.
\<close>

section \<open>Adding and deleting servers\<close>

text \<open>What adding a decoded map should do to a path of it.\<close>

definition added :: "(gostring \<rightharpoonup> nat option) \<Rightarrow> (gostring \<rightharpoonup> nat option) \<Rightarrow> pserver list \<Rightarrow> nat \<Rightarrow>
    (gostring \<rightharpoonup> gostring) \<Rightarrow> gostring \<Rightarrow> srv_fields \<Rightarrow> bool" where
  "added m m' srvs' n errs p f =
     (if fst (splitPath p) = admin then errs p = Some admin_err \<and> m' p = m p
      else if m p \<noteq> None then errs p = Some exists_err \<and> m' p = m p
      else errs p = None \<and> (\<exists>i. n \<le> i \<and> i < length srvs' \<and> m' p = Some (Some i) \<and>
        srvs' ! i = Server_init (json_server f)))"

lemma added_weaken:
  "added (m(p \<mapsto> v)) m' srvs' (Suc n) errs q f \<Longrightarrow> q \<noteq> p \<Longrightarrow> added m m' srvs' n errs q f"
  unfolding added_def by (auto dest: Suc_leD split: if_splits)

lemma take_Suc_append:
  assumes "take (Suc (length xs)) ys = xs @ [x]"
  shows "length xs < length ys" "ys ! length xs = x" "take (length xs) ys = xs"
proof -
  show l: "length xs < length ys" using arg_cong [OF assms, of length] by simp
  show "ys ! length xs = x" using arg_cong [OF assms, of "\<lambda>l. l ! length xs"] l by simp
  show "take (length xs) ys = xs" using arg_cong [OF assms, of "take (length xs)"] by (simp add: min_def)
qed

lemma new_loop_spec:
  assumes "distinct (map fst l)" and "\<forall>(p, sv)\<in>set l. sv \<noteq> None" and "\<forall>p\<in>fst ` set l. errs p = None"
  shows "\<exists>m' srvs' errs'. new_loop l (Some m) srvs errs = Returns (Some m', srvs', errs') \<and>
    take (length srvs) srvs' = srvs \<and> (\<forall>p. p \<notin> fst ` set l \<longrightarrow> m' p = m p \<and> errs' p = errs p) \<and>
    (\<forall>p f. (p, Some f) \<in> set l \<longrightarrow> added m m' srvs' (length srvs) errs' p f)"
  using assms
proof (induction l arbitrary: m srvs errs)
  case (Cons x l)
  obtain p f where x: "x = (p, Some f)" using Cons.prems(2) by (cases x) auto
  have p: "p \<notin> fst ` set l" using Cons.prems(1) x by auto
  have d: "distinct (map fst l)" "\<forall>(p, sv)\<in>set l. sv \<noteq> None"
    using Cons.prems by auto
  show ?case
  proof (cases "fst (splitPath p) = admin \<or> m p \<noteq> None")
    case True
    define e where "e = (if fst (splitPath p) = admin then admin_err else exists_err)"
    have "\<forall>q\<in>fst ` set l. (errs(p \<mapsto> e)) q = None" using Cons.prems(3) p by auto
    from Cons.IH [OF d this, of m srvs] obtain m' srvs' errs' where
      r: "new_loop l (Some m) srvs (errs(p \<mapsto> e)) = Returns (Some m', srvs', errs')"
        "take (length srvs) srvs' = srvs"
        "\<forall>q. q \<notin> fst ` set l \<longrightarrow> m' q = m q \<and> errs' q = (errs(p \<mapsto> e)) q"
        "\<forall>q g. (q, Some g) \<in> set l \<longrightarrow> added m m' srvs' (length srvs) errs' q g" by blast
    have "new_loop (x # l) (Some m) srvs errs = Returns (Some m', srvs', errs')"
      using True r(1) by (auto simp: x e_def split: if_splits)
    moreover have "added m m' srvs' (length srvs) errs' p f"
      using True r(3) p by (auto simp: added_def e_def)
    ultimately show ?thesis using r p
      by (intro exI [of _ m'] exI [of _ srvs'] exI [of _ errs']) (auto simp: x)
  next
    case False
    let ?s = "Server_init (json_server f)"
    have "\<forall>q\<in>fst ` set l. errs q = None" using Cons.prems(3) by auto
    from Cons.IH [OF d this, of "m(p \<mapsto> Some (length srvs))" "srvs @ [?s]"] obtain m' srvs' errs' where
      r: "new_loop l (Some (m(p \<mapsto> Some (length srvs)))) (srvs @ [?s]) errs = Returns (Some m', srvs', errs')"
        "take (Suc (length srvs)) srvs' = srvs @ [?s]"
        "\<forall>q. q \<notin> fst ` set l \<longrightarrow> m' q = (m(p \<mapsto> Some (length srvs))) q \<and> errs' q = errs q"
        "\<forall>q g. (q, Some g) \<in> set l \<longrightarrow>
          added (m(p \<mapsto> Some (length srvs))) m' srvs' (Suc (length srvs)) errs' q g"
      unfolding length_append list.size add_0 One_nat_def add_Suc_right add_0_right by blast
    note tk = take_Suc_append [OF r(2)]
    have "added m m' srvs' (length srvs) errs' p f"
      using False r(3) p tk(1,2) Cons.prems(3) x by (auto simp: added_def)
    moreover have "added m m' srvs' (length srvs) errs' q g" if "(q, Some g) \<in> set l" for q g
    proof -
      have "q \<noteq> p" using that p by force
      then show ?thesis using added_weaken [OF r(4) [rule_format, OF that]] by simp
    qed
    ultimately show ?thesis using r(1,3) False tk(3) p
      by (intro exI [of _ m'] exI [of _ srvs'] exI [of _ errs']) (auto simp: x)
  qed
qed auto

lemma del_loop_spec:
  "del_loop ps (Some m) errs = (mp, errs') \<Longrightarrow> mp = Some (m |` (- set ps)) \<and>
    (\<forall>p. errs' p = (if p \<in> set ps \<and> (m p = None \<or> count_list ps p \<ge> 2) then Some missing_err else errs p))"
proof (induction ps arbitrary: m errs)
  case Nil
  then show ?case by simp
next
  case (Cons q ps)
  show ?case
  proof (cases "m q = None")
    case True
    then have "del_loop ps (Some m) (errs(q \<mapsto> missing_err)) = (mp, errs')"
      using Cons.prems by simp
    from Cons.IH [OF this] True show ?thesis
      by (auto simp: restrict_map_def fun_eq_iff)
  next
    case False
    then have "del_loop ps (Some (m(q := None))) errs = (mp, errs')"
      using Cons.prems by simp
    from Cons.IH [OF this] False show ?thesis
      by (auto simp: restrict_map_def fun_eq_iff count_list_0_iff Suc_le_eq)
  qed
qed

text \<open>The status of the answer: of the \<open>n\<close> items sent, those under \<open>errs\<close> failed.\<close>

definition admin_status :: "(gostring \<rightharpoonup> gostring) \<Rightarrow> nat \<Rightarrow> byte \<Rightarrow> byte" where
  "admin_status errs n st =
     (if dom errs = {} then st else if n \<noteq> card (dom errs) then StatusPartialError else StatusBadRequest)"

lemma setAdminSrvrsErr_status:
  "finite (dom errs) \<Longrightarrow> StatusCode (setAdminSrvrsErr J errs n resp) = admin_status errs n (StatusCode resp)"
  by (auto simp: setAdminSrvrsErr_def admin_status_def SetStatusBodyBytes_def SetStatusBodyString_def
      SetBodyString_def Response_SetBodyBytes_def SetBodyReader_def SetBodyReadCloser_def Let_def split: sum.split)

lemma setAdminSrvrsErr_none: "setAdminSrvrsErr J Map.empty n resp = resp"
  by (simp add: setAdminSrvrsErr_def)

lemma dom_errs:
  "\<forall>p. p \<notin> A \<longrightarrow> errs' p = None \<Longrightarrow> finite A \<Longrightarrow> finite (dom errs')"
  by (rule finite_subset [of _ A]) auto

lemma count_list_distinct: "distinct xs \<Longrightarrow> count_list xs p \<le> 1"
  by (induction xs) (auto simp: count_list_0_iff)

lemma new_loop_errs:
  assumes "\<forall>p. p \<notin> fst ` set l \<longrightarrow> errs' p = None"
    and "\<forall>p f. (p, Some f) \<in> set l \<longrightarrow> added m m' srvs' n errs' p f" and "\<forall>(p, sv)\<in>set l. sv \<noteq> None"
  shows "dom errs' = {p \<in> fst ` set l. fst (splitPath p) = admin \<or> m p \<noteq> None}" (is "_ = ?R")
proof (intro set_eqI iffI)
  fix p assume "p \<in> dom errs'"
  then have "p \<in> fst ` set l" using assms(1) by auto
  then obtain f where "(p, Some f) \<in> set l" using assms(3) by (auto simp: case_prod_beta)
  then have "added m m' srvs' n errs' p f" "(p, Some f) \<in> set l" using assms(2) by blast+
  moreover have "p \<in> fst ` set l" using \<open>(p, Some f) \<in> set l\<close> by (rule image_eqI [rotated]) simp
  ultimately show "p \<in> ?R"
    using \<open>p \<in> dom errs'\<close> by (auto simp: added_def split: if_splits)
next
  fix p assume "p \<in> ?R"
  then obtain f where "(p, Some f) \<in> set l" "fst (splitPath p) = admin \<or> m p \<noteq> None"
    using assms(3) by force
  then have "added m m' srvs' n errs' p f" using assms(2) by blast
  then show "p \<in> dom errs'"
    using \<open>fst (splitPath p) = admin \<or> m p \<noteq> None\<close> by (auto simp: added_def split: if_splits)
qed

text \<open>Adding servers.  Every server sent under a path that is neither taken nor under \<open>/admin\<close> is
  initialised and put into the map; the others are not, and change nothing; all other servers
  stay.  The status is as before when none was refused, Bad Request when all were, and Partial
  Error otherwise.\<close>

theorem newServers_adds:
  assumes "rq_Body req = Some b" and "dec_servers (e_json E) b = Inr (Some l)"
    and "distinct (map fst l)" and "\<forall>(p, sv)\<in>set l. sv \<noteq> None" and "p_servers P = Some m"
  shows "\<exists>m' srvs' errs resp'. newServersHandler E P req resp =
      Returns (P\<lparr>p_servers := Some m', p_srvs := srvs'\<rparr>, req, resp') \<and>
    take (length (p_srvs P)) srvs' = p_srvs P \<and> (\<forall>p. p \<notin> fst ` set l \<longrightarrow> m' p = m p) \<and>
    (\<forall>p f. (p, Some f) \<in> set l \<longrightarrow> added m m' srvs' (length (p_srvs P)) errs p f) \<and>
    dom errs = {p \<in> fst ` set l. fst (splitPath p) = admin \<or> m p \<noteq> None} \<and>
    StatusCode resp' = admin_status errs (length l) (StatusCode resp)"
proof -
  obtain m' srvs' errs where
    r: "new_loop l (Some m) (p_srvs P) Map.empty = Returns (Some m', srvs', errs)"
      "take (length (p_srvs P)) srvs' = p_srvs P"
      "\<forall>p. p \<notin> fst ` set l \<longrightarrow> m' p = m p \<and> errs p = None"
      "\<forall>p f. (p, Some f) \<in> set l \<longrightarrow> added m m' srvs' (length (p_srvs P)) errs p f"
    using new_loop_spec [OF assms(3,4), of Map.empty m "p_srvs P"] by auto
  have errs: "dom errs = {p \<in> fst ` set l. fst (splitPath p) = admin \<or> m p \<noteq> None}"
    by (rule new_loop_errs [OF _ r(4) assms(4)]) (use r(3) in blast)
  have "StatusCode (setAdminSrvrsErr (e_json E) errs (length l) resp) =
      admin_status errs (length l) (StatusCode resp)"
    by (rule setAdminSrvrsErr_status) (simp add: errs)
  moreover have "newServersHandler E P req resp = Returns (P\<lparr>p_servers := Some m', p_srvs := srvs'\<rparr>, req,
      setAdminSrvrsErr (e_json E) errs (length l) resp)"
    using assms(1,2,5) r(1) by (simp add: newServersHandler_def decode_body_def)
  ultimately show ?thesis using r errs by blast
qed

lemma newServers_adds_witness:
  "let req = (demo_req (lit ''/admin/servers/new''))\<lparr>rq_Body := Some [1]\<rparr>; P = demo_proxy [];
       l = [(lit ''/b'', Some demo_fields)]; m = [lit ''/a'' \<mapsto> Some 0]
   in \<exists>m' srvs' errs resp'. newServersHandler demo_env P req zeroResponse =
      Returns (P\<lparr>p_servers := Some m', p_srvs := srvs'\<rparr>, req, resp') \<and>
    take (length (p_srvs P)) srvs' = p_srvs P \<and> (\<forall>p. p \<notin> fst ` set l \<longrightarrow> m' p = m p) \<and>
    (\<forall>p f. (p, Some f) \<in> set l \<longrightarrow> added m m' srvs' (length (p_srvs P)) errs p f) \<and>
    dom errs = {p \<in> fst ` set l. fst (splitPath p) = admin \<or> m p \<noteq> None} \<and>
    StatusCode resp' = admin_status errs (length l) (StatusCode (zeroResponse :: nat presp))"
  unfolding Let_def
  by (rule newServers_adds [where b = "[1]"]) (simp_all add: demo_env_def demo_json_def demo_proxy_def fun_upd_def)

text \<open>C28: Adding and deleting again.  When servers are added under free paths outside \<open>/admin\<close> and the
  same paths are then deleted, both requests succeed and the map of servers is the one before.\<close>

theorem add_then_delete:
  assumes "rq_Body req = Some b" and "dec_servers (e_json E) b = Inr (Some l)"
    and "rq_Body req' = Some b'" and "dec_paths (e_json E) b' = Inr (map fst l)"
    and "distinct (map fst l)" and "\<forall>(p, sv)\<in>set l. sv \<noteq> None \<and> fst (splitPath p) \<noteq> admin \<and> m p = None"
    and "p_servers P = Some m"
  shows "\<exists>P1 P2. newServersHandler E P req resp = Returns (P1, req, resp) \<and>
    (\<forall>p\<in>fst ` set l. map_load (p_servers P1) p \<noteq> None) \<and>
    delServersHandler E P1 req' resp' = Returns (P2, req', resp') \<and> p_servers P2 = p_servers P"
proof -
  have nn: "\<forall>(p, sv)\<in>set l. sv \<noteq> None" using assms(6) by auto
  obtain m' srvs' errs where
    r: "new_loop l (Some m) (p_srvs P) Map.empty = Returns (Some m', srvs', errs)"
      "\<forall>p. p \<notin> fst ` set l \<longrightarrow> m' p = m p \<and> errs p = None"
      "\<forall>p f. (p, Some f) \<in> set l \<longrightarrow> added m m' srvs' (length (p_srvs P)) errs p f"
    using new_loop_spec [OF assms(5) nn, of Map.empty m "p_srvs P"] by auto
  have "dom errs = {p \<in> fst ` set l. fst (splitPath p) = admin \<or> m p \<noteq> None}"
    by (rule new_loop_errs [OF _ r(3) nn]) (use r(2) in blast)
  also have "\<dots> = {}" using assms(6) by fastforce
  finally have "errs = Map.empty" by simp
  then have new: "newServersHandler E P req resp = Returns (P\<lparr>p_servers := Some m', p_srvs := srvs'\<rparr>, req, resp)"
    using assms(1,2,7) r(1) by (simp add: newServersHandler_def decode_body_def setAdminSrvrsErr_none)
  have there: "m' p \<noteq> None" "m p = None" if "p \<in> fst ` set l" for p
  proof -
    from that obtain f where f: "(p, Some f) \<in> set l" using nn by force
    then show "m p = None" using assms(6) by auto
    then show "m' p \<noteq> None" using r(3) f assms(6) by (fastforce simp: added_def)
  qed
  obtain mp e where d: "del_loop (map fst l) (Some m') Map.empty = (mp, e)"
    by (cases "del_loop (map fst l) (Some m') Map.empty")
  have cnt: "count_list (map fst l) p \<le> 1" for p
    using assms(5) by (rule count_list_distinct)
  have "e = Map.empty"
  proof
    fix p show "e p = None"
      using del_loop_spec [OF d] there(1) [of p] cnt [of p] by auto
  qed
  moreover have "mp = Some m"
    using del_loop_spec [OF d] r(2) there(2) by (auto simp: restrict_map_def fun_eq_iff)
  ultimately have "delServersHandler E (P\<lparr>p_servers := Some m', p_srvs := srvs'\<rparr>) req' resp' =
      Returns (P\<lparr>p_servers := Some m, p_srvs := srvs'\<rparr>, req', resp')"
    using assms(3,4) d by (simp add: delServersHandler_def decode_body_def setAdminSrvrsErr_none)
  with new assms(7) there(1) show ?thesis by simp
qed

lemma add_then_delete_witness:
  "let req = (demo_req [])\<lparr>rq_Body := Some [1]\<rparr>; req' = (demo_req [])\<lparr>rq_Body := Some [2]\<rparr>;
       P = demo_proxy []; l = [(lit ''/b'', Some demo_fields)]
   in \<exists>P1 P2. newServersHandler demo_env P req zeroResponse = Returns (P1, req, zeroResponse) \<and>
    (\<forall>p\<in>fst ` set l. map_load (p_servers P1) p \<noteq> None) \<and>
    delServersHandler demo_env P1 req' zeroResponse = Returns (P2, req', zeroResponse) \<and>
    p_servers P2 = p_servers P"
  unfolding Let_def
  by (rule add_then_delete [where b = "[1]" and b' = "[2]" and m = "[lit ''/a'' \<mapsto> Some 0]"])
    (simp_all add: demo_env_def demo_json_def demo_proxy_def splitPath_def slash_def admin_def lit_simps Let_def)

text \<open>Deleting servers.  Exactly the servers under the given paths are removed.  A path is
  reported when there was no server under it, and also when it was given twice; the count of
  reported paths is compared with the count of given ones, so that a list whose only entry is
  an unknown path, given twice, is answered with Partial Error.\<close>

theorem delServers_deletes:
  assumes "rq_Body req = Some b" and "dec_paths (e_json E) b = Inr ps" and "p_servers P = Some m"
  shows "\<exists>errs resp'. delServersHandler E P req resp =
      Returns (P\<lparr>p_servers := Some (m |` (- set ps))\<rparr>, req, resp') \<and>
    dom errs = {p \<in> set ps. m p = None \<or> 2 \<le> count_list ps p} \<and>
    StatusCode resp' = admin_status errs (length ps) (StatusCode resp)"
proof -
  obtain mp e where d: "del_loop ps (Some m) Map.empty = (mp, e)"
    by (cases "del_loop ps (Some m) Map.empty")
  from del_loop_spec [OF d] have mp: "mp = Some (m |` (- set ps))"
    and e: "dom e = {p \<in> set ps. m p = None \<or> 2 \<le> count_list ps p}"
    by (auto simp: dom_def split: if_splits)
  have "StatusCode (setAdminSrvrsErr (e_json E) e (length ps) resp) = admin_status e (length ps) (StatusCode resp)"
    by (rule setAdminSrvrsErr_status) (simp add: e)
  then show ?thesis
    using assms d mp e by (intro exI conjI) (auto simp: delServersHandler_def decode_body_def)
qed

lemma delServers_deletes_witness:
  "let req = (demo_req [])\<lparr>rq_Body := Some [1]\<rparr>; P = demo_proxy []; m = [lit ''/a'' \<mapsto> Some 0];
       ps = [lit ''/a'', lit ''/a'']
   in \<exists>errs resp'. delServersHandler demo_env P req zeroResponse =
      Returns (P\<lparr>p_servers := Some (m |` (- set ps))\<rparr>, req, resp') \<and>
    dom errs = {p \<in> set ps. m p = None \<or> 2 \<le> count_list ps p} \<and>
    StatusCode resp' = admin_status errs (length ps) (StatusCode (zeroResponse :: nat presp))"
  unfolding Let_def
  by (rule delServers_deletes [where b = "[1]"]) (simp_all add: demo_env_def demo_json_def demo_proxy_def)

section \<open>Replacing the servers\<close>

definition replaced :: "(gostring \<rightharpoonup> nat option) \<Rightarrow> pserver list \<Rightarrow> gostring \<Rightarrow> srv_fields \<Rightarrow> bool" where
  "replaced m' srvs' p f \<longleftrightarrow> (\<exists>i < length srvs'. m' p = Some (Some i) \<and>
     srvs' ! i = (if fst (splitPath p) = admin then json_server f else Server_init (json_server f)))"

lemma replace_loop_spec:
  assumes "distinct (map fst l)" and "\<forall>(p, sv)\<in>set l. sv \<noteq> None"
  shows "\<exists>m' srvs' errs'. replace_loop l m srvs errs = Returns (m', srvs', errs') \<and>
    take (length srvs) srvs' = srvs \<and> (\<forall>p. p \<notin> fst ` set l \<longrightarrow> m' p = m p) \<and>
    (\<forall>p f. (p, Some f) \<in> set l \<longrightarrow> replaced m' srvs' p f)"
  using assms
proof (induction l arbitrary: m srvs errs)
  case (Cons x l)
  obtain p f where x: "x = (p, Some f)" using Cons.prems(2) by (cases x) auto
  have p: "p \<notin> fst ` set l" using Cons.prems(1) x by auto
  have d: "distinct (map fst l)" "\<forall>(p, sv)\<in>set l. sv \<noteq> None" using Cons.prems by auto
  define s where "s = (if fst (splitPath p) = admin then json_server f else Server_init (json_server f))"
  define e where "e = (if fst (splitPath p) = admin then errs(p \<mapsto> admin_err) else errs)"
  have one: "replace_loop (x # l) m srvs errs = replace_loop l (m(p \<mapsto> Some (length srvs))) (srvs @ [s]) e"
    by (simp add: x s_def e_def)
  from Cons.IH [OF d, of "m(p \<mapsto> Some (length srvs))" "srvs @ [s]" e] obtain m' srvs' errs' where
    r: "replace_loop l (m(p \<mapsto> Some (length srvs))) (srvs @ [s]) e = Returns (m', srvs', errs')"
      "take (Suc (length srvs)) srvs' = srvs @ [s]"
      "\<forall>q. q \<notin> fst ` set l \<longrightarrow> m' q = (m(p \<mapsto> Some (length srvs))) q"
      "\<forall>q g. (q, Some g) \<in> set l \<longrightarrow> replaced m' srvs' q g"
    unfolding length_append list.size add_0 One_nat_def add_Suc_right add_0_right by blast
  have len: "length srvs < length srvs'" using arg_cong [OF r(2), of length] by simp
  have nth: "srvs' ! length srvs = s"
    using arg_cong [OF r(2), of "\<lambda>l. l ! length srvs"] len by simp
  have tk: "take (length srvs) srvs' = srvs"
    using arg_cong [OF r(2), of "take (length srvs)"] by (simp add: min_def)
  have "replaced m' srvs' p f" using r(3) p len nth by (auto simp: replaced_def s_def)
  then show ?case using one r tk
    by (intro exI [of _ m'] exI [of _ srvs'] exI [of _ errs']) (auto simp: x)
qed auto

text \<open>Replacing the servers.  The new map has exactly the paths that were sent, each with its
  server, and the old servers are gone.  The ones under \<open>/admin\<close>, which the answer reports as
  refused, are installed too, and without having been initialised.\<close>

theorem replaceServers_installs:
  assumes "rq_Body req = Some b" and "dec_servers (e_json E) b = Inr (Some l)"
    and "distinct (map fst l)" and "\<forall>(p, sv)\<in>set l. sv \<noteq> None"
  shows "\<exists>m' srvs' resp'. replaceServersHandler E P req resp =
      Returns (P\<lparr>p_servers := Some m', p_srvs := srvs'\<rparr>, req, resp') \<and>
    dom m' = fst ` set l \<and> (\<forall>p f. (p, Some f) \<in> set l \<longrightarrow> replaced m' srvs' p f)"
proof -
  obtain m' srvs' errs where
    r: "replace_loop l Map.empty (p_srvs P) Map.empty = Returns (m', srvs', errs)"
      "\<forall>p. p \<notin> fst ` set l \<longrightarrow> m' p = None" "\<forall>p f. (p, Some f) \<in> set l \<longrightarrow> replaced m' srvs' p f"
    using replace_loop_spec [OF assms(3,4), of Map.empty "p_srvs P" Map.empty] by auto
  have "p \<in> fst ` set l \<Longrightarrow> m' p \<noteq> None" for p
    using r(3) assms(4) by (fastforce simp: replaced_def)
  then have "dom m' = fst ` set l" using r(2) by auto
  moreover have "replaceServersHandler E P req resp = Returns (P\<lparr>p_servers := Some m', p_srvs := srvs'\<rparr>, req,
      setAdminSrvrsErr (e_json E) errs (length l) resp)"
    using assms(1,2) r(1) by (simp add: replaceServersHandler_def decode_body_def)
  ultimately show ?thesis using r(3) by blast
qed

lemma replaceServers_installs_witness:
  "let req = (demo_req [])\<lparr>rq_Body := Some [1]\<rparr>; P = demo_proxy []; l = [(lit ''/b'', Some demo_fields)]
   in \<exists>m' srvs' resp'. replaceServersHandler demo_env P req zeroResponse =
      Returns (P\<lparr>p_servers := Some m', p_srvs := srvs'\<rparr>, req, resp') \<and>
    dom m' = fst ` set l \<and> (\<forall>p f. (p, Some f) \<in> set l \<longrightarrow> replaced m' srvs' p f)"
  unfolding Let_def
  by (rule replaceServers_installs [where b = "[1]"]) (simp_all add: demo_env_def demo_json_def)

text \<open>Replacing the servers with \<open>null\<close> makes the map nil: the next request that adds a server
  under a path outside \<open>/admin\<close> panics.\<close>

theorem replace_null_then_new:
  assumes "rq_Body req = Some b" and "dec_servers (e_json E) b = Inr None"
    and "rq_Body req' = Some b'" and "dec_servers (e_json E) b' = Inr (Some ((p, Some f) # l))"
    and "fst (splitPath p) \<noteq> admin"
  shows "\<exists>P' resp'. replaceServersHandler E P req resp = Returns (P', req, resp') \<and>
    newServersHandler E P' req' resp'' = Panics NilMapWrite"
  using assms by (simp add: replaceServersHandler_def newServersHandler_def decode_body_def)

lemma replace_null_then_new_witness:
  "\<exists>P' resp'. replaceServersHandler demo_env (demo_proxy []) ((demo_req [])\<lparr>rq_Body := Some []\<rparr>) zeroResponse =
      Returns (P', (demo_req [])\<lparr>rq_Body := Some []\<rparr>, resp') \<and>
    newServersHandler demo_env P' ((demo_req [])\<lparr>rq_Body := Some [1]\<rparr>) zeroResponse = Panics NilMapWrite"
  by (rule replace_null_then_new [where b = "[]" and b' = "[1]" and p = "lit ''/b''" and f = demo_fields and l = "[]"])
    (simp_all add: demo_env_def demo_json_def splitPath_def slash_def admin_def lit_simps Let_def)

end
