(* ===== verification/ProxyForward.thy ===== *)
theory ProxyForward
  imports ProxyState ProxyAdmin
begin

text \<open>
  A request through the proxy, from the client to the server and back (\<open>middleware\<close>,
  \<open>jtrpcHandler\<close>, \<open>sendReq\<close> of src/proxy/mux.go, with the client of ClientGo), and the
  preservation of the invariant of ProxyState by every handler.
\<close>

section \<open>A request through the proxy\<close>

text \<open>Waiting for the answer that is on its way.\<close>

lemma await_resp_response:
  assumes "response_fits (kvs, r)" and "\<not> hasStreamMsgFlag (rflags r)"
    and "reqs c (reqId r) = Some q" and "waiting q c" and "\<not> c_isClosed c"
  shows "\<exists>c'. await_resp U orders q c (response_frame (kvs, r) @ rest) =
      Returns (c', rest, Some (delivered (resp_chans c ! q) kvs r (length (strs c)))) \<and>
    c_out c' = c_out c \<and> reqs c' = reqs c \<and> c_isClosed c' = c_isClosed c \<and>
    strs c' = (if opens_stream r then strs c @ [newStream (rq_id (rc_req (resp_chans c ! q)))] else strs c)"
proof -
  have w: "ch (resp_chans c ! q) = None" "\<not> ch_closed (resp_chans c ! q)" "q < length (resp_chans c)"
    using assms(4) by (auto simp: waiting_def)
  let ?d = "delivered (resp_chans c ! q) kvs r (length (strs c))"
  let ?i = "rq_id (rc_req (resp_chans c ! q))"
  let ?c1 = "(if opens_stream r
      then c\<lparr>strs := strs c @ [newStream ?i], streams := (streams c)(?i \<mapsto> length (strs c))\<rparr>
      else c)\<lparr>resp_chans := (resp_chans c)[q := (resp_chans c ! q)\<lparr>ch := Some ?d\<rparr>]\<rparr>"
  have "client_frame U c (response_frame (kvs, r) @ rest) = Returns (?c1, rest, None)"
    using client_frame_response [OF assms(1-4), of U rest] by (simp add: Let_def)
  then have "await_resp U orders q c (response_frame (kvs, r) @ rest) = await_resp U orders q ?c1 rest"
    by (subst await_resp.simps) (simp only: w assms(5) option.case outcome.case prod.case if_False)
  also have "\<dots> = Returns (?c1\<lparr>resp_chans := (resp_chans ?c1)[q := (resp_chans ?c1 ! q)\<lparr>ch := None\<rparr>]\<rparr>,
      rest, Some ?d)"
    using w(3) by (subst await_resp.simps) simp
  finally show ?thesis by simp
qed

lemma path_info_sel [simp]: "mi_server (path_info sv f r) = sv" "mi_first (path_info sv f r) = f"
  "mi_rest (path_info sv f r) = r"
  by (simp_all add: path_info_def)

lemma BodyBytes_shallow: "snd (BodyBytes (ShallowCopyFrom pr resp)) = snd (BodyBytes pr)"
  by (simp add: BodyBytes_def ShallowCopyFrom_def split: option.split)

lemma ShallowCopyFrom_sel [simp]:
  "reqId (ShallowCopyFrom pr resp) = reqId resp" "rRequest (ShallowCopyFrom pr resp) = rRequest resp"
  "StatusCode (ShallowCopyFrom pr resp) = StatusCode pr" "rflags (ShallowCopyFrom pr resp) = rflags pr"
  "rHeaders (ShallowCopyFrom pr resp) = rHeaders pr" "rStream (ShallowCopyFrom pr resp) = rStream pr"
  by (simp_all add: ShallowCopyFrom_def)

lemma ShallowCopyFrom_body [simp]:
  "rbody (ShallowCopyFrom pr resp) = rbody pr" "bodyLen (ShallowCopyFrom pr resp) = bodyLen pr"
  "response_fits (k, ShallowCopyFrom pr resp) = response_fits (k, pr)"
  "response_body (ShallowCopyFrom pr resp) = response_body pr"
  by (simp_all add: response_fits_def response_body_def ShallowCopyFrom_def split: option.split)

lemma sendReq_open:
  assumes "ps_clients (p_srvs P ! i) = Some cs" and "e_pick E cs = Some j"
    and "p_clients P ! j = (c, inp)" and "\<not> c_isClosed c"
    and "Client_Send (e_utils E) (e_kvs E req) req c = (Inr q, c')"
  shows "sendReq E req i P = Returns (P\<lparr>p_clients := (p_clients P)[j := (c', inp)]\<rparr>,
    fst (Send_write (e_utils E) (e_kvs E req) req c), Inr (j, q))"
  using assms by (simp add: sendReq_def maxReqAttempts_def numeral_eq_Suc pick_client_def
      clientsSet_Get_def sent_request_def Let_def)

lemma sent_id: "rq_id (fst (Send_write U kvs req c)) = reqCounter c + 1"
  by (simp add: Send_write_def Let_def Request_WriteTo_eq split: prod.split option.split)

lemma forward_run:
  assumes "utils_contract (e_utils E)"
    and "splitPath (Path req) = (first, rest)" and "first \<noteq> admin"
    and "map_load (p_servers P) first = Some (Some i)"
    and "ps_clients (p_srvs P ! i) = Some cs" and "e_pick E cs = Some j" and "j < length (p_clients P)"
    and "p_clients P ! j = (c, response_frame (kvs, r) @ inp)" and "\<not> c_isClosed c" and "room (c_out c) = None"
    and "response_fits (kvs, r)" and "\<not> hasStreamMsgFlag (rflags r)" and "reqId r = reqCounter c + 1"
  shows "\<exists>P' req' rc p c' kvs'. px_middleware (px_jtrpcHandler E) P req resp =
      Returns (P', req', ShallowCopyFrom (delivered rc kvs r p) resp) \<and>
    P' = P\<lparr>p_clients := (p_clients P)[j := (c', inp)]\<rparr> \<and>
    out (c_out c') = out (c_out c) @ request_frame (kvs', req\<lparr>Path := rest, rq_id := reqCounter c + 1\<rparr>) \<and>
    Path req' = Path req"
proof -
  define req1 where "req1 = (SetContext (WithValue (rq_ctx req) ctxKey (Info (path_info (Some i) first rest))) req)\<lparr>Path := rest\<rparr>"
  obtain c1 where c1: "Client_Send (e_utils E) (e_kvs E req1) req1 c = (Inr (length (resp_chans c)), c1)"
    "out (c_out c1) = out (c_out c) @ request_frame (e_kvs E req1, req1\<lparr>rq_id := reqCounter c + 1\<rparr>)"
    "\<not> c_isClosed c1" "reqs c1 (reqCounter c + 1) = Some (length (resp_chans c))"
    "waiting (length (resp_chans c)) c1"
    by (rule Client_Send_waits [OF assms(1,9,10)])
  let ?inp = "response_frame (kvs, r) @ inp"
  let ?P1 = "P\<lparr>p_clients := (p_clients P)[j := (c1, ?inp)]\<rparr>"
  let ?req2 = "fst (Send_write (e_utils E) (e_kvs E req1) req1 c)"
  have s: "sendReq E req1 i P = Returns (?P1, ?req2, Inr (j, length (resp_chans c)))"
    by (rule sendReq_open [OF assms(5,6,8,9) c1(1)])
  have id: "reqs c1 (reqId r) = Some (length (resp_chans c))" using c1(4) assms(13) by simp
  let ?d = "delivered (resp_chans c1 ! length (resp_chans c)) kvs r (length (strs c1))"
  obtain c2 where c2: "await_resp (e_utils E) (e_orders E) (length (resp_chans c)) c1 ?inp = Returns (c2, inp, Some ?d)"
    "c_out c2 = c_out c1"
    using await_resp_response [OF assms(11,12) id c1(5,3), of "e_utils E" "e_orders E" inp] by blast
  have a: "await_at E (j, length (resp_chans c)) ?P1 =
      Returns (P\<lparr>p_clients := (p_clients P)[j := (c2, inp)]\<rparr>, Some ?d)"
    using c2(1) assms(7) by (simp add: await_at_def)
  have "ctx_info (SetContext (WithValue (rq_ctx req) ctxKey (Info (path_info (Some i) first rest))) req) =
      Some (path_info (Some i) first rest)"
    by (simp add: ctx_info_def SetContext_def)
  then have "px_jtrpcHandler E P (SetContext (WithValue (rq_ctx req) ctxKey (Info (path_info (Some i) first rest))) req) resp =
      Returns (P\<lparr>p_clients := (p_clients P)[j := (c2, inp)]\<rparr>, ?req2, ShallowCopyFrom ?d resp)"
    using s a assms(5) by (simp add: px_jtrpcHandler_def flip: req1_def)
  moreover have "(case p_servers P of None \<Rightarrow> None | Some mp \<Rightarrow> mp first) = Some (Some i)"
    using assms(4) by (cases "p_servers P") auto
  ultimately have "px_middleware (px_jtrpcHandler E) P req resp =
      Returns (P\<lparr>p_clients := (p_clients P)[j := (c2, inp)]\<rparr>, ?req2\<lparr>Path := Path req\<rparr>, ShallowCopyFrom ?d resp)"
    using assms(2,3) by (simp add: px_middleware_def Let_def)
  moreover have "request_frame (e_kvs E req1, req1\<lparr>rq_id := reqCounter c + 1\<rparr>) =
      request_frame (e_kvs E req1, req\<lparr>Path := rest, rq_id := reqCounter c + 1\<rparr>)"
    by (simp add: request_frame_def request_bytes_def req1_def SetContext_def)
  ultimately show ?thesis using c1(2) c2(2) by fastforce
qed

text \<open>C3: A request is passed on.  When the server under the first segment of the path has an open
  client and answers, the client's connection carries the request with the rest of the path and the
  client's own id, and nothing else; the answer has the server's status, flags, headers and
  body under the id the caller gave; the answer is taken off the client's input exactly, and the
  caller's path is put back.\<close>

theorem proxy_forwards:
  assumes "utils_contract (e_utils E)"
    and "splitPath (Path req) = (first, rest)" and "first \<noteq> admin"
    and "map_load (p_servers P) first = Some (Some i)"
    and "ps_clients (p_srvs P ! i) = Some cs" and "e_pick E cs = Some j" and "j < length (p_clients P)"
    and "p_clients P ! j = (c, response_frame (kvs, r) @ inp)" and "\<not> c_isClosed c" and "room (c_out c) = None"
    and "response_fits (kvs, r)" and "\<not> hasStreamMsgFlag (rflags r)" and "reqId r = reqCounter c + 1"
  shows "\<exists>P' req' resp' c' kvs'. px_middleware (px_jtrpcHandler E) P req resp = Returns (P', req', resp') \<and>
    P' = P\<lparr>p_clients := (p_clients P)[j := (c', inp)]\<rparr> \<and>
    out (c_out c') = out (c_out c) @ request_frame (kvs', req\<lparr>Path := rest, rq_id := reqCounter c + 1\<rparr>) \<and>
    Path req' = Path req \<and> reqId resp' = reqId resp \<and> StatusCode resp' = StatusCode r \<and>
    rflags resp' = rflags r \<and> rHeaders resp' = Some (newHeaders (hdr_out kvs (rHeaders r))) \<and>
    snd (BodyBytes resp') = response_body r"
  using forward_run [OF assms, of resp] delivered_body [OF assms(11)] BodyBytes_shallow
  by (metis ShallowCopyFrom_sel(1,3,4,5) delivered_sel(1-3))

definition demo_answer :: "nat presp" where
  "demo_answer = SetStatusBodyBytes StatusOK [1, 2, 3] (newResponse 1 0 None)"

lemma demo_answer_fits: "response_fits ([], demo_answer)" "\<not> hasStreamMsgFlag (rflags demo_answer)"
  "reqId demo_answer = 1"
  by (simp_all add: demo_answer_def response_fits_def hdr_out_def header_bytes_def Headers_Encode_def
      newHeaders_def SetStatusBodyBytes_def Response_SetBodyBytes_def SetBodyReader_def
      SetBodyReadCloser_def newResponse_def FromReader_def avail_def hasStreamMsgFlag_def)

lemma proxy_forwards_witness:
  "let c = fresh_client; kvs = []; r = demo_answer; inp = [9]; P = demo_proxy [(c, response_frame (kvs, r) @ inp)];
       req = demo_req (lit ''/a/x''); resp = newResponse 7 0 None; j = 0
   in \<exists>P' req' resp' c' kvs'. px_middleware (px_jtrpcHandler demo_env) P req resp = Returns (P', req', resp') \<and>
    P' = P\<lparr>p_clients := (p_clients P)[j := (c', inp)]\<rparr> \<and>
    out (c_out c') = out (c_out c) @ request_frame (kvs', req\<lparr>Path := lit ''/x'', rq_id := reqCounter c + 1\<rparr>) \<and>
    Path req' = Path req \<and> reqId resp' = reqId resp \<and> StatusCode resp' = StatusCode r \<and>
    rflags resp' = rflags r \<and> rHeaders resp' = Some (newHeaders (hdr_out kvs (rHeaders r))) \<and>
    snd (BodyBytes resp') = response_body r"
  unfolding Let_def
  by (rule proxy_forwards [where first = "lit ''/a''" and i = 0 and cs = "{0}"])
    (simp_all add: demo_answer_fits demo_proxy_def demo_env_def plain.utils_contract_axioms fresh_client_def
      demo_req_def newRequest_def splitPath_def slash_def admin_def lit_simps Let_def)

lemma forwarded_id:
  assumes "utils_contract (e_utils E)"
    and "splitPath (Path req) = (first, rest)" and "first \<noteq> admin"
    and "map_load (p_servers P) first = Some (Some i)"
    and "ps_clients (p_srvs P ! i) = Some cs" and "e_pick E cs = Some j"
    and "p_clients P ! j = (c, inp)" and "\<not> c_isClosed c" and "room (c_out c) = None"
    and "px_middleware (px_jtrpcHandler E) P req resp = Returns (P', req', resp')"
  shows "rq_id req' = reqCounter c + 1"
proof -
  let ?req0 = "SetContext (WithValue (rq_ctx req) ctxKey (Info (path_info (Some i) first rest))) req"
  define req1 where "req1 = ?req0\<lparr>Path := rest\<rparr>"
  obtain c1 where c1: "Client_Send (e_utils E) (e_kvs E req1) req1 c = (Inr (length (resp_chans c)), c1)"
    by (rule Client_Send_waits [OF assms(1,8,9)])
  note s = sendReq_open [OF assms(5,6,7,8) c1]
  have "ctx_info ?req0 = Some (path_info (Some i) first rest)" by (simp add: ctx_info_def SetContext_def)
  then have "rq_id req2 = reqCounter c + 1"
    if "px_jtrpcHandler E P ?req0 resp = Returns (Q, req2, resp2)" for Q req2 resp2
    using s that assms(5)
    by (auto simp: px_jtrpcHandler_def outcome_simps sent_id split: option.splits simp flip: req1_def)
  moreover have "(case p_servers P of None \<Rightarrow> None | Some mp \<Rightarrow> mp first) = Some (Some i)"
    using assms(4) by (cases "p_servers P") auto
  ultimately show ?thesis
    using assms(2,3,10) by (fastforce simp: px_middleware_def Let_def outcome_simps)
qed

text \<open>The id of a request that was passed on.  \<open>Send\<close> writes the client's id into the request of
  the caller, whose own connection uses it afterwards to forget the request: in the connection's
  map of active requests it is the client's id that is removed, and the request stays.\<close>

theorem forwarded_request_stays_active:
  assumes "utils_contract (e_utils E)"
    and "splitPath (Path (t_req t)) = (first, rest)" and "first \<noteq> admin"
    and "map_load (p_servers P) first = Some (Some i)"
    and "ps_clients (p_srvs P ! i) = Some cs" and "e_pick E cs = Some j"
    and "p_clients P ! j = (c, inp)" and "\<not> c_isClosed c" and "room (c_out c) = None"
    and "px_middleware (px_jtrpcHandler E) P (t_req t) (t_resp t) = Returns (P', t_handler t (t_req t, t_resp t))"
    and "sc_reqs sc k = Some q" and "k \<noteq> reqCounter c + 1"
  shows "sc_reqs (task_run U kvs t sc) k = Some q"
proof -
  obtain req' resp' where h: "t_handler t (t_req t, t_resp t) = (req', resp')"
    by (cases "t_handler t (t_req t, t_resp t)")
  have "rq_id req' = reqCounter c + 1"
    by (rule forwarded_id [OF assms(1-9)]) (use assms(10) h in simp)
  then show ?thesis
    using assms(11,12) h by (auto simp: task_run_def Let_def split: prod.split option.split)
qed

definition demo_forward :: "nat pval handler" where
  "demo_forward = (\<lambda>(req, resp). case px_middleware (px_jtrpcHandler demo_env)
       (demo_proxy [(fresh_client, response_frame ([], demo_answer))]) req resp of
     Returns (P', req', resp') \<Rightarrow> (req', resp') | _ \<Rightarrow> (req, resp))"

lemma forwarded_request_stays_active_witness:
  "sc_reqs (task_run plain_utils [] \<lparr>t_handler = demo_forward, t_req = demo_req (lit ''/a/x''),
       t_resp = newResponse 7 0 None, t_stream = None\<rparr>
     ((newServerConn \<lparr>out = [], room = None\<rparr>)\<lparr>sc_reqs := [7 \<mapsto> demo_req (lit ''/a/x'')]\<rparr>)) 7 =
     Some (demo_req (lit ''/a/x''))"
proof -
  let ?P = "demo_proxy [(fresh_client, response_frame ([], demo_answer) @ [])]"
  have eval: "splitPath (Path (demo_req (lit ''/a/x''))) = (lit ''/a'', lit ''/x'')" "lit ''/a'' \<noteq> admin"
    "map_load (p_servers ?P) (lit ''/a'') = Some (Some 0)" "ps_clients (p_srvs ?P ! 0) = Some {0}"
    "e_pick demo_env {0} = Some 0" "0 < length (p_clients ?P)"
    "p_clients ?P ! 0 = (fresh_client, response_frame ([], demo_answer) @ [])"
    "\<not> c_isClosed fresh_client" "room (c_out fresh_client) = None" "utils_contract (e_utils demo_env)"
    "reqId demo_answer = reqCounter fresh_client + 1"
    by (simp_all add: demo_proxy_def demo_env_def plain.utils_contract_axioms fresh_client_def
      demo_req_def newRequest_def splitPath_def slash_def admin_def lit_simps Let_def demo_answer_fits)
  obtain P' req' resp' where r: "px_middleware (px_jtrpcHandler demo_env) ?P (demo_req (lit ''/a/x'')) (newResponse 7 0 None) =
      Returns (P', req', resp')"
    using forward_run [OF eval(10,1-9) demo_answer_fits(1,2) eval(11), of "newResponse 7 0 None"] by blast
  show ?thesis
    by (rule forwarded_request_stays_active [where E = demo_env and P = ?P and first = "lit ''/a''"
          and rest = "lit ''/x''" and i = 0 and cs = "{0}" and j = 0 and c = fresh_client and P' = P'
          and inp = "response_frame ([], demo_answer) @ []"])
      (use eval r in \<open>simp_all add: demo_forward_def fresh_client_def\<close>)
qed

section \<open>Handlers keep the proxy well-formed\<close>

definition servers_ok :: "nat \<Rightarrow> nat \<Rightarrow> (gostring \<rightharpoonup> nat option) option \<Rightarrow> pserver list \<Rightarrow> bool" where
  "servers_ok nc nk mp srvs \<longleftrightarrow> (\<forall>s\<in>set srvs. srv_ok nc nk s) \<and>
     (\<forall>p sv. map_load mp p = Some sv \<and> fst (splitPath p) \<noteq> admin \<longrightarrow>
        (\<exists>i<length srvs. sv = Some i \<and> initialised (srvs ! i))) \<and>
     (\<forall>p i. map_load mp p = Some (Some i) \<longrightarrow> i < length srvs)"

lemma proxy_ok_servers: "proxy_ok P \<longleftrightarrow> servers_ok (length (p_clients P)) (length (p_conns P)) (p_servers P) (p_srvs P) \<and>
    (\<forall>x\<in>set (p_clients P). client_ok x)"
  by (auto simp: proxy_ok_def servers_ok_def)

lemma servers_ok_add:
  assumes "servers_ok a b (Some m) srvs" and "srv_ok a b s"
    and "fst (splitPath p) \<noteq> admin \<Longrightarrow> initialised s"
  shows "servers_ok a b (Some (m(p \<mapsto> Some (length srvs)))) (srvs @ [s])"
  unfolding servers_ok_def
proof (intro conjI ballI allI impI)
  fix q sv assume q: "map_load (Some (m(p \<mapsto> Some (length srvs)))) q = Some sv \<and> fst (splitPath q) \<noteq> admin"
  show "\<exists>i<length (srvs @ [s]). sv = Some i \<and> initialised ((srvs @ [s]) ! i)"
  proof (cases "q = p")
    case True
    then show ?thesis using q assms(3) by auto
  next
    case False
    then have "\<exists>i<length srvs. sv = Some i \<and> initialised (srvs ! i)"
      using q assms(1) by (simp add: servers_ok_def)
    then show ?thesis by (auto simp: nth_append)
  qed
qed (use assms(1,2) in \<open>auto simp: servers_ok_def less_Suc_eq split: if_splits\<close>)

lemma servers_ok_restrict: "servers_ok a b (Some m) srvs \<Longrightarrow> servers_ok a b (Some (m |` A)) srvs"
  by (auto simp: servers_ok_def restrict_map_def split: if_splits)

lemma servers_ok_none [simp]: "servers_ok a b None srvs \<longleftrightarrow> (\<forall>s\<in>set srvs. srv_ok a b s)"
  "servers_ok a b (Some Map.empty) srvs \<longleftrightarrow> (\<forall>s\<in>set srvs. srv_ok a b s)"
  by (auto simp: servers_ok_def)

lemma new_loop_ok:
  "servers_ok a b mp srvs \<Longrightarrow> new_loop l mp srvs errs = Returns (mp', srvs', errs') \<Longrightarrow> servers_ok a b mp' srvs'"
proof (induction l arbitrary: mp srvs errs)
  case (Cons x l)
  obtain p sv where x: "x = (p, sv)" by (cases x)
  show ?case
  proof (cases "fst (splitPath p) = admin \<or> map_load mp p \<noteq> None")
    case True
    then show ?thesis using Cons x by (auto split: if_splits)
  next
    case False
    obtain f where f: "sv = Some f" using Cons.prems(2) x False by (cases sv) auto
    obtain m where m: "mp = Some m" using Cons.prems(2) x False f by (cases mp) auto
    have "servers_ok a b (Some (m(p \<mapsto> Some (length srvs)))) (srvs @ [Server_init (json_server f)])"
      using Cons.prems(1) m by (intro servers_ok_add) (simp_all add: json_server_ok Server_init_ok)
    then show ?thesis using Cons.IH Cons.prems(2) x f m False by simp
  qed
qed simp

lemma replace_loop_ok:
  "servers_ok a b (Some m) srvs \<Longrightarrow> replace_loop l m srvs errs = Returns (m', srvs', errs') \<Longrightarrow>
    servers_ok a b (Some m') srvs'"
proof (induction l arbitrary: m srvs errs)
  case (Cons x l)
  obtain p sv where x: "x = (p, sv)" by (cases x)
  show ?case
  proof (cases sv)
    case None
    then have "fst (splitPath p) = admin" using Cons.prems(2) x by (auto split: if_splits)
    moreover have "servers_ok a b (Some (m(p \<mapsto> None))) srvs" if "fst (splitPath p) = admin"
      using that Cons.prems(1) by (auto simp: servers_ok_def)
    ultimately show ?thesis using Cons x None by auto
  next
    case (Some f)
    let ?s = "if fst (splitPath p) = admin then json_server f else Server_init (json_server f)"
    have "servers_ok a b (Some (m(p \<mapsto> Some (length srvs)))) (srvs @ [?s])"
      using Cons.prems(1) by (intro servers_ok_add) (simp_all add: json_server_ok Server_init_ok)
    then show ?thesis using Cons.IH Cons.prems(2) x Some by (auto split: if_splits)
  qed
qed simp

lemma del_loop_ok:
  "servers_ok a b mp srvs \<Longrightarrow> del_loop ps mp errs = (mp', e) \<Longrightarrow> servers_ok a b mp' srvs"
proof (cases mp)
  case None
  have "fst (del_loop ps None errs) = None" by (induction ps arbitrary: errs) simp_all
  then show "servers_ok a b mp srvs \<Longrightarrow> del_loop ps mp errs = (mp', e) \<Longrightarrow> ?thesis" using None by simp
next
  case (Some m)
  then show "servers_ok a b mp srvs \<Longrightarrow> del_loop ps mp errs = (mp', e) \<Longrightarrow> ?thesis"
    using del_loop_spec [of ps m errs mp' e] servers_ok_restrict by auto
qed

lemma adminHandler_ok:
  assumes "adminHandler E P req resp = Returns (P', req', resp')" and "proxy_ok P"
  shows "proxy_ok P'"
proof -
  have new: "proxy_ok P'" if "newServersHandler E P req resp = Returns (P', req', resp')"
    using that assms(2) by (auto simp: newServersHandler_def decode_body_def Let_def outcome_simps
        proxy_ok_servers dest: new_loop_ok split: option.splits sum.splits)
  moreover have "proxy_ok P'" if "delServersHandler E P req resp = Returns (P', req', resp')"
    using that assms(2) by (auto simp: delServersHandler_def decode_body_def outcome_simps
        proxy_ok_servers dest: del_loop_ok split: option.splits sum.splits prod.splits)
  moreover have "proxy_ok P'" if r: "replaceServersHandler E P req resp = Returns (P', req', resp')"
  proof -
    have e: "servers_ok (length (p_clients P)) (length (p_conns P)) (Some Map.empty) (p_srvs P)"
      using assms(2) by (auto simp: proxy_ok_servers servers_ok_def)
    show ?thesis
      using r assms(2) replace_loop_ok [OF e] by (auto simp: replaceServersHandler_def decode_body_def Let_def
          outcome_simps proxy_ok_servers servers_ok_def split: option.splits sum.splits)
  qed
  ultimately show ?thesis
    using assms by (auto simp: adminHandler_def outcome_simps dest: getServersHandler_state
        split: option.splits if_splits)
qed

text \<open>The reader leaves a client's reason for being closed alone, and sets both when it ends.\<close>

lemma handleResp_closed:
  "handleResp q fl c r = Returns (c', r', e) \<Longrightarrow> c_isClosed c' = c_isClosed c \<and> c_closeErr c' = c_closeErr c"
  unfolding handleResp_def
  by (auto simp: Let_def outcome_simps split: sum.splits prod.splits option.splits if_splits)

lemma client_handleStreamMsg_closed:
  "client_handleStreamMsg U p fl c r = Returns (c', r', e) \<Longrightarrow>
    c_isClosed c' = c_isClosed c \<and> c_closeErr c' = c_closeErr c"
  unfolding client_handleStreamMsg_def
  by (auto simp: Let_def outcome_simps split: sum.splits prod.splits option.splits if_splits)

lemma client_frame_closed:
  "client_frame U c r = Returns (c', r', e) \<Longrightarrow> c_isClosed c' = c_isClosed c \<and> c_closeErr c' = c_closeErr c"
  unfolding client_frame_def
  by (auto simp: Let_def dest: handleResp_closed client_handleStreamMsg_closed
      split: sum.splits prod.splits option.splits if_splits)

lemma close_streams_closed:
  "close_streams U ps c = Returns c' \<Longrightarrow> c_isClosed c' = c_isClosed c \<and> c_closeErr c' = c_closeErr c"
  by (induction ps arbitrary: c) (fastforce simp: outcome_simps)+

lemma close_chans_closed:
  "close_chans qs c = Returns c' \<Longrightarrow> c_isClosed c' = c_isClosed c \<and> c_closeErr c' = c_closeErr c"
  by (induction qs arbitrary: c) (fastforce simp: outcome_simps)+

lemma closeWithErr_client_ok:
  "closeWithErr U ps qs e c = Returns (c', x) \<Longrightarrow> client_ok (c, r) \<Longrightarrow> client_ok (c', r')"
  by (auto simp: closeWithErr_def client_ok_def Let_def outcome_simps split: if_splits
      dest!: close_streams_closed close_chans_closed)

lemma await_resp_ok:
  "await_resp U orders q c r = Returns (c', r', resp) \<Longrightarrow> client_ok (c, r) \<Longrightarrow> client_ok (c', r')"
proof (induction U orders q c r rule: await_resp.induct)
  case (1 U orders q c r)
  show ?case
  proof (cases "ch (resp_chans c ! q) \<noteq> None \<or> ch_closed (resp_chans c ! q) \<or> c_isClosed c")
    case True
    then show ?thesis
      using "1.prems" by (subst (asm) await_resp.simps) (auto simp: client_ok_def split: option.splits if_splits)
  next
    case False
    then have n: "ch (resp_chans c ! q) = None" "\<not> ch_closed (resp_chans c ! q)" "\<not> c_isClosed c" by auto
    show ?thesis
    proof (cases "client_frame U c r")
      case (Returns y)
      obtain c1 r1 e where y: "y = (c1, r1, e)" by (cases y)
      have c1: "client_ok (c1, r1)" using client_frame_closed [of U c r c1 r1 e] Returns y n(3)
        by (simp add: client_ok_def)
      show ?thesis
      proof (cases e)
        case None
        then have "await_resp U orders q c1 r1 = Returns (c', r', resp)"
          using "1.prems"(1) n Returns y by (subst (asm) (1) await_resp.simps) simp
        from "1.IH" [OF n Returns y [symmetric] refl None this c1] show ?thesis by simp
      next
        case (Some x)
        obtain ps qs where o: "orders c1 = (ps, qs)" by (cases "orders c1")
        show ?thesis
          using "1.prems"(1) n Returns y Some o closeWithErr_client_ok [OF _ c1, of U ps qs "Some x"]
          by (subst (asm) (1) await_resp.simps)
            (auto simp: outcome_simps client_ok_def split: option.splits if_splits)
      qed
    qed (use "1.prems" n in \<open>subst (asm) (1) await_resp.simps, simp\<close>)+
  qed
qed

lemma px_mux_sel [simp]:
  "getGlobalMiddleware (px_mux E) = Some px_middleware" "getMiddleware (px_mux E) = None"
  "getStreamMiddleware (px_mux E) = Some (px_streamMiddleware E)"
  "getMiddlewareFor (px_mux E) p = None" "getStreamMiddlewareFor (px_mux E) p = None"
  "getHandler (px_mux E) p = Some (if fst (splitPath p) = admin then adminHandler E else px_jtrpcHandler E)"
  "getStreamHandler (px_mux E) p =
     (if fst (splitPath p) = admin then None else Some (px_jtrpcStreamHandler (e_utils E)))"
  by (simp_all add: px_mux_def MapMux_mux_def newMux_def StreamMiddleware_def GlobalMiddleware_def
      zero_mapmux_def add_middleware_def CombineMiddleware_def GetMiddlewareFor_def map_load_def
      GetStreamMiddlewareFor_def px_GetHandler_def px_GetStreamHandler_def GetHandler_def GetStreamHandler_def)

lemma px_chain:
  "chain_handler (px_mux E) p h = px_middleware h"
  "chain_stream (px_mux E) p h = px_middleware (px_streamMiddleware E h)"
  by (simp_all add: chain_handler_def chain_stream_def)

lemma await_at_ok:
  assumes "await_at E (j, q) P = Returns (P', pr)" and "proxy_ok P" and "j < length (p_clients P)"
  shows "proxy_ok P' \<and> proxy_le P P'"
proof -
  obtain c r where c: "p_clients P ! j = (c, r)" by (cases "p_clients P ! j")
  obtain c' r' where a: "await_resp (e_utils E) (e_orders E) q c r = Returns (c', r', pr)"
    "P' = P\<lparr>p_clients := (p_clients P)[j := (c', r')]\<rparr>"
    using assms(1) c by (auto simp: await_at_def outcome_simps)
  have "client_ok (c', r')"
    using await_resp_ok [OF a(1)] proxy_ok_client [OF assms(2,3)] c by simp
  then show ?thesis using upd_client_ok [OF assms(2)] a(2) by simp
qed

text \<open>A handler keeps the proxy well-formed when the server it was given is an initialised one.\<close>

definition keeps_ok :: "'x phandler \<Rightarrow> bool" where
  "keeps_ok h \<longleftrightarrow> (\<forall>P req resp P' req' resp'. proxy_ok P \<longrightarrow>
     (\<forall>mi i. ctx_info req = Some mi \<and> mi_server mi = Some i \<longrightarrow>
        i < length (p_srvs P) \<and> initialised (p_srvs P ! i)) \<longrightarrow>
     h P req resp = Returns (P', req', resp') \<longrightarrow> proxy_ok P')"

lemma keeps_okD:
  "\<lbrakk>keeps_ok h; proxy_ok P; h P req resp = Returns (P', req', resp');
    \<And>mi i. ctx_info req = Some mi \<Longrightarrow> mi_server mi = Some i \<Longrightarrow>
      i < length (p_srvs P) \<and> initialised (p_srvs P ! i)\<rbrakk> \<Longrightarrow> proxy_ok P'"
  unfolding keeps_ok_def by blast

lemma px_jtrpcHandler_keeps:
  assumes "env_ok E" shows "keeps_ok (px_jtrpcHandler E)"
  unfolding keeps_ok_def
proof (intro allI impI)
  fix P req resp P' req' resp'
  assume ok: "proxy_ok P" and ini: "\<forall>mi i. ctx_info req = Some mi \<and> mi_server mi = Some i \<longrightarrow>
        i < length (p_srvs P) \<and> initialised (p_srvs P ! i)"
    and r: "px_jtrpcHandler E P req resp = Returns (P', req', resp')"
  show "proxy_ok P'"
  proof (cases "\<exists>mi i. ctx_info req = Some mi \<and> mi_server mi = Some i \<and> ps_clients (p_srvs P ! i) \<noteq> None")
    case False
    then show ?thesis using r ok by (fastforce simp: px_jtrpcHandler_def split: option.splits if_splits)
  next
    case True
    then obtain mi i where mi: "ctx_info req = Some mi" "mi_server mi = Some i" "ps_clients (p_srvs P ! i) \<noteq> None"
      by blast
    then have i: "i < length (p_srvs P)" "initialised (p_srvs P ! i)" using ini by blast+
    obtain P1 req1 res where s: "sendReq E (req\<lparr>Path := mi_rest mi\<rparr>) i P = Returns (P1, req1, res)" "proxy_ok P1"
      "case res of Inl e \<Rightarrow> True | Inr jq \<Rightarrow> chan_at P1 jq"
      using sendReq_loop_ok [OF ok i assms, of maxReqAttempts "req\<lparr>Path := mi_rest mi\<rparr>"]
      unfolding sendReq_def by blast
    show ?thesis
    proof (cases res)
      case (Inl e)
      then show ?thesis using r mi s by (simp add: px_jtrpcHandler_def)
    next
      case (Inr jq)
      obtain j q where jq: "jq = (j, q)" by (cases jq)
      obtain P2 pr where w: "await_at E (j, q) P1 = Returns (P2, pr)" "P' = P2"
        using r mi s(1) Inr jq by (auto simp: px_jtrpcHandler_def outcome_simps split: option.splits)
      have "j < length (p_clients P1)" using s(3) Inr jq by (simp add: chan_at_def)
      from await_at_ok [OF w(1) s(2) this] w(2) show ?thesis by simp
    qed
  qed
qed

lemma px_streamMiddleware_keeps:
  assumes "env_ok E" shows "keeps_ok (px_streamMiddleware E (\<lambda>P req resp. Returns (P, req, resp)))"
  unfolding keeps_ok_def
proof (intro allI impI)
  fix P req resp P' req' resp'
  assume ok: "proxy_ok P" and ini: "\<forall>mi i. ctx_info req = Some mi \<and> mi_server mi = Some i \<longrightarrow>
        i < length (p_srvs P) \<and> initialised (p_srvs P ! i)"
    and r: "px_streamMiddleware E (\<lambda>P req resp. Returns (P, req, resp)) P req resp = Returns (P', req', resp')"
  show "proxy_ok P'"
  proof (cases "\<exists>mi i. ctx_info req = Some mi \<and> mi_server mi = Some i \<and> ps_clients (p_srvs P ! i) \<noteq> None")
    case False
    then show ?thesis using r ok by (fastforce simp: px_streamMiddleware_def split: option.splits if_splits)
  next
    case True
    then obtain mi i where mi: "ctx_info req = Some mi" "mi_server mi = Some i" "ps_clients (p_srvs P ! i) \<noteq> None"
      by blast
    then have i: "i < length (p_srvs P)" "initialised (p_srvs P ! i)" using ini by blast+
    let ?preq = "SetStream True ((Request_Clone (e_utils E) (rq_ctx req) req)\<lparr>Path := mi_rest mi\<rparr>)"
    obtain P1 req1 res where s: "sendReq E ?preq i P = Returns (P1, req1, res)" "proxy_ok P1"
      "case res of Inl e \<Rightarrow> True | Inr jq \<Rightarrow> chan_at P1 jq"
      using sendReq_loop_ok [OF ok i assms, of maxReqAttempts ?preq] unfolding sendReq_def by blast
    show ?thesis
    proof (cases res)
      case (Inl e)
      then show ?thesis using r mi s by (simp add: px_streamMiddleware_def)
    next
      case (Inr jq)
      obtain j q where jq: "jq = (j, q)" by (cases jq)
      obtain P2 pr where w: "await_at E (j, q) P1 = Returns (P2, pr)"
        "P' = P2 \<or> P' = P2\<lparr>p_timers := p_timers P2 @ [Pending]\<rparr>"
        using r mi s(1) Inr jq
        by (auto simp: px_streamMiddleware_def Let_def outcome_simps split: option.splits)
      have "j < length (p_clients P1)" using s(3) Inr jq by (simp add: chan_at_def)
      from await_at_ok [OF w(1) s(2) this] w(2) show ?thesis by auto
    qed
  qed
qed

lemma px_middleware_keeps:
  assumes "keeps_ok h" and "proxy_ok P" and "px_middleware h P req resp = Returns (P', req', resp')"
  shows "proxy_ok P'"
proof -
  obtain first rest where sp: "splitPath (Path req) = (first, rest)" by (cases "splitPath (Path req)")
  have ff: "fst (splitPath first) = first" using splitPath_first [of "Path req"] sp by simp
  have call: "proxy_ok Q" if
    "h P (SetContext (WithValue (rq_ctx req) ctxKey (Info (path_info sv first rest))) req) resp = Returns (Q, r, s)"
    "\<forall>i. sv = Some i \<longrightarrow> i < length (p_srvs P) \<and> initialised (p_srvs P ! i)" for Q r s sv
    by (rule keeps_okD [OF assms(1,2) that(1)])
      (use that(2) in \<open>auto simp: ctx_info_def SetContext_def\<close>)
  show ?thesis
  proof (cases "first = admin")
    case True
    then show ?thesis using assms(3) sp call [of None] by (auto simp: px_middleware_def outcome_simps)
  next
    case False
    show ?thesis
    proof (cases "map_load (p_servers P) first")
      case None
      then show ?thesis using assms(2,3) sp False
        by (auto simp: px_middleware_def map_load_def split: option.splits)
    next
      case (Some sv)
      have "\<forall>i. sv = Some i \<longrightarrow> i < length (p_srvs P) \<and> initialised (p_srvs P ! i)"
        using proxy_okD [OF assms(2) Some] ff False by auto
      moreover have "(case p_servers P of None \<Rightarrow> None | Some mp \<Rightarrow> mp first) = Some sv"
        using Some by (cases "p_servers P") auto
      ultimately show ?thesis using assms(3) sp False call [of sv]
        by (auto simp: px_middleware_def outcome_simps)
    qed
  qed
qed

lemma adminHandler_keeps: "keeps_ok (adminHandler E)"
  unfolding keeps_ok_def by (blast intro: adminHandler_ok)

lemma request_keeps:
  assumes "proxy_ok P" and "env_ok E"
    and "chain_handler (px_mux E) p (the (getHandler (px_mux E) p)) P req resp = Returns (P', req', resp') \<or>
      chain_stream (px_mux E) p (\<lambda>P req resp. Returns (P, req, resp)) P req resp = Returns (P', req', resp')"
  shows "proxy_ok P'"
  using assms px_middleware_keeps [OF adminHandler_keeps]
    px_middleware_keeps [OF px_jtrpcHandler_keeps] px_middleware_keeps [OF px_streamMiddleware_keeps]
  by (auto simp: px_chain split: if_splits)

text \<open>C10: Well-formedness is preserved.  Whatever request is served, regular or for a stream, on any
  path, when the handlers the multiplexer gives return, the proxy is well-formed if it was: every
  server a path leads to exists, outside \<open>/admin\<close> it is there and initialised, every client,
  connection and channel a server points to exists, no channel of tunnelled connections holds
  more than it can, and a closed client has its reason.\<close>

theorem proxy_well_formed:
  assumes "proxy_ok P" and "env_ok E"
    and "chain_handler (px_mux E) p (the (getHandler (px_mux E) p)) P req resp = Returns (P', req', resp') \<or>
      chain_stream (px_mux E) p (\<lambda>P req resp. Returns (P, req, resp)) P req resp = Returns (P', req', resp')"
  shows "proxy_ok P'"
  by (rule request_keeps [OF assms])

lemma proxy_well_formed_witness:
  "case chain_handler (px_mux demo_env) [] (the (getHandler (px_mux demo_env) [])) (demo_proxy [])
      (demo_req (lit ''/b'')) zeroResponse of Returns (P', req', resp') \<Rightarrow> proxy_ok P' | _ \<Rightarrow> False"
proof -
  have r: "chain_handler (px_mux demo_env) [] (the (getHandler (px_mux demo_env) [])) (demo_proxy [])
      (demo_req (lit ''/b'')) zeroResponse =
      Returns (demo_proxy [], demo_req (lit ''/b''), zeroResponse\<lparr>StatusCode := StatusNotFound\<rparr>)"
    by (simp add: px_chain px_middleware_def demo_proxy_def demo_req_def newRequest_def splitPath_def
        slash_def admin_def Let_def lit_simps)
  have "proxy_ok (demo_proxy [])"
    by (rule proxy_well_formed [OF demo_proxy_ok demo_env_ok disjI1 [OF r]]) simp
  then show ?thesis unfolding r by simp
qed

end
