(* ===== verification/EndToEnd.thy ===== *)
theory EndToEnd
  imports ProxyForward
begin

text \<open>
  The programs together: a client, the proxy (src/proxy/mux.go behind src/go/server.go) and the server
  it passes requests on to, each over its own connection.

  \<^item> The proxy's handlers change the proxy, and the handlers of \<open>ServerGo\<close> are functions of the request
    and the response: \<open>run_at P\<close> is a handler of the proxy as it runs in the state \<open>P\<close>, \<open>px_view\<close> the
    multiplexer of such handlers.  The state the handler leaves is named in the theorem.
  \<^item> \<open>proxy_server\<close> is the server that \<open>RunServer\<close> makes around the multiplexer.
\<close>

section \<open>The proxy's server\<close>

text \<open>What a handler of the proxy does to a request and its response when it runs in the state \<open>P\<close>.\<close>

definition run_at :: "'x pstate \<Rightarrow> 'x phandler \<Rightarrow> 'x pval handler" where
  "run_at P h = (\<lambda>(req, resp). case h P req resp of
     Returns (P', req', resp') \<Rightarrow> (req', resp') | _ \<Rightarrow> (req, resp))"

text \<open>The proxy's multiplexer as a server asks it while the proxy is in the state \<open>P\<close>: the handler of a
  path is the whole chain around it.\<close>

definition px_view :: "'x pval penv \<Rightarrow> 'x pstate \<Rightarrow> ('x pval handler, 'x pstream_handler) mux" where
  "px_view E P = UnimplementedMux
     \<lparr>getHandler := (\<lambda>p. map_option (\<lambda>h. run_at P (chain_handler (px_mux E) p h)) (getHandler (px_mux E) p)),
      getStreamHandler := getStreamHandler (px_mux E),
      getStreamMiddlewareFor := (\<lambda>p. Some (\<lambda>_. run_at P
        (chain_stream (px_mux E) p (\<lambda>P req resp. Returns (P, req, resp)))))\<rparr>"

definition proxy_server :: "'x pval penv \<Rightarrow> 'x pstate \<Rightarrow> ('x pval, 'x pstream_handler) server" where
  "proxy_server E P = NewServer\<lparr>Mux := px_view E P\<rparr>"

lemma px_view_sel [simp]:
  "getHandler (px_view E P) p = Some (run_at P (px_middleware
     (if fst (splitPath p) = admin then adminHandler E else px_jtrpcHandler E)))"
  "chain_handler (px_view E P) p h = h"
  by (simp_all add: px_view_def UnimplementedMux_def px_chain) (simp add: chain_handler_def)

lemma proxy_server_route:
  assumes "\<not> hasStreamFlag fl" and "fst (splitPath path) \<noteq> admin"
  shows "route (proxy_server E P) fl path = Inr (run_at P (px_middleware (px_jtrpcHandler E)), 0, None)"
  using assms by (simp add: route_def proxy_server_def)

lemma split_rest_length:
  assumes "splitPath p = (first, rest)"
  shows "length rest \<le> length p"
proof -
  have "first @ rest = slash_front p" "first \<noteq> []"
    using assms by (simp_all add: splitPath_iff split_ok_def)
  then have "length rest < length (slash_front p)"
    by (metis length_append length_greater_0_conv less_add_same_cancel2)
  then show ?thesis by (simp add: slash_front_def split: if_splits)
qed

lemma proxy_answers:
  assumes U: "utils_contract (e_utils E)"
    and path: "splitPath (Path req) = (first, rest)" "first \<noteq> admin"
    and srv: "map_load (p_servers P) first = Some (Some i)" "ps_clients (p_srvs P ! i) = Some cs"
      "e_pick E cs = Some j" "j < length (p_clients P)"
      "p_clients P ! j = (cb, response_frame (kb, rb) @ inp)" "\<not> c_isClosed cb" "room (c_out cb) = None"
    and rb: "reqId rb = reqCounter cb + 1" "rflags rb = 0" "response_fits (kb, rb)"
  obtains P' req' D cb' kvs' where
    "px_middleware (px_jtrpcHandler E) P req resp = Returns (P', req', D)"
    "run_at P (px_middleware (px_jtrpcHandler E)) (req, resp) = (req', D)"
    "P' = P\<lparr>p_clients := (p_clients P)[j := (cb', inp)]\<rparr>"
    "out (c_out cb') = out (c_out cb) @ request_frame (kvs', req\<lparr>Path := rest, rq_id := reqCounter cb + 1\<rparr>)"
    "reqId D = reqId resp" "rflags D = 0" "StatusCode D = StatusCode rb"
    "rHeaders D = Some (newHeaders (hdr_out kb (rHeaders rb)))"
    "response_fits (kf, D)" "response_body D = response_body rb"
proof -
  obtain P' req' rc p cb' kvs' where
    fwd: "px_middleware (px_jtrpcHandler E) P req resp = Returns (P', req', ShallowCopyFrom (delivered rc kb rb p) resp)"
      "P' = P\<lparr>p_clients := (p_clients P)[j := (cb', inp)]\<rparr>"
      "out (c_out cb') = out (c_out cb) @ request_frame (kvs', req\<lparr>Path := rest, rq_id := reqCounter cb + 1\<rparr>)"
    using forward_run [OF U path srv rb(3) _ rb(1), of resp] rb(2) by (auto simp: hasStreamMsgFlag_def)
  show ?thesis
    by (rule that [OF fwd(1) _ fwd(2,3)]) (simp_all add: run_at_def fwd(1) rb delivered_fits [OF rb(3)])
qed

text \<open>C1: A request through a proxy.  A client of the proxy sends a request; the loop of the proxy's
  server takes exactly that frame and starts the proxy's handler, which finds the server under the
  first segment of the path.  What the handler writes on the connection to that server is one frame:
  the server's loop takes exactly it and starts the handler of the rest of the path on a request
  with the flags, header bytes and body the client sent; when that has run, it has written what
  the proxy then reads, to the last byte.  The proxy's answer is taken by the client's loop
  exactly, and what \<open>Send\<close> returned holds the status, header bytes and body of the server's
  handler.\<close>

theorem through_proxy:
  fixes c :: "'x pval client" and sc :: "('x pval, 'x pstream_handler) serverConn"
    and sb :: "('x pval, 'g) server"
  assumes U: "utils_contract (e_utils E)"
    and c: "\<not> c_isClosed c" "room (c_out c) = None" and sc: "room (sc_out sc) = None"
    and l: "length (Path r) < 2 ^ 16" "length (hdr_out kvs (rq_Headers r)) < 2 ^ 16"
      "int (length (body_out (rq_Body r))) \<le> min DefaultMaxBodyLen (MaxBodyLen sb)"
    and fl: "\<not> hasStreamMsgFlag (Flags r)" "\<not> hasStreamFlag (Flags r)"
    and path: "splitPath (Path r) = (first, rest)" "first \<noteq> admin"
    and srv: "map_load (p_servers P) first = Some (Some i)" "ps_clients (p_srvs P ! i) = Some cs"
      "e_pick E cs = Some j" "j < length (p_clients P)"
      "p_clients P ! j = (cb, response_frame (kb, rb) @ inp)" "\<not> c_isClosed cb" "room (c_out cb) = None"
    and scb: "room (sc_out scb) = None" and rt: "route sb (Flags r) rest = Inr (h, 0, None)"
    and breq: "breq = served_request (reqCounter cb + 1) baddr (Flags r) rest
      (hdr_out kvs (rq_Headers r)) (body_out (rq_Body r))"
    and rb: "h (breq, newResponse (reqCounter cb + 1) 0 (Some breq)) = (breq', rb)"
      "reqId rb = reqCounter cb + 1" "rflags rb = 0" "response_fits (kb, rb)"
  shows "\<exists>q c1 sc1 t P' req' resp cb' scb1 tb c2 resp'.
    Client_Send (e_utils E) kvs r c = (Inr q, c1) \<and>
    server_frame (e_utils E) (proxy_server E P) addr sc (drop (length (out (c_out c))) (out (c_out c1)) @ y) =
      Returns (sc1, y, None) \<and> sc_tasks sc1 = sc_tasks sc @ [t] \<and>
    px_middleware (px_jtrpcHandler E) P (t_req t) (t_resp t) = Returns (P', req', resp) \<and>
    P' = P\<lparr>p_clients := (p_clients P)[j := (cb', inp)]\<rparr> \<and>
    server_frame (e_utils E) sb baddr scb (drop (length (out (c_out cb))) (out (c_out cb')) @ y') =
      Returns (scb1, y', None) \<and> sc_tasks scb1 = sc_tasks scb @ [tb] \<and> t_req tb = breq \<and>
    drop (length (out (sc_out scb))) (out (sc_out (task_run (e_utils E) kb tb scb1))) = response_frame (kb, rb) \<and>
    client_frame (e_utils E) c1 (drop (length (out (sc_out sc))) (out (sc_out (task_run (e_utils E) kf t sc1))) @ z') =
      Returns (c2, z', None) \<and>
    ch (resp_chans c2 ! q) = Some resp' \<and> StatusCode resp' = StatusCode rb \<and>
    rHeaders resp' = Some (newHeaders (hdr_out kb (rHeaders rb))) \<and> snd (BodyBytes resp') = response_body rb"
proof -
  define req :: "'x preq" where "req = served_request (reqCounter c + 1) addr (Flags r) (Path r)
      (hdr_out kvs (rq_Headers r)) (body_out (rq_Body r))"
  let ?resp = "newResponse (reqCounter c + 1) 0 (Some req) :: 'x presp"
  have bl: "length (body_out (rq_Body r)) < 2 ^ 62" using l(3) by (simp add: DefaultMaxBodyLen_def)
  have lim: "int (length (body_out (rq_Body r))) \<le> MaxBodyLen (proxy_server E P)"
    using l(3) by (simp add: proxy_server_def NewServer_def)
  obtain P' req' D cb' kvs' where
    fwd: "px_middleware (px_jtrpcHandler E) P req ?resp = Returns (P', req', D)"
      "run_at P (px_middleware (px_jtrpcHandler E)) (req, ?resp) = (req', D)"
      "P' = P\<lparr>p_clients := (p_clients P)[j := (cb', inp)]\<rparr>"
      "out (c_out cb') = out (c_out cb) @ request_frame (kvs', req\<lparr>Path := rest, rq_id := reqCounter cb + 1\<rparr>)"
    and D: "reqId D = reqId ?resp" "rflags D = 0" "StatusCode D = StatusCode rb"
      "rHeaders D = Some (newHeaders (hdr_out kb (rHeaders rb)))"
      "response_fits (kf, D)" "response_body D = response_body rb"
    by (rule proxy_answers [OF U _ path(2) srv rb(2-4), of req rest ?resp kf])
      (use path(1) in \<open>simp_all add: req_def\<close>)
  have rt0: "route (proxy_server E P) (Flags r) (Path r) = Inr (run_at P (px_middleware (px_jtrpcHandler E)), 0, None)"
    using fl(2) path by (simp add: proxy_server_route)
  have id: "reqId D = reqCounter c + 1" using D(1) by (simp add: newResponse_def)
  obtain q c1 sc1 t c2 rc2 p2 where front:
    "Client_Send (e_utils E) kvs r c = (Inr q, c1)"
    "server_frame (e_utils E) (proxy_server E P) addr sc (drop (length (out (c_out c))) (out (c_out c1)) @ y) =
      Returns (sc1, y, None)" "sc_tasks sc1 = sc_tasks sc @ [t]" "t_req t = req" "t_resp t = ?resp"
    "client_frame (e_utils E) c1 (drop (length (out (sc_out sc))) (out (sc_out (task_run (e_utils E) kf t sc1))) @ z') =
      Returns (c2, z', None)" "ch (resp_chans c2 ! q) = Some (delivered rc2 kf D p2)"
    by (rule request_run [OF U c sc l(1,2) bl lim fl(1) rt0 req_def fwd(2) id D(2,5)])
  let ?rb = "req\<lparr>Path := rest, rq_id := reqCounter cb + 1\<rparr>"
  have rest: "length rest < 2 ^ 16" using split_rest_length [OF path(1)] l(1) by simp
  obtain scb1 tb where bck: "server_frame (e_utils E) sb baddr scb (request_frame (kvs', ?rb) @ y') = Returns (scb1, y', None)"
    "sc_tasks scb1 = sc_tasks scb @ [tb]" "t_req tb = breq"
    "out (sc_out (task_run (e_utils E) kb tb scb1)) = out (sc_out scb) @ response_frame (kb, rb)"
    by (rule server_answers [OF U scb, of ?rb kvs' sb h breq baddr breq' rb kb y'])
      (use l bl rest fl rt rb breq in \<open>simp_all add: req_def body_out_def\<close>)
  show ?thesis
    by (rule exI [of _ q], rule exI [of _ c1], rule exI [of _ sc1], rule exI [of _ t], rule exI [of _ P'],
        rule exI [of _ req'], rule exI [of _ D], rule exI [of _ cb'], rule exI [of _ scb1],
        rule exI [of _ tb], rule exI [of _ c2], rule exI [of _ "delivered rc2 kf D p2"])
      (use front fwd bck D delivered_body [OF D(5)] in
        \<open>simp add: out_is_prefix [OF fwd(4)] out_is_prefix [OF bck(4)]\<close>)
qed

definition demo_backend :: "(nat pval, nat) server" where
  "demo_backend = NewServer\<lparr>Mux := MapMux_mux (NewMapMux\<lparr>handlers :=
     Some [lit ''/x'' \<mapsto> \<lambda>(rq, rs). (rq, SetStatusBodyBytes StatusOK [1, 2, 3] rs)]\<rparr>)\<rparr>"

lemma demo_backend_route: "route demo_backend 0 (lit ''/x'') =
    Inr (\<lambda>(rq, rs). (rq, SetStatusBodyBytes StatusOK [1, 2, 3] rs), 0, None)"
  by (simp add: route_def demo_backend_def MapMux_mux_def NewMapMux_def get_eta hasStreamFlag_def chain_handler_def)

lemma demo_backend_limit: "MaxBodyLen demo_backend = DefaultMaxBodyLen"
  by (simp add: demo_backend_def NewServer_def)

lemma demo_answer_from:
  "response_fits ([], SetStatusBodyBytes StatusOK [1, 2, 3] (newResponse i 0 q))"
  "reqId (SetStatusBodyBytes StatusOK [1, 2, 3] (newResponse i 0 q)) = i"
  "rflags (SetStatusBodyBytes StatusOK [1, 2, 3] (newResponse i 0 q)) = 0"
  by (simp_all add: response_fits_def hdr_out_def header_bytes_def Headers_Encode_def
      newHeaders_def SetStatusBodyBytes_def Response_SetBodyBytes_def SetBodyReader_def
      SetBodyReadCloser_def newResponse_def FromReader_def avail_def)

lemma through_proxy_witness:
  "let E = demo_env; c = fresh_client; sc = newServerConn \<lparr>out = [], room = None\<rparr>; kvs = []; kb = []; kf = [];
       r = demo_req (lit ''/a/x''); addr = []; baddr = []; y = [4]; y' = [5]; z' = [6]; inp = [9]; j = 0;
       cb = fresh_client; sb = demo_backend; scb = newServerConn \<lparr>out = [], room = None\<rparr>;
       breq = served_request (reqCounter cb + 1) baddr (Flags r) (lit ''/x'')
         (hdr_out kvs (rq_Headers r)) (body_out (rq_Body r));
       rb = SetStatusBodyBytes StatusOK [1, 2, 3] (newResponse (reqCounter cb + 1) 0 (Some breq)) :: nat presp;
       P = demo_proxy [(cb, response_frame (kb, rb) @ inp)]
   in \<exists>q c1 sc1 t P' req' resp cb' scb1 tb c2 resp'.
    Client_Send (e_utils E) kvs r c = (Inr q, c1) \<and>
    server_frame (e_utils E) (proxy_server E P) addr sc (drop (length (out (c_out c))) (out (c_out c1)) @ y) =
      Returns (sc1, y, None) \<and> sc_tasks sc1 = sc_tasks sc @ [t] \<and>
    px_middleware (px_jtrpcHandler E) P (t_req t) (t_resp t) = Returns (P', req', resp) \<and>
    P' = P\<lparr>p_clients := (p_clients P)[j := (cb', inp)]\<rparr> \<and>
    server_frame (e_utils E) sb baddr scb (drop (length (out (c_out cb))) (out (c_out cb')) @ y') =
      Returns (scb1, y', None) \<and> sc_tasks scb1 = sc_tasks scb @ [tb] \<and> t_req tb = breq \<and>
    drop (length (out (sc_out scb))) (out (sc_out (task_run (e_utils E) kb tb scb1))) = response_frame (kb, rb) \<and>
    client_frame (e_utils E) c1 (drop (length (out (sc_out sc))) (out (sc_out (task_run (e_utils E) kf t sc1))) @ z') =
      Returns (c2, z', None) \<and>
    ch (resp_chans c2 ! q) = Some resp' \<and> StatusCode resp' = StatusCode rb \<and>
    rHeaders resp' = Some (newHeaders (hdr_out kb (rHeaders rb))) \<and> snd (BodyBytes resp') = response_body rb"
  unfolding Let_def
  by (rule through_proxy [where first = "lit ''/a''" and i = 0 and cs = "{0}"
        and h = "\<lambda>(rq, rs). (rq, SetStatusBodyBytes StatusOK [1, 2, 3] rs)"])
    (simp_all add: demo_answer_from demo_backend_route [unfolded lit_simps, simplified] demo_backend_limit body_out_def demo_proxy_def demo_env_def plain.utils_contract_axioms
      fresh_client_def demo_req_def newRequest_def splitPath_def slash_def admin_def lit_simps Let_def
      newServerConn_def DefaultMaxBodyLen_def hasStreamMsgFlag_def hasStreamFlag_def)

end
