(* ===== verification/ProxyPipe.thy ===== *)
theory ProxyPipe
  imports ProxyForward
begin

text \<open>
  Streams through the proxy (\<open>streamMiddleware\<close>, \<open>jtrpcStreamHandler\<close> and
  \<open>pipeStreams\<close> of src/proxy/mux.go): opening one, copying its messages, and the end of the pipe;
  and the count of connections awaited through a tunnel.
\<close>

section \<open>A stream through the proxy\<close>

lemma hdr_out_clone:
  assumes "utils_contract U"
  shows "hdr_out kvs (map_option (Headers_Clone U) ho) = hdr_out kvs ho"
  using utils_CloneSlice [OF assms]
  by (cases ho) (auto simp: hdr_out_def header_bytes_def Headers_Encode_def Headers_Clone_def newHeaders_def
      split: prod.splits sum.splits if_splits)

lemma stream_clone_frame:
  assumes "utils_contract U"
  shows "request_frame (kvs, (SetStream True ((Request_Clone U c req)\<lparr>Path := rest\<rparr>))\<lparr>rq_id := i\<rparr>) =
    request_frame (kvs, req\<lparr>Path := rest, rq_id := i, Flags := Flags req OR ReqFlagStream, rq_Body := None\<rparr>)"
  by (simp add: request_frame_def request_bytes_def SetStream_def Request_Clone_def Let_def hdr_out_clone [OF assms])

text \<open>What a stream handler is called with: nothing more runs between the middleware and it.\<close>

definition noop_next :: "'x phandler" where
  "noop_next = (\<lambda>P req resp. Returns (P, req, resp))"

text \<open>C15: A stream is opened through the proxy.  When the server answers a request for a stream with
  one, its client's connection has got the request with the rest of the path, the stream flag and
  an empty body, whatever body the caller sent; the caller gets the server's answer; and the
  stream handler, called before the timer fires, stops the timer and pipes between the caller's
  stream and the new one.  Called later, it blocks for ever.\<close>

theorem proxy_opens_stream:
  assumes "utils_contract (e_utils E)"
    and "splitPath (Path req) = (first, rest)" and "first \<noteq> admin"
    and "map_load (p_servers P) first = Some (Some i)"
    and "ps_clients (p_srvs P ! i) = Some cs" and "e_pick E cs = Some j" and "j < length (p_clients P)"
    and "p_clients P ! j = (c, response_frame (kvs, r) @ inp)" and "\<not> c_isClosed c" and "room (c_out c) = None"
    and "response_fits (kvs, r)" and "\<not> hasStreamMsgFlag (rflags r)" and "reqId r = reqCounter c + 1"
    and "opens_stream r"
  shows "\<exists>P' req' resp' c' kvs'. px_middleware (px_streamMiddleware E noop_next) P req resp = Returns (P', req', resp') \<and>
    p_clients P' = (p_clients P)[j := (c', inp)] \<and> strs c' = strs c @ [newStream (reqCounter c + 1)] \<and>
    out (c_out c') = out (c_out c) @ request_frame (kvs',
      req\<lparr>Path := rest, rq_id := reqCounter c + 1, Flags := Flags req OR ReqFlagStream, rq_Body := None\<rparr>) \<and>
    Path req' = Path req \<and> rq_id req' = rq_id req \<and> StatusCode resp' = StatusOK \<and> reqId resp' = reqId resp \<and>
    px_jtrpcStreamHandler U req' P' cend =
      Returns (P'\<lparr>p_timers := p_timers P @ [Stopped]\<rparr>, cend, Some (j, length (strs c))) \<and>
    px_jtrpcStreamHandler U req' (P'\<lparr>p_timers := p_timers P @ [Fired]\<rparr>) cend = Blocks"
proof -
  let ?mi = "path_info (Some i) first rest"
  define req0 where "req0 = SetContext (WithValue (rq_ctx req) ctxKey (Info ?mi)) req"
  define preq where "preq = SetStream True ((Request_Clone (e_utils E) (rq_ctx req0) req0)\<lparr>Path := rest\<rparr>)"
  let ?q = "length (resp_chans c)" and ?inp = "response_frame (kvs, r) @ inp"
  obtain c1 where c1: "Client_Send (e_utils E) (e_kvs E preq) preq c = (Inr ?q, c1)"
    "out (c_out c1) = out (c_out c) @ request_frame (e_kvs E preq, preq\<lparr>rq_id := reqCounter c + 1\<rparr>)"
    "\<not> c_isClosed c1" "reqs c1 (reqCounter c + 1) = Some ?q" "waiting ?q c1" "strs c1 = strs c"
    "rq_id (rc_req (resp_chans c1 ! ?q)) = reqCounter c + 1"
    by (rule Client_Send_waits [OF assms(1,9,10)])
  note s = sendReq_open [OF assms(5,6,8,9) c1(1)]
  have id: "reqs c1 (reqId r) = Some ?q" using c1(4) assms(13) by simp
  let ?d = "delivered (resp_chans c1 ! ?q) kvs r (length (strs c))"
  obtain c2 where c2: "await_resp (e_utils E) (e_orders E) ?q c1 ?inp = Returns (c2, inp, Some ?d)"
    "c_out c2 = c_out c1" "strs c2 = strs c @ [newStream (reqCounter c + 1)]"
    using await_resp_response [OF assms(11,12) id c1(5,3), of "e_utils E" "e_orders E" inp] assms(14) c1(6,7)
    by auto
  let ?P2 = "P\<lparr>p_clients := (p_clients P)[j := (c2, inp)]\<rparr>"
  have a: "await_at E (j, ?q) (P\<lparr>p_clients := (p_clients P)[j := (c1, ?inp)]\<rparr>) = Returns (?P2, Some ?d)"
    using c2(1) assms(7) by (simp add: await_at_def)
  let ?mi' = "?mi\<lparr>mi_stream := Some (j, length (strs c)), mi_timer := Some (length (p_timers P))\<rparr>"
  let ?P3 = "?P2\<lparr>p_timers := p_timers P @ [Pending]\<rparr>"
  let ?req' = "SetContext (WithValue (rq_ctx req0) ctxKey (Info ?mi')) req0"
  have "ctx_info req0 = Some ?mi" by (simp add: ctx_info_def SetContext_def req0_def)
  then have "px_streamMiddleware E noop_next P req0 resp = Returns (?P3, ?req', ShallowCopyFrom ?d resp)"
    using s a assms(5,14) by (simp add: px_streamMiddleware_def noop_next_def Let_def flip: preq_def)
  moreover have "(case p_servers P of None \<Rightarrow> None | Some mp \<Rightarrow> mp first) = Some (Some i)"
    using assms(4) by (cases "p_servers P") auto
  ultimately have run: "px_middleware (px_streamMiddleware E noop_next) P req resp =
      Returns (?P3, ?req'\<lparr>Path := Path req\<rparr>, ShallowCopyFrom ?d resp)"
    using assms(2,3) by (simp add: px_middleware_def Let_def flip: req0_def)
  have frame: "request_frame (e_kvs E preq, preq\<lparr>rq_id := reqCounter c + 1\<rparr>) = request_frame (e_kvs E preq,
      req\<lparr>Path := rest, rq_id := reqCounter c + 1, Flags := Flags req OR ReqFlagStream, rq_Body := None\<rparr>)"
    unfolding preq_def stream_clone_frame [OF assms(1)]
    by (simp add: request_frame_def request_bytes_def req0_def SetContext_def)
  have info: "ctx_info (?req'\<lparr>Path := Path req\<rparr>) = Some ?mi'"
    by (simp add: ctx_info_def SetContext_def)
  have same: "Path req0 = Path req" "rq_id req0 = rq_id req" by (simp_all add: req0_def SetContext_def)
  show ?thesis
    by (rule exI [of _ ?P3], rule exI [of _ "?req'\<lparr>Path := Path req\<rparr>"], rule exI [of _ "ShallowCopyFrom ?d resp"],
        rule exI [of _ c2], rule exI [of _ "e_kvs E preq"])
      (use run frame info assms(14) c1(2) c2(2,3) same in \<open>simp add: px_jtrpcStreamHandler_def opens_stream_def SetContext_def\<close>)
qed

definition demo_stream_answer :: "nat presp" where
  "demo_stream_answer = newResponse 1 ReqFlagStream None"

lemma demo_stream_answer_fits: "response_fits ([], demo_stream_answer)" "\<not> hasStreamMsgFlag (rflags demo_stream_answer)"
  "reqId demo_stream_answer = 1" "opens_stream demo_stream_answer"
  by (simp_all add: demo_stream_answer_def response_fits_def hdr_out_def header_bytes_def Headers_Encode_def
      newHeaders_def newResponse_def hasStreamMsgFlag_def opens_stream_def hasStreamFlag_def flag_defs status_defs)

lemma proxy_opens_stream_witness:
  "let c = fresh_client; kvs = []; r = demo_stream_answer; inp = [9]; P = demo_proxy [(c, response_frame (kvs, r) @ inp)];
       req = (demo_req (lit ''/a/x''))\<lparr>rq_Body := Some [5]\<rparr>; resp = newResponse 7 0 None; j = 0;
       cend = (newStream 7, {}, \<lparr>out = [], room = None\<rparr>)
   in \<exists>P' req' resp' c' kvs'. px_middleware (px_streamMiddleware demo_env noop_next) P req resp = Returns (P', req', resp') \<and>
    p_clients P' = (p_clients P)[j := (c', inp)] \<and> strs c' = strs c @ [newStream (reqCounter c + 1)] \<and>
    out (c_out c') = out (c_out c) @ request_frame (kvs',
      req\<lparr>Path := lit ''/x'', rq_id := reqCounter c + 1, Flags := Flags req OR ReqFlagStream, rq_Body := None\<rparr>) \<and>
    Path req' = Path req \<and> rq_id req' = rq_id req \<and> StatusCode resp' = StatusOK \<and> reqId resp' = reqId resp \<and>
    px_jtrpcStreamHandler plain_utils req' P' cend =
      Returns (P'\<lparr>p_timers := p_timers P @ [Stopped]\<rparr>, cend, Some (j, length (strs c))) \<and>
    px_jtrpcStreamHandler plain_utils req' (P'\<lparr>p_timers := p_timers P @ [Fired]\<rparr>) cend = Blocks"
  unfolding Let_def
  by (rule proxy_opens_stream [where first = "lit ''/a''" and i = 0 and cs = "{0}"])
    (rule demo_stream_answer_fits | simp add: demo_proxy_def demo_env_def plain.utils_contract_axioms fresh_client_def
      demo_req_def newRequest_def splitPath_def slash_def admin_def lit_simps Let_def)+

section \<open>Piping messages\<close>

text \<open>
  The pipe and the reader loop that feeds its source, one at a time: a \<open>Put\<close> is a message the
  reader adds, a \<open>Get\<close> a round of the pipe, which waits while there is nothing to receive.
\<close>

fun pipe_run :: "utils \<Rightarrow> int \<Rightarrow> message queue_op list \<Rightarrow> endpoint \<Rightarrow> endpoint \<Rightarrow>
    (endpoint \<times> endpoint) outcome" where
  "pipe_run U now [] frm dst = Returns (frm, dst)"
| "pipe_run U now (Put m # ops) frm dst =
     (case frm of (s, ids, w) \<Rightarrow>
        obind (addMsg m s) (\<lambda>(s', e). pipe_run U now ops (s', ids, w) dst))"
| "pipe_run U now (Get # ops) frm dst =
     (case pipe_round U now None frm dst of
        Returns (frm', dst', True) \<Rightarrow> pipe_run U now ops frm' dst'
      | Returns (frm', dst', False) \<Rightarrow> Returns (frm', dst')
      | Blocks \<Rightarrow> pipe_run U now ops frm dst
      | Panics p \<Rightarrow> Panics p)"

lemma Stream_Send_open:
  assumes "utils_contract U" and "\<not> isClosed s" and "room w = None"
  obtains w' where "Stream_Send U False msg s w = Returns (w', None)"
    "out w' = out w @ message_frame (msg\<lparr>m_id := s_reqId s\<rparr>)" "room w' = None"
proof -
  obtain w' n e where m: "Message_WriteTo U (msg\<lparr>m_id := s_reqId s\<rparr>) w = (w', n, e)"
    by (cases "Message_WriteTo U (msg\<lparr>m_id := s_reqId s\<rparr>) w")
  from Message_WriteTo_prefix [OF assms(1) m] assms(3) m assms(2) show ?thesis
    by (intro that [of w']) (auto simp: Stream_Send_def send_msg_def)
qed

definition sent_on :: "stream \<Rightarrow> message list \<Rightarrow> bytes" where
  "sent_on t ms = concat (map (\<lambda>m. message_frame (m\<lparr>m_id := s_reqId t\<rparr>)) ms)"

lemma pipe_run_ok:
  assumes "utils_contract U" and "\<not> isClosed t"
  shows "stream_ok s \<Longrightarrow> room w = None \<Longrightarrow>
    \<exists>s' w' received. pipe_run U now ops (s, ids, w0) (t, tids, w) = Returns ((s', ids, w0), (t, tids, w')) \<and>
      stream_contents s @ puts ops = received @ stream_contents s' \<and> out w' = out w @ sent_on t received"
proof (induction ops arbitrary: s w)
  case Nil
  then show ?case by (auto simp: sent_on_def)
next
  case (Cons op ops)
  show ?case
  proof (cases op)
    case (Put m)
    obtain s1 where s1: "addMsg m s = Returns (s1, None)" "stream_ok s1" "stream_contents s1 = stream_contents s @ [m]"
      using stream_fifo.add_ok [OF Cons.prems(1)] by blast
    from Cons.IH [OF s1(2) Cons.prems(2)] s1 Put show ?thesis by auto
  next
    case Get
    show ?thesis
    proof (cases "stream_contents s")
      case Nil
      then have "pipe_round U now None (s, ids, w0) (t, tids, w) = Blocks"
        using Cons.prems(1) by (simp add: pipe_round_def Recv_empty)
      with Cons.IH [OF Cons.prems] Get show ?thesis by simp
    next
      case (Cons m ms)
      obtain s1 where s1: "Recv now None s = Returns (s1, Inr m)" "stream_ok s1" "stream_contents s1 = ms"
        using Recv_ok [OF Cons.prems(1) Cons] by blast
      obtain w1 where w1: "Stream_Send U False m t w = Returns (w1, None)"
        "out w1 = out w @ message_frame (m\<lparr>m_id := s_reqId t\<rparr>)" "room w1 = None"
        by (rule Stream_Send_open [OF assms Cons.prems(2)])
      have "pipe_round U now None (s, ids, w0) (t, tids, w) = Returns ((s1, ids, w0), (t, tids, w1), True)"
        using s1(1) w1(1) by (simp add: pipe_round_def forward_def)
      moreover obtain s' w' received where
        "pipe_run U now ops (s1, ids, w0) (t, tids, w1) = Returns ((s', ids, w0), (t, tids, w'))"
        "ms @ puts ops = received @ stream_contents s'" "out w' = out w1 @ sent_on t received"
        using Cons.IH [OF s1(2) w1(3)] s1(3) by auto
      ultimately show ?thesis using Get Cons w1(2)
        by (intro exI [of _ s'] exI [of _ w'] exI [of _ "m # received"]) (simp add: sent_on_def)
    qed
  qed
qed



text \<open>The pipe ends with its source, without the close message.  When the other side has closed
  the source, whatever message it gave, and all that came before is forwarded, one round ends the
  pipe: the other stream is closed and forgotten, and the only thing sent on it is a close frame
  without a body.\<close>

theorem pipe_drops_close_message:
  assumes "utils_contract U" and "\<not> isClosed t" and "\<not> chan_closed t" and "room w = None"
    and "closeWithMsgRecvd U False lh msg (newStream i) ids w0 = Returns (s, ids', w0', e)"
  shows "\<exists>t' w'. pipe_round U now late (s, ids', w0') (t, tids, w) =
      Returns ((s, ids', w0'), (t', tids - {s_reqId t}, w'), False) \<and> isClosed t' \<and>
    out w' = out w @ message_frame \<lparr>m_id = s_reqId t, m_flags = MsgFlagClose, m_Body = None\<rparr>"
proof -
  let ?m = "zeroMessage\<lparr>m_flags := MsgFlagClose, m_id := s_reqId t\<rparr>"
  obtain w' n x where m: "Message_WriteTo U ?m w = (w', n, x)" by (cases "Message_WriteTo U ?m w")
  have o: "x = None" "out w' = out w @ message_frame ?m"
    using Message_WriteTo_prefix [OF assms(1) m] assms(4) by auto
  have "s = (newStream i)\<lparr>isClosed := True, chan_closed := True\<rparr>"
    using assms(5) by (simp add: closeWithMsgRecvd_def closeWithMessage_def newStream_def Let_def)
  then have "Recv now late s = Returns (s, Inl (Some (StreamClosed no_close_info)))"
    by (simp add: Recv_def chan_recv_def newStream_def after_recv_def closed_result_def GetClosedErr_def)
  moreover have "\<exists>t'. close_end U zeroMessage (t, tids, w) = Returns (t', tids - {s_reqId t}, w') \<and> isClosed t'"
    using assms(2,3) m o by (simp add: close_end_def CloseWithMessage_def closeWithMessage_def send_msg_def Let_def)
  moreover have "?m = \<lparr>m_id = s_reqId t, m_flags = MsgFlagClose, m_Body = None\<rparr>"
    by (simp add: zeroMessage_def)
  ultimately show ?thesis
    using o(2) by (auto simp: pipe_round_def GetStreamClosedError_def no_close_info_def)
qed

lemma pipe_drops_close_message_witness:
  "let t = newStream 3; w = \<lparr>out = [], room = None\<rparr>; s = (newStream 1)\<lparr>isClosed := True, chan_closed := True\<rparr>
   in \<exists>t' w'. pipe_round plain_utils 0 None (s, {}, w) (t, {3}, w) =
      Returns ((s, {}, w), (t', {3} - {s_reqId t}, w'), False) \<and> isClosed t' \<and>
    out w' = out w @ message_frame \<lparr>m_id = s_reqId t, m_flags = MsgFlagClose, m_Body = None\<rparr>"
  unfolding Let_def
  by (rule pipe_drops_close_message [where lh = False and msg = "NewMessage [1]" and i = 1 and ids = "{1}"
        and e = None and ?w0.0 = "\<lparr>out = [], room = None\<rparr>"])
    (simp_all add: plain.utils_contract_axioms newStream_def closeWithMsgRecvd_def closeWithMessage_def)

section \<open>Waiting for a tunnelled connection\<close>

lemma waiting_done_Suc: "waiting_done (n + 1) = (if sint n < 0 then n + 1 else n)"
  by (simp add: waiting_done_def Let_def)

text \<open>The count of awaited connections.  A failed attempt to get a tunnelled connection, because the
  message cannot be written on the tunnel or because nothing comes in time, leaves the count
  of waiting goroutines as it was, and also when the addition overflows; only a count that is
  negative already is moved up by one.\<close>

theorem tunnel_count_restored:
  assumes "ps_Addr (p_srvs P ! i) = tunnel" and "ps_tunnelConn (p_srvs P ! i) = Some (Some t)"
    and "ps_tch (p_srvs P ! i) = Some []" and "i < length (p_srvs P)" and "e_others E = (\<lambda>P. P)"
  shows "\<exists>P' e. newClient E i P = Returns (P', Inl e) \<and>
    ps_nWaiting (p_srvs P' ! i) = (let n = ps_nWaiting (p_srvs P ! i) in if sint n < 0 then n + 1 else n)"
  using assms
  by (auto simp: newClient_def ask_tunnel_def await_tunnel_def upd_srv_def Let_def waiting_done_Suc
      split: prod.split option.split)

lemma tunnel_count_restored_witness:
  "let P = (demo_proxy [])\<lparr>p_srvs := [Server_init (json_server (demo_fields\<lparr>f_Addr := tunnel\<rparr>))\<lparr>ps_tunnelConn := Some (Some 0)\<rparr>],
         p_conns := [([], \<lparr>out = [], room = Some 2\<rparr>)]\<rparr>
   in \<exists>P' e. newClient demo_env 0 P = Returns (P', Inl e) \<and>
    ps_nWaiting (p_srvs P' ! 0) = (let n = ps_nWaiting (p_srvs P ! 0) in if sint n < 0 then n + 1 else n)"
  unfolding Let_def
  by (rule tunnel_count_restored [where t = 0, unfolded Let_def])
    (simp_all add: Server_init_def json_server_def demo_env_def Let_def)

end
