(* ===== verification/ProxyListener.thy ===== *)
theory ProxyListener
  imports ProxyPipe
begin

text \<open>
  \<open>proxy/listeners.go\<close>: one TCP listener for HTTP, jtrpc and tunnels.

  \<^item> The first byte of a connection says what it is for.  \<open>conn_wrap\<close> is \<open>Conn\<close>, which gives that
    byte back to whoever reads the connection next; the equivalence below shows that reading
    through it is reading the connection from its start, so that the handlers read the bytes of
    \<open>p_conns\<close>.
  \<^item> \<open>listener\<close> is \<open>ProxyListener\<close>.  Its two queues are \<open>utils.UChan\<close>s of another repository: the
    model takes their operations as an argument and their laws as \<open>uchan_ok\<close>.
  \<^item> A handler returns the state and whether it leaves the connection open; \<open>deferClose\<close> closes
    it otherwise.  \<open>handleTunnelConn\<close> is its two halves, between which the goroutine that
    waits for the connection can take it.
\<close>

section \<open>Giving back the first byte\<close>

record conn_wrap =
  initial :: bytes
  readInitial :: bool
  under :: bytes

definition newConn :: "bytes \<Rightarrow> bytes \<Rightarrow> conn_wrap" where
  "newConn r ini = \<lparr>initial = ini, readInitial = False, under = r\<rparr>"

definition clearInitial :: "conn_wrap \<Rightarrow> conn_wrap" where
  "clearInitial c = (if readInitial c then c else c\<lparr>readInitial := True, initial := []\<rparr>)"

text \<open>\<open>Read\<close> of the wrapped connection: at most \<open>chunk\<close> bytes, whose number it chooses; end of file
  when there are none.\<close>

definition under_Read :: "nat \<Rightarrow> nat \<Rightarrow> bytes \<Rightarrow> bytes \<times> bytes \<times> ioerr option" where
  "under_Read chunk plen r =
     (if r = [] \<and> plen > 0 then (r, [], Some EOF)
      else let n = min (min plen (Suc chunk)) (length r) in (drop n r, take n r, None))"

definition Conn_Read :: "nat \<Rightarrow> nat \<Rightarrow> conn_wrap \<Rightarrow> conn_wrap \<times> bytes \<times> ioerr option" where
  "Conn_Read chunk plen c =
     (if plen = 0 then (c, [], None)
      else
        let (c, acc, plen) =
          (if \<not> readInitial c
           then let n = min plen (length (initial c)); acc = take n (initial c)
                in if n \<noteq> 0
                   then let rest = drop n (initial c)
                        in (if rest = [] then c\<lparr>initial := [], readInitial := True\<rparr> else c\<lparr>initial := rest\<rparr>,
                            acc, plen - n)
                   else (c, acc, plen)
           else (c, [], plen))
        in if plen = 0 then (c, acc, None)
           else case under_Read chunk plen (under c) of
                  (r, b, e) \<Rightarrow> (c\<lparr>under := r\<rparr>, acc @ b, e))"

text \<open>\<open>io.ReadFull\<close> over it: read until the buffer is full or an error comes.\<close>

fun Conn_fill :: "(nat \<Rightarrow> nat) \<Rightarrow> nat \<Rightarrow> nat \<Rightarrow> bytes \<Rightarrow> conn_wrap \<Rightarrow> conn_wrap \<times> bytes \<times> ioerr option" where
  "Conn_fill chunk 0 n acc c = (c, acc, None)"
| "Conn_fill chunk (Suc k) n acc c =
     (if n \<le> length acc then (c, acc, None)
      else case Conn_Read (chunk k) (n - length acc) c of
             (c', b, None) \<Rightarrow> Conn_fill chunk k n (acc @ b) c'
           | (c', b, Some e) \<Rightarrow> (c', acc @ b, Some e))"

definition Conn_ReadFull :: "(nat \<Rightarrow> nat) \<Rightarrow> nat \<Rightarrow> conn_wrap \<Rightarrow> ioerr + bytes \<times> conn_wrap" where
  "Conn_ReadFull chunk n c =
     (case Conn_fill chunk n n [] c of (c', acc, e) \<Rightarrow>
        if n \<le> length acc then Inr (acc, c')
        else Inl (if acc = [] then EOF else UnexpectedEOF))"

text \<open>What is still to be read, the given-back bytes first.\<close>

definition pending :: "conn_wrap \<Rightarrow> bytes" where
  "pending c = (if readInitial c then [] else initial c) @ under c"

definition conn_wf :: "conn_wrap \<Rightarrow> bool" where
  "conn_wf c \<longleftrightarrow> readInitial c \<or> initial c \<noteq> []"

lemma newConn_pending: "pending (newConn r ini) = ini @ r" "ini \<noteq> [] \<Longrightarrow> conn_wf (newConn r ini)"
  by (simp_all add: pending_def newConn_def conn_wf_def)

lemma under_Read_conserves:
  "under_Read chunk plen r = (r', b, e) \<Longrightarrow> r = b @ r' \<and> length b \<le> plen \<and>
    (e = None \<and> plen > 0 \<longrightarrow> b \<noteq> []) \<and> (e \<noteq> None \<longrightarrow> e = Some EOF \<and> r = [] \<and> b = [])"
  by (cases r) (auto simp: under_Read_def Let_def min_def split: if_splits)

lemma Conn_Read_spec:
  assumes "Conn_Read chunk plen c = (c', b, e)" and "conn_wf c" and "plen > 0"
  shows "pending c = b @ pending c' \<and> conn_wf c' \<and> length b \<le> plen \<and>
    (e = None \<longrightarrow> b \<noteq> []) \<and> (e \<noteq> None \<longrightarrow> e = Some EOF \<and> pending c' = [])"
proof (cases "readInitial c")
  case True
  obtain r b' e' where u: "under_Read chunk plen (under c) = (r, b', e')"
    by (cases "under_Read chunk plen (under c)")
  have "c' = c\<lparr>under := r\<rparr>" "b = b'" "e = e'"
    using assms(1,3) True u by (simp_all add: Conn_Read_def Let_def)
  then show ?thesis
    using under_Read_conserves [OF u] assms(3) True by (auto simp: pending_def conn_wf_def)
next
  case False
  let ?n = "min plen (length (initial c))"
  have n: "?n \<noteq> 0" using assms(2,3) False by (simp add: conn_wf_def)
  show ?thesis
  proof (cases "plen \<le> length (initial c)")
    case True
    then have "b = take plen (initial c)" "e = None"
      "c' = (if drop plen (initial c) = [] then c\<lparr>initial := [], readInitial := True\<rparr>
              else c\<lparr>initial := drop plen (initial c)\<rparr>)"
      using assms(1,3) False n by (auto simp: Conn_Read_def Let_def min_def split: if_splits)
    then show ?thesis using False True n assms(3) by (auto simp: pending_def conn_wf_def)
  next
    case long: False
    obtain r b' e' where u: "under_Read chunk (plen - length (initial c)) (under c) = (r, b', e')"
      by (cases "under_Read chunk (plen - length (initial c)) (under c)")
    have "c' = c\<lparr>initial := [], readInitial := True, under := r\<rparr>" "b = initial c @ b'" "e = e'"
      using assms(1,3) False long n u by (auto simp: Conn_Read_def Let_def min_def split: if_splits)
    then show ?thesis
      using under_Read_conserves [OF u] False long n by (auto simp: pending_def conn_wf_def)
  qed
qed

lemma Conn_fill_spec:
  assumes "Conn_fill chunk k n acc c = (c', acc', e)" and "conn_wf c" and "length acc \<le> n" and "n \<le> k + length acc"
  shows "conn_wf c' \<and> acc @ pending c = acc' @ pending c' \<and> length acc' \<le> n \<and>
    (length acc' < n \<longrightarrow> pending c' = [])"
  using assms
proof (induction k arbitrary: acc c)
  case (Suc k)
  show ?case
  proof (cases "n \<le> length acc")
    case True
    then show ?thesis using Suc.prems by auto
  next
    case False
    obtain c1 b e1 where r: "Conn_Read (chunk k) (n - length acc) c = (c1, b, e1)"
      by (cases "Conn_Read (chunk k) (n - length acc) c")
    from Conn_Read_spec [OF r Suc.prems(2)] False
    have c1: "pending c = b @ pending c1" "conn_wf c1" "length b \<le> n - length acc"
      "e1 = None \<longrightarrow> b \<noteq> []" "e1 \<noteq> None \<longrightarrow> pending c1 = []" by auto
    show ?thesis
    proof (cases e1)
      case None
      then have "Conn_fill chunk k n (acc @ b) c1 = (c', acc', e)"
        using Suc.prems(1) False r by simp
      moreover have "length (acc @ b) \<le> n" "n \<le> k + length (acc @ b)"
        using c1(3,4) None False Suc.prems(3,4) by (cases b; simp)+
      ultimately show ?thesis using Suc.IH [of "acc @ b" c1] c1(1,2) by simp
    next
      case (Some x)
      then show ?thesis using Suc.prems(1) False r c1 by auto
    qed
  qed
qed auto

text \<open>C14: Giving back the first byte is invisible.  However the bytes of a connection are cut into
  packets, \<open>io.ReadFull\<close> through \<open>Conn\<close> gets what it would get from the connection before its first
  byte was read, the same bytes or the same error, and leaves the same bytes to be read.\<close>

theorem Conn_reads_original:
  assumes "conn_wf c"
  shows "case Conn_ReadFull chunk n c of
      Inr (b, c') \<Rightarrow> ReadFull n (pending c) = Inr (b, pending c') \<and> conn_wf c'
    | Inl e \<Rightarrow> ReadFull n (pending c) = Inl e"
proof -
  obtain c' acc e where f: "Conn_fill chunk n n [] c = (c', acc, e)" by (cases "Conn_fill chunk n n [] c")
  from Conn_fill_spec [OF f assms] have
    s: "conn_wf c'" "pending c = acc @ pending c'" "length acc \<le> n" "length acc < n \<longrightarrow> pending c' = []" by auto
  show ?thesis
  proof (cases "length acc < n")
    case True
    then show ?thesis using f s by (auto simp: Conn_ReadFull_def ReadFull_def)
  next
    case False
    then have "length acc = n" using s(3) by simp
    then show ?thesis using f s by (simp add: Conn_ReadFull_def)
  qed
qed

lemma Conn_reads_original_witness:
  "let c = newConn [7, 8, 9] [0]; chunk = (\<lambda>_. 0); n = 3
   in case Conn_ReadFull chunk n c of
      Inr (b, c') \<Rightarrow> ReadFull n (pending c) = Inr (b, pending c') \<and> conn_wf c'
    | Inl e \<Rightarrow> ReadFull n (pending c) = Inl e"
  unfolding Let_def by (rule Conn_reads_original [OF newConn_pending(2)]) simp

section \<open>The listener\<close>

text \<open>The operations of \<open>utils.UChan\<close> on a state \<open>'u\<close>, with connections as elements.\<close>

record 'u uchan =
  uc_Send :: "nat \<Rightarrow> 'u \<Rightarrow> 'u \<times> bool"
  uc_Recv :: "'u \<Rightarrow> ('u \<times> nat option) outcome"
  uc_Close :: "'u \<Rightarrow> 'u"
  uc_IsClosed :: "'u \<Rightarrow> bool"

text \<open>What the code relies on: a closed queue takes nothing, closing closes, and an open one takes
  what it is given.\<close>

definition uchan_ok :: "'u uchan \<Rightarrow> bool" where
  "uchan_ok C \<longleftrightarrow> (\<forall>u. uc_IsClosed C (uc_Close C u)) \<and>
     (\<forall>u k. uc_IsClosed C u \<longrightarrow> uc_Send C k u = (u, False)) \<and>
     (\<forall>u k. \<not> uc_IsClosed C u \<longrightarrow> snd (uc_Send C k u) \<and> \<not> uc_IsClosed C (fst (uc_Send C k u)))"

datatype ln_error = LnClosed | AcceptFailed

record 'u listener =
  httpCh :: 'u
  jtrpcCh :: 'u
  readTimeout :: bool
  l_tunnelConn :: "nat option"
  l_TunnelPwd :: gostring
  l_closed :: bool
  errVal :: "ln_error option"
  ln_open :: bool

definition NewProxyListener :: "'u \<Rightarrow> bool \<Rightarrow> 'u listener" where
  "NewProxyListener ch0 rt = \<lparr>httpCh = ch0, jtrpcCh = ch0, readTimeout = rt, l_tunnelConn = None,
     l_TunnelPwd = [], l_closed = False, errVal = None, ln_open = True\<rparr>"

definition jtrpcInitial :: byte where "jtrpcInitial = 0"
definition tunnelConnectInitial :: byte where "tunnelConnectInitial = 2"
definition errorInitial :: byte where "errorInitial = 255"

lemmas initial_defs = jtrpcInitial_def tunnelInitial_def tunnelConnectInitial_def errorInitial_def

definition upd_conn :: "nat \<Rightarrow> (conn \<Rightarrow> conn) \<Rightarrow> 'v proxy \<Rightarrow> 'v proxy" where
  "upd_conn k f P = P\<lparr>p_conns := (p_conns P)[k := f (p_conns P ! k)]\<rparr>"

text \<open>\<open>conn.Write\<close> of connection \<open>k\<close>.\<close>

definition write_conn :: "nat \<Rightarrow> bytes \<Rightarrow> 'v proxy \<Rightarrow> 'v proxy \<times> ioerr option" where
  "write_conn k b P =
     (case conn_Write (snd (p_conns P ! k)) b of
        (w, n, e) \<Rightarrow> (upd_conn k (\<lambda>(r, _). (r, w)) P, e))"

definition writeErrMsg :: "nat \<Rightarrow> gostring \<Rightarrow> 'v proxy \<Rightarrow> 'v proxy" where
  "writeErrMsg k msg P =
     fst (write_conn k (([errorInitial] @ le_put 2 (of_nat (length msg) :: u16)) @ msg) P)"

text \<open>
  \<open>handle\<close>: where the connection goes.  \<open>dl\<close> says whether setting the read deadline works, first
  and second, and \<open>late\<close> whether the deadline passes before the first byte is there.
\<close>

datatype route = Closed | ToJtrpc | ToHTTP | GoTunnelConn | GoTunnelConnect

definition pl_handle :: "'u uchan \<Rightarrow> bool \<times> bool \<Rightarrow> bool \<Rightarrow> nat \<Rightarrow> 'v proxy \<times> 'u listener \<Rightarrow>
    ('v proxy \<times> 'u listener) \<times> route" where
  "pl_handle C dl late k = (\<lambda>(P, L).
     if readTimeout L \<and> \<not> fst dl then ((P, L), Closed)
     else if readTimeout L \<and> late then ((P, L), Closed)
     else case ReadFull 1 (fst (p_conns P ! k)) of
       Inl e \<Rightarrow> ((upd_conn k (\<lambda>(_, w). ([], w)) P, L), Closed)
     | Inr (ini, r) \<Rightarrow>
         if readTimeout L \<and> \<not> snd dl then ((upd_conn k (\<lambda>(_, w). (r, w)) P, L), Closed)
         else
           let P = upd_conn k (\<lambda>(_, w). (pending (newConn r ini), w)) P
           in if ini ! 0 = jtrpcInitial
              then (case uc_Send C k (jtrpcCh L) of (u, ok) \<Rightarrow>
                      ((P, L\<lparr>jtrpcCh := u\<rparr>), if ok then ToJtrpc else Closed))
              else if ini ! 0 = tunnelInitial then ((P, L), GoTunnelConn)
              else if ini ! 0 = tunnelConnectInitial then ((P, L), GoTunnelConnect)
              else (case uc_Send C k (httpCh L) of (u, ok) \<Rightarrow>
                      ((P, L\<lparr>httpCh := u\<rparr>), if ok then ToHTTP else Closed)))"

section \<open>Connecting a tunnel\<close>

text \<open>The message \<open>tunnelTo\<close> sends, and its reading of the answer.\<close>

definition tunnel_hello :: "byte \<Rightarrow> gostring \<Rightarrow> gostring \<Rightarrow> bytes" where
  "tunnel_hello ini pwd path =
     (([ini] @ le_put 2 (of_nat (length pwd) :: u16)) @ le_put 2 (of_nat (length path) :: u16)) @ pwd @ path"

datatype tunnel_error = TunDial | TunWrite ioerr | TunRead ioerr | TunRefused gostring | TunUnexpected byte

definition tunnel_answer :: "byte \<Rightarrow> bytes \<Rightarrow> tunnel_error option \<times> bytes" where
  "tunnel_answer expected r =
     (case ReadFull 1 r of
        Inl e \<Rightarrow> (Some (TunRead e), [])
      | Inr (m, r1) \<Rightarrow>
          if m ! 0 = errorInitial
          then (case ReadFull 2 r1 of
                  Inl e \<Rightarrow> (Some (TunRead e), [])
                | Inr (l, r2) \<Rightarrow>
                    (case ReadFull (unat (u16_at 0 l)) r2 of
                       Inl e \<Rightarrow> (Some (TunRead e), [])
                     | Inr (msg, r3) \<Rightarrow> (Some (TunRefused msg), r3)))
          else if m ! 0 \<noteq> expected then (Some (TunUnexpected (m ! 0)), r1)
          else (None, r1))"

definition tunnelTo :: "'v penv \<Rightarrow> gostring \<Rightarrow> gostring \<Rightarrow> gostring \<Rightarrow> 'v proxy \<times> 'u listener \<Rightarrow>
    ('v proxy \<times> 'u listener) \<times> tunnel_error option" where
  "tunnelTo E addr path pwd = (\<lambda>(P, L).
     case p_dials P addr of
       [] \<Rightarrow> ((P, L), Some TunDial)
     | (r, w) # cs \<Rightarrow>
         let k = length (p_conns P); P = P\<lparr>p_dials := (p_dials P)(addr := cs)\<rparr>
         in (case WriteAll (e_utils E) w (tunnel_hello tunnelConnectInitial pwd path) of
               (w', n, Some e) \<Rightarrow> ((P\<lparr>p_conns := p_conns P @ [(r, w')]\<rparr>, L), Some (TunWrite e))
             | (w', n, None) \<Rightarrow>
                 (case tunnel_answer tunnelConnectInitial r of
                    (Some e, r') \<Rightarrow> ((P\<lparr>p_conns := p_conns P @ [(r', w')]\<rparr>, L), Some e)
                  | (None, r') \<Rightarrow>
                      ((P\<lparr>p_conns := p_conns P @ [(r', w')]\<rparr>,
                        L\<lparr>l_tunnelConn := Some k, l_TunnelPwd := pwd\<rparr>), None))))"

text \<open>
  \<open>handleTunnelConnect\<close>, at the other end.  \<open>CompareAndSwap\<close> of the tunnel connection succeeds
  when there is none.  The result says whether the connection stays open.
\<close>

definition set_tunnel :: "nat \<Rightarrow> nat option \<Rightarrow> 'v proxy \<Rightarrow> 'v proxy" where
  "set_tunnel i v P = upd_srv i (\<lambda>s. s\<lparr>ps_tunnelConn := Some v\<rparr>) P"

definition handleTunnelConnect :: "nat \<Rightarrow> 'v proxy \<Rightarrow> ('v proxy \<times> bool) outcome" where
  "handleTunnelConnect k P =
     (case ReadFull 5 (fst (p_conns P ! k)) of
        Inl e \<Rightarrow> Returns (upd_conn k (\<lambda>(_, w). ([], w)) P, False)
      | Inr (buf, r1) \<Rightarrow>
          let pwdLen = u16_at 1 buf; pathLen = u16_at 3 buf
          in (case ReadFull (unat pwdLen) r1 of
                Inl e \<Rightarrow> Returns (upd_conn k (\<lambda>(_, w). ([], w)) P, False)
              | Inr (pwd, r2) \<Rightarrow>
                  if pwd \<noteq> p_password P
                  then Returns (writeErrMsg k (lit ''incorrect password'') (upd_conn k (\<lambda>(_, w). (r2, w)) P), False)
                  else (case ReadFull (unat pathLen) r2 of
                    Inl e \<Rightarrow> Returns (upd_conn k (\<lambda>(_, w). ([], w)) P, False)
                  | Inr (path, r3) \<Rightarrow>
                      let P = upd_conn k (\<lambda>(_, w). (r3, w)) P
                      in (case map_load (p_servers P) path of
                            None \<Rightarrow> Returns (writeErrMsg k (lit ''incorrect password'') P, False)
                          | Some None \<Rightarrow> Panics NilDeref
                          | Some (Some i) \<Rightarrow>
                              if ps_Addr (p_srvs P ! i) \<noteq> tunnel
                              then Returns (writeErrMsg k (lit ''not a tunnel'') P, False)
                              else (case ps_tunnelConn (p_srvs P ! i) of
                                      None \<Rightarrow> Panics NilDeref
                                    | Some (Some t) \<Rightarrow> Returns (writeErrMsg k (lit ''tunnel already connected'') P, False)
                                    | Some None \<Rightarrow>
                                        (case write_conn k [tunnelConnectInitial] (set_tunnel i (Some k) P) of
                                           (P, Some e) \<Rightarrow> Returns (set_tunnel i None P, False)
                                         | (P, None) \<Rightarrow> Returns (P, True)))))))"

section \<open>New connections through a tunnel\<close>

text \<open>
  \<open>handleTunnelConn\<close> up to the send on the server's channel: \<open>Inr\<close> when the connection was handed
  over, \<open>Inl\<close> when it is closed with what was written on it.
\<close>

definition tunnel_conn_offer :: "nat \<Rightarrow> 'v proxy \<Rightarrow> ('v proxy \<times> bool) outcome" where
  "tunnel_conn_offer k P =
     (let fail = (\<lambda>r. Returns (upd_conn k (\<lambda>(_, w). (r, w)) P, False)) in
      case CopyN 1 (fst (p_conns P ! k)) of (_, r0, _) \<Rightarrow>
        (case ReadFull 4 r0 of
           Inl e \<Rightarrow> fail []
         | Inr (lenBytes, r1) \<Rightarrow>
             (case ReadFull (unat (u16_at 0 lenBytes)) r1 of
                Inl e \<Rightarrow> fail []
              | Inr (pwd, r2) \<Rightarrow>
                  if pwd \<noteq> p_password P
                  then Returns (writeErrMsg k (lit ''incorrect password'') (upd_conn k (\<lambda>(_, w). (r2, w)) P), False)
                  else (case ReadFull (unat (u16_at 2 lenBytes)) r2 of
                    Inl e \<Rightarrow> fail []
                  | Inr (path, r3) \<Rightarrow>
                      let P = upd_conn k (\<lambda>(_, w). (r3, w)) P
                      in (case map_load (p_servers P) path of
                            None \<Rightarrow> Returns (writeErrMsg k (lit ''server doesn't exist'') P, False)
                          | Some None \<Rightarrow> Panics NilDeref
                          | Some (Some i) \<Rightarrow>
                              (case ps_tch (p_srvs P ! i) of
                                 None \<Rightarrow> Returns (writeErrMsg k (lit ''server doesn't exist'') P, False)
                               | Some ks \<Rightarrow>
                                   if ps_nWaiting (p_srvs P ! i) = 0
                                   then Returns (writeErrMsg k (lit ''server not expecting new connections'') P, False)
                                   else
                                     let P = upd_srv i (\<lambda>s. s\<lparr>ps_nWaiting := ps_nWaiting s - 1\<rparr>) P
                                     in if length ks < tch_cap
                                        then Returns (upd_srv i (\<lambda>s. s\<lparr>ps_tch := Some (ks @ [k])\<rparr>) P, True)
                                        else Returns (writeErrMsg k (lit ''internal server error'') P, False)))))))"

text \<open>The ready byte, which is written after the connection has been handed over.\<close>

definition tunnel_conn_ready :: "nat \<Rightarrow> 'v proxy \<Rightarrow> 'v proxy \<times> bool" where
  "tunnel_conn_ready k P = (case write_conn k [tunnelInitial] P of (P, e) \<Rightarrow> (P, e = None))"

definition handleTunnelConn :: "nat \<Rightarrow> 'v proxy \<Rightarrow> ('v proxy \<times> bool) outcome" where
  "handleTunnelConn k P =
     obind (tunnel_conn_offer k P) (\<lambda>(P, ok). Returns (if ok then tunnel_conn_ready k P else (P, False)))"

text \<open>
  \<open>runTunnel\<close> at the other end: the paths it gets asked for.  One \<open>Read\<close> is meant to fill the three
  bytes; it gets \<open>n\<close> of them, at least one, and the rest of the buffer is zero.  The goroutine that
  connects back for a path is \<open>tunnel_back\<close>.
\<close>

definition short_read :: "nat \<Rightarrow> bytes \<Rightarrow> ioerr + bytes \<times> bytes" where
  "short_read n r =
     (if r = [] then Inl EOF
      else let m = min (min 3 (Suc n)) (length r) in Inr (take m r @ replicate (3 - m) 0, drop m r))"

lemma short_read_shrinks: "short_read n r = Inr (buf, r') \<Longrightarrow> length r' < length r"
  by (auto simp: short_read_def Let_def split: if_splits)

function runTunnel :: "(nat \<Rightarrow> nat) \<Rightarrow> bytes \<Rightarrow> gostring list" where
  "runTunnel reads r =
     (case short_read (reads (length r)) r of
        Inl e \<Rightarrow> []
      | Inr (buf, r1) \<Rightarrow>
          if buf ! 0 \<noteq> tunnelInitial then runTunnel reads r1
          else (case ReadFull (unat (u16_at 1 buf)) r1 of
                  Inl e \<Rightarrow> []
                | Inr (path, r2) \<Rightarrow> path # runTunnel reads r2))"
  by pat_completeness auto

termination
  by (relation "measure (\<lambda>(reads, r). length r)")
    (auto dest!: short_read_shrinks simp: ReadFull_def split: if_splits)

declare runTunnel.simps [simp del]

definition tunnel_back :: "utils \<Rightarrow> gostring \<Rightarrow> gostring \<Rightarrow> conn \<Rightarrow> conn \<times> tunnel_error option" where
  "tunnel_back U pwd path = (\<lambda>(r, w).
     case conn_Write w (tunnel_hello tunnelInitial pwd path) of
       (w', n, Some e) \<Rightarrow> ((r, w'), Some (TunWrite e))
     | (w', n, None) \<Rightarrow> (case tunnel_answer tunnelInitial r of (e, r') \<Rightarrow> ((r', w'), e)))"

section \<open>Closing\<close>

definition closeHttp :: "'u uchan \<Rightarrow> bool \<Rightarrow> 'u listener \<Rightarrow> 'u listener" where
  "closeHttp C check L =
     (let L = L\<lparr>httpCh := uc_Close C (httpCh L)\<rparr>
      in if check \<and> uc_IsClosed C (jtrpcCh L) then L\<lparr>ln_open := False\<rparr> else L)"

definition closeJtrpc :: "'u uchan \<Rightarrow> bool \<Rightarrow> 'u listener \<Rightarrow> 'u listener" where
  "closeJtrpc C check L =
     (let L = L\<lparr>jtrpcCh := uc_Close C (jtrpcCh L)\<rparr>
      in if check \<and> uc_IsClosed C (httpCh L) then L\<lparr>ln_open := False\<rparr> else L)"

text \<open>\<open>closeWithErr\<close>; closing the TCP listener a second time is an error that is returned.\<close>

definition pl_closeWithErr :: "'u uchan \<Rightarrow> ln_error option \<Rightarrow> 'u listener \<Rightarrow> 'u listener \<times> bool" where
  "pl_closeWithErr C err L =
     (let ok = ln_open L; L = L\<lparr>ln_open := False\<rparr>
      in if l_closed L then (L, ok)
         else
           let L = L\<lparr>l_closed := True\<rparr>;
               err = (case err of None \<Rightarrow> Some LnClosed | Some e \<Rightarrow> Some e);
               L = L\<lparr>errVal := err\<rparr>
           in (closeJtrpc C False (closeHttp C False L), ok))"

definition pl_Close :: "'u uchan \<Rightarrow> 'u listener \<Rightarrow> 'u listener \<times> bool" where
  "pl_Close C L = pl_closeWithErr C None L"

definition HTTPListener_Close :: "'u uchan \<Rightarrow> 'u listener \<Rightarrow> 'u listener" where
  "HTTPListener_Close C L = closeJtrpc C True L"

definition JtRPCListener_Close :: "'u uchan \<Rightarrow> 'u listener \<Rightarrow> 'u listener" where
  "JtRPCListener_Close C L = closeJtrpc C True L"

definition pl_Error :: "'u listener \<Rightarrow> ln_error option" where
  "pl_Error L = errVal L"

definition HTTPListener_Accept :: "'u uchan \<Rightarrow> 'u listener \<Rightarrow> ('u listener \<times> (ln_error + nat)) outcome" where
  "HTTPListener_Accept C L =
     obind (uc_Recv C (httpCh L)) (\<lambda>(u, x).
       let L = L\<lparr>httpCh := u\<rparr> in
       case x of
         Some k \<Rightarrow> Returns (L, Inr k)
       | None \<Rightarrow> Returns (L, Inl (case pl_Error L of None \<Rightarrow> LnClosed | Some e \<Rightarrow> e)))"

definition JtRPCListener_Accept :: "'u uchan \<Rightarrow> 'u listener \<Rightarrow> ('u listener \<times> (ln_error + nat)) outcome" where
  "JtRPCListener_Accept C L =
     obind (uc_Recv C (jtrpcCh L)) (\<lambda>(u, x).
       let L = L\<lparr>jtrpcCh := u\<rparr> in
       case x of
         Some k \<Rightarrow> Returns (L, Inr k)
       | None \<Rightarrow> Returns (L, Inl (case pl_Error L of None \<Rightarrow> LnClosed | Some e \<Rightarrow> e)))"

text \<open>\<open>Run\<close>: a connection is handled in its own goroutine for each one accepted, until \<open>Accept\<close> fails.\<close>

fun pl_Run :: "'u uchan \<Rightarrow> (nat \<Rightarrow> (bool \<times> bool) \<times> bool) \<Rightarrow> nat list \<Rightarrow> 'v proxy \<times> 'u listener \<Rightarrow>
    ('v proxy \<times> 'u listener) \<times> (nat \<times> route) list" where
  "pl_Run C env [] (P, L) = ((P, fst (pl_closeWithErr C (Some AcceptFailed) L)), [])"
| "pl_Run C env (k # ks) (P, L) =
     (case pl_handle C (fst (env k)) (snd (env k)) k (P, L) of
        (PL, rt) \<Rightarrow> (case pl_Run C env ks PL of (PL', rts) \<Rightarrow> (PL', (k, rt) # rts)))"

section \<open>Routing\<close>

lemma upd_conn_same: "k < length (p_conns P) \<Longrightarrow> p_conns P ! k = (r, w) \<Longrightarrow> upd_conn k (\<lambda>(_, w). (r, w)) P = P"
proof -
  assume "k < length (p_conns P)" "p_conns P ! k = (r, w)"
  then have "(p_conns P)[k := (r, w)] = p_conns P" by (metis list_update_id)
  then show ?thesis using \<open>p_conns P ! k = (r, w)\<close> by (simp add: upd_conn_def)
qed

text \<open>Routing.  With open queues and no trouble with the deadline, the first byte of a connection
  decides where it goes: 0 to the jtrpc server, 1 and 2 to the handlers of tunnels, anything else
  to the HTTP server; whoever gets it reads it from its first byte on, and nothing else changes.\<close>

theorem handle_routes:
  assumes "uchan_ok C" and "\<not> uc_IsClosed C (httpCh L)" and "\<not> uc_IsClosed C (jtrpcCh L)"
    and "k < length (p_conns P)" and "p_conns P ! k = (b # rest, w)"
  shows "pl_handle C (True, True) False k (P, L) =
    (if b = 0 then ((P, L\<lparr>jtrpcCh := fst (uc_Send C k (jtrpcCh L))\<rparr>), ToJtrpc)
     else if b = 1 then ((P, L), GoTunnelConn)
     else if b = 2 then ((P, L), GoTunnelConnect)
     else ((P, L\<lparr>httpCh := fst (uc_Send C k (httpCh L))\<rparr>), ToHTTP))"
proof -
  have "ReadFull 1 (b # rest) = Inr ([b], rest)" by (simp add: ReadFull_def)
  moreover have "upd_conn k (\<lambda>(_, w). (pending (newConn rest [b]), w)) P = P"
    using assms(4,5) by (intro upd_conn_same [of _ _ _ w]) (simp_all add: newConn_pending)
  moreover have "snd (uc_Send C k (jtrpcCh L))" "snd (uc_Send C k (httpCh L))"
    using assms(1-3) by (auto simp: uchan_ok_def)
  ultimately show ?thesis
    using assms(5) by (auto simp: pl_handle_def initial_defs split: prod.split)
qed

text \<open>A queue for concrete runs: closed or not, and what is in it.\<close>

definition demo_uchan :: "(bool \<times> nat list) uchan" where
  "demo_uchan = \<lparr>uc_Send = (\<lambda>k (c, q). if c then ((c, q), False) else ((c, q @ [k]), True)),
     uc_Recv = (\<lambda>(c, q). case q of k # q' \<Rightarrow> Returns ((c, q'), Some k)
                                | [] \<Rightarrow> if c then Returns ((c, q), None) else Blocks),
     uc_Close = (\<lambda>(c, q). (True, q)), uc_IsClosed = fst\<rparr>"

lemma demo_uchan_ok: "uchan_ok demo_uchan"
  by (auto simp: uchan_ok_def demo_uchan_def)

lemma handle_routes_witness:
  "let P = (demo_proxy [])\<lparr>p_conns := [([2, 7], \<lparr>out = [], room = None\<rparr>)]\<rparr>; L = NewProxyListener (False, []) True; b = (2 :: byte)
   in pl_handle demo_uchan (True, True) False 0 (P, L) =
    (if b = 0 then ((P, L\<lparr>jtrpcCh := fst (uc_Send demo_uchan 0 (jtrpcCh L))\<rparr>), ToJtrpc)
     else if b = 1 then ((P, L), GoTunnelConn)
     else if b = 2 then ((P, L), GoTunnelConnect)
     else ((P, L\<lparr>httpCh := fst (uc_Send demo_uchan 0 (httpCh L))\<rparr>), ToHTTP))"
  unfolding Let_def
  by (rule handle_routes [OF demo_uchan_ok, of _ _ _ 2 "[7]" "\<lparr>out = [], room = None\<rparr>"])
    (simp_all add: demo_uchan_def NewProxyListener_def)

section \<open>Tunnels\<close>

lemma hello_reads:
  assumes "length pwd < 2 ^ 16" and "length path < 2 ^ 16"
  shows "u16_at 1 (([ini] @ le_put 2 (of_nat (length pwd) :: u16)) @ le_put 2 (of_nat (length path) :: u16)) =
      of_nat (length pwd)"
    and "u16_at 3 (([ini] @ le_put 2 (of_nat (length pwd) :: u16)) @ le_put 2 (of_nat (length path) :: u16)) =
      of_nat (length path)"
    and "unat (of_nat (length pwd) :: u16) = length pwd" and "unat (of_nat (length path) :: u16) = length path"
  using u16_at_append [of "[ini]" 1 "of_nat (length pwd)" "le_put 2 (of_nat (length path) :: u16)"]
    u16_at_append [of "[ini] @ le_put 2 (of_nat (length pwd) :: u16)" 3 "of_nat (length path)" "[]"] assms
  by (simp_all add: unat_of_nat)

text \<open>What the error message and the acceptance mean to the other side.\<close>

definition err_bytes :: "gostring \<Rightarrow> bytes" where
  "err_bytes msg = ([errorInitial] @ le_put 2 (of_nat (length msg) :: u16)) @ msg"

lemma answer_err:
  assumes "length msg < 2 ^ 16"
  shows "tunnel_answer ini (err_bytes msg @ r) = (Some (TunRefused msg), r)"
proof -
  have "ReadFull 1 (err_bytes msg @ r) = Inr ([errorInitial], le_put 2 (of_nat (length msg) :: u16) @ msg @ r)"
    using ReadFull_append [of "[errorInitial]" 1] by (simp add: err_bytes_def)
  moreover have "u16_at 0 (le_put 2 (of_nat (length msg) :: u16)) = of_nat (length msg)"
    using u16_at_append [of "[]" 0 "of_nat (length msg)" "[]"] by simp
  moreover have "unat (of_nat (length msg) :: u16) = length msg"
    using assms by (simp add: unat_of_nat)
  ultimately show ?thesis by (simp add: tunnel_answer_def)
qed

lemma answer_ok: "ini \<noteq> errorInitial \<Longrightarrow> tunnel_answer ini (ini # r) = (None, r)"
  using ReadFull_append [of "[ini]" 1] by (simp add: tunnel_answer_def)

lemma write_conn_room:
  assumes "k < length (p_conns P)" and "p_conns P ! k = (r, w)" and "room w = None"
  shows "write_conn k b P = (upd_conn k (\<lambda>_. (r, w\<lparr>out := out w @ b\<rparr>)) P, None)"
  using assms by (simp add: write_conn_def upd_conn_def)

text \<open>Connection \<open>k\<close> got \<open>b\<close> more written on it.\<close>

definition wrote :: "'v proxy \<Rightarrow> 'v proxy \<Rightarrow> nat \<Rightarrow> bytes \<Rightarrow> bool" where
  "wrote P P' k b \<longleftrightarrow> out (snd (p_conns P' ! k)) = out (snd (p_conns P ! k)) @ b"

lemma wrote_err:
  assumes "k < length (p_conns P)" and "room (snd (p_conns P ! k)) = None"
  shows "wrote P (writeErrMsg k msg P) k (err_bytes msg)"
proof -
  obtain r w where "p_conns P ! k = (r, w)" by (cases "p_conns P ! k")
  then show ?thesis
    using assms write_conn_room [of k P r w] by (simp add: writeErrMsg_def wrote_def err_bytes_def upd_conn_def)
qed

lemma wrote_upd: "k < length (p_conns P) \<Longrightarrow> wrote (upd_conn k (\<lambda>(_, w). (r, w)) P) Q k b = wrote P Q k b"
  by (simp add: wrote_def upd_conn_def case_prod_beta)

lemma upd_conn_sel [simp]:
  "length (p_conns (upd_conn k f P)) = length (p_conns P)"
  "k < length (p_conns P) \<Longrightarrow> p_conns (upd_conn k f P) ! k = f (p_conns P ! k)"
  "p_servers (upd_conn k f P) = p_servers P" "p_srvs (upd_conn k f P) = p_srvs P"
  "p_password (upd_conn k f P) = p_password P"
  by (simp_all add: upd_conn_def)

lemma upd_srv_sel [simp]: "p_servers (upd_srv i f P) = p_servers P" "p_password (upd_srv i f P) = p_password P"
  "p_timers (upd_srv i f P) = p_timers P"
  by (simp_all add: upd_srv_def)

text \<open>The verdict of a handler and how the other side reads what was written.\<close>

definition agrees :: "byte \<Rightarrow> nat \<Rightarrow> 'v proxy \<Rightarrow> 'v proxy \<times> bool \<Rightarrow> bool" where
  "agrees ini k P = (\<lambda>(P', kept). \<exists>b. wrote P P' k b \<and>
     (if kept then \<forall>r. tunnel_answer ini (b @ r) = (None, r)
      else b = [] \<or> (\<exists>msg. \<forall>r. tunnel_answer ini (b @ r) = (Some (TunRefused msg), r))))"

lemma agrees_err:
  assumes "k < length (p_conns P)" and "room (snd (p_conns P ! k)) = None" and "length msg < 2 ^ 16"
  shows "agrees ini k P (writeErrMsg k msg (upd_conn k (\<lambda>(_, w). (r, w)) P), False)"
proof -
  let ?Q = "upd_conn k (\<lambda>(_, w). (r, w)) P"
  have "wrote P (writeErrMsg k msg ?Q) k (err_bytes msg)"
    using wrote_err [of k ?Q msg] wrote_upd [OF assms(1)] assms(1,2) by (simp add: case_prod_beta)
  then show ?thesis using answer_err [OF assms(3), of ini] unfolding agrees_def by auto
qed

lemma agrees_fail: "k < length (p_conns P) \<Longrightarrow> agrees ini k P (upd_conn k (\<lambda>(_, w). (r, w)) P, False)"
  by (auto simp: agrees_def wrote_def case_prod_beta)

lemma agrees_ok:
  assumes "k < length (p_conns P)" and "room (snd (p_conns P ! k)) = None" and "ini \<noteq> errorInitial"
    and "p_conns Q ! k = (r, snd (p_conns P ! k))" and "length (p_conns Q) = length (p_conns P)"
  shows "\<exists>Q'. write_conn k [ini] Q = (Q', None) \<and> agrees ini k P (Q', True)"
  using write_conn_room [of k Q r "snd (p_conns P ! k)" "[ini]"] assms answer_ok [OF assms(3)]
  by (auto simp: agrees_def wrote_def)

lemma short_lits:
  "length (lit ''incorrect password'') < 2 ^ 16" "length (lit ''not a tunnel'') < 2 ^ 16"
  "length (lit ''tunnel already connected'') < 2 ^ 16" "length (lit ''server doesn't exist'') < 2 ^ 16"
  "length (lit ''server not expecting new connections'') < 2 ^ 16" "length (lit ''internal server error'') < 2 ^ 16"
  by (simp_all add: lit_def)

lemma set_tunnel_conns [simp]: "p_conns (set_tunnel i v P) = p_conns P"
  by (simp add: set_tunnel_def)

lemma connect_agrees:
  assumes "k < length (p_conns P)" and "room (snd (p_conns P ! k)) = None"
    and "handleTunnelConnect k P = Returns res"
  shows "agrees tunnelConnectInitial k P res"
proof -
  have ini: "tunnelConnectInitial \<noteq> errorInitial" by (simp add: initial_defs)
  note err = agrees_err [OF assms(1,2), of _ tunnelConnectInitial]
  have ok: "e = None \<and> agrees tunnelConnectInitial k P (Q, True)"
    if "write_conn k [tunnelConnectInitial] (set_tunnel i (Some k) (upd_conn k (\<lambda>(_, w). (r, w)) P)) = (Q, e)"
    for i r Q e
    using agrees_ok [OF assms(1,2) ini, of "set_tunnel i (Some k) (upd_conn k (\<lambda>(_, w). (r, w)) P)" r] that assms(1)
    by (auto simp: case_prod_beta)
  show ?thesis
    using assms(3) unfolding handleTunnelConnect_def Let_def
    by (auto intro: err agrees_fail [OF assms(1)] short_lits dest!: ok
        split: sum.splits prod.splits option.splits if_splits)
qed

text \<open>C31: A tunnel is connected.  The message of a proxy that knows the password and names a tunnelled
  server without a tunnel makes the connection the tunnel of that server: the handler keeps it,
  writes the one byte, and leaves what follows the message to be read.\<close>

theorem tunnel_connects:
  assumes "k < length (p_conns P)" and "p_conns P ! k = (tunnel_hello tunnelConnectInitial pwd path @ rest, w)"
    and "room w = None" and "pwd = p_password P" and "length pwd < 2 ^ 16" and "length path < 2 ^ 16"
    and "map_load (p_servers P) path = Some (Some i)" and "i < length (p_srvs P)"
    and "ps_Addr (p_srvs P ! i) = tunnel" and "ps_tunnelConn (p_srvs P ! i) = Some None"
  shows "\<exists>P'. handleTunnelConnect k P = Returns (P', True) \<and>
    ps_tunnelConn (p_srvs P' ! i) = Some (Some k) \<and>
    p_conns P' ! k = (rest, w\<lparr>out := out w @ [tunnelConnectInitial]\<rparr>) \<and>
    (\<forall>n. n \<noteq> i \<longrightarrow> p_srvs P' ! n = p_srvs P ! n)"
proof -
  let ?head = "([tunnelConnectInitial] @ le_put 2 (of_nat (length pwd) :: u16)) @ le_put 2 (of_nat (length path) :: u16)"
  have head: "ReadFull 5 (tunnel_hello tunnelConnectInitial pwd path @ rest) = Inr (?head, pwd @ path @ rest)"
    unfolding tunnel_hello_def append_assoc using ReadFull_append [of ?head 5] by simp
  have lens: "ReadFull (unat (u16_at 1 ?head)) (pwd @ path @ rest) = Inr (pwd, path @ rest)"
    "ReadFull (unat (u16_at 3 ?head)) (path @ rest) = Inr (path, rest)"
    using hello_reads [OF assms(5,6)] by simp_all
  let ?P1 = "upd_conn k (\<lambda>(_, w). (rest, w)) P"
  have wr: "write_conn k [tunnelConnectInitial] (set_tunnel i (Some k) ?P1) =
      (upd_conn k (\<lambda>_. (rest, w\<lparr>out := out w @ [tunnelConnectInitial]\<rparr>)) (set_tunnel i (Some k) ?P1), None)"
    by (rule write_conn_room) (use assms(1-3) in simp_all)
  have "handleTunnelConnect k P = Returns
      (upd_conn k (\<lambda>_. (rest, w\<lparr>out := out w @ [tunnelConnectInitial]\<rparr>)) (set_tunnel i (Some k) ?P1), True)"
    unfolding handleTunnelConnect_def Let_def assms(2) fst_conv head sum.case prod.case lens
    by (simp add: assms(4) [symmetric] assms(7,9,10) wr)
  then show ?thesis
    using assms(1,8) by (simp add: set_tunnel_def) (simp add: upd_srv_def)
qed

definition tunnel_proxy :: "conn list \<Rightarrow> nat pval proxy" where
  "tunnel_proxy cs = (demo_proxy [])\<lparr>p_srvs := [(Server_init (json_server (demo_fields\<lparr>f_Addr := tunnel\<rparr>)))
       \<lparr>ps_Path := lit ''/a''\<rparr>], p_conns := cs\<rparr>"

lemma tunnel_proxy_sel [simp]:
  "p_servers (tunnel_proxy cs) = Some [lit ''/a'' \<mapsto> Some 0]" "p_conns (tunnel_proxy cs) = cs"
  "p_password (tunnel_proxy cs) = lit ''pw''" "length (p_srvs (tunnel_proxy cs)) = 1" "p_srvs (tunnel_proxy cs) \<noteq> []"
  "ps_Addr (p_srvs (tunnel_proxy cs) ! 0) = tunnel" "ps_Path (p_srvs (tunnel_proxy cs) ! 0) = lit ''/a''"
  "ps_tunnelConn (p_srvs (tunnel_proxy cs) ! 0) = Some None" "ps_tch (p_srvs (tunnel_proxy cs) ! 0) = Some []"
  "ps_nWaiting (p_srvs (tunnel_proxy cs) ! 0) = 0" "ps_clients (p_srvs (tunnel_proxy cs) ! 0) = Some {}"
  by (simp_all add: tunnel_proxy_def demo_proxy_def Server_init_def json_server_def Let_def newClientsSet_def)

lemma tunnel_connects_witness:
  "let pwd = lit ''pw''; path = lit ''/a''; rest = [9]; w = \<lparr>out = [], room = None\<rparr>;
       P = tunnel_proxy [(tunnel_hello tunnelConnectInitial pwd path @ rest, w)]
   in \<exists>P'. handleTunnelConnect 0 P = Returns (P', True) \<and>
    ps_tunnelConn (p_srvs P' ! 0) = Some (Some 0) \<and>
    p_conns P' ! 0 = (rest, w\<lparr>out := out w @ [tunnelConnectInitial]\<rparr>) \<and>
    (\<forall>n. n \<noteq> 0 \<longrightarrow> p_srvs P' ! n = p_srvs P ! n)"
  unfolding Let_def by (rule tunnel_connects) (simp_all, simp_all add: lit_def)

lemma writeErrMsg_srvs [simp]: "p_srvs (writeErrMsg k msg P) = p_srvs P"
  by (simp add: writeErrMsg_def write_conn_def upd_conn_def split: prod.split)

lemma write_conn_srvs: "write_conn k b P = (P', e) \<Longrightarrow> p_srvs P' = p_srvs P"
  by (auto simp: write_conn_def upd_conn_def split: prod.splits)

lemma set_tunnel_other:
  "n \<noteq> i \<Longrightarrow> p_srvs (set_tunnel n v P) ! i = p_srvs P ! i"
  by (simp add: set_tunnel_def upd_srv_def)

text \<open>C32: One tunnel per server, for ever.  A server that has a tunnel keeps that one, whatever anyone
  sends, and whether or not the tunnel's connection still works: nothing removes it.\<close>

theorem tunnel_kept:
  assumes "ps_tunnelConn (p_srvs P ! i) = Some (Some t)" and "handleTunnelConnect k P = Returns (P', b)"
  shows "ps_tunnelConn (p_srvs P' ! i) = Some (Some t)"
proof -
  have other: "ps_tunnelConn (p_srvs Q ! i) = Some (Some t)"
    if "write_conn k c (set_tunnel n v (upd_conn k f P)) = (Q, e)" "ps_tunnelConn (p_srvs P ! n) = Some None"
    for c n v f Q e
  proof -
    have "n \<noteq> i" using assms(1) that(2) by auto
    then show ?thesis
      using write_conn_srvs [OF that(1)] assms(1) by (simp add: set_tunnel_other)
  qed
  have twice: "ps_tunnelConn (p_srvs (set_tunnel n v' Q) ! i) = Some (Some t)"
    if "write_conn k c (set_tunnel n v (upd_conn k f P)) = (Q, e)" "ps_tunnelConn (p_srvs P ! n) = Some None"
    for c n v v' f Q e
  proof -
    have "n \<noteq> i" using assms(1) that(2) by auto
    then show ?thesis using other [OF that] by (simp add: set_tunnel_other)
  qed
  show ?thesis
    using assms(2) unfolding handleTunnelConnect_def Let_def
    by (auto simp: assms(1) dest: other twice split: sum.splits prod.splits option.splits if_splits)
qed

lemma tunnel_kept_witness:
  "let P = (tunnel_proxy [([], \<lparr>out = [], room = None\<rparr>)]);
       P = upd_srv 0 (\<lambda>s. s\<lparr>ps_tunnelConn := Some (Some 5)\<rparr>) P
   in case handleTunnelConnect 0 P of
        Returns (P', b) \<Rightarrow> ps_tunnelConn (p_srvs P' ! 0) = Some (Some 5) | _ \<Rightarrow> False"
proof -
  let ?P = "upd_srv 0 (\<lambda>s. s\<lparr>ps_tunnelConn := Some (Some 5)\<rparr>) (tunnel_proxy [([], \<lparr>out = [], room = None\<rparr>)])"
  obtain P' where r: "handleTunnelConnect 0 ?P = Returns (P', False)"
    by (simp add: handleTunnelConnect_def ReadFull_def)
  have "ps_tunnelConn (p_srvs P' ! 0) = Some (Some 5)"
    by (rule tunnel_kept [OF _ r]) (simp add: upd_srv_def)
  then show ?thesis by (simp add: r)
qed

section \<open>Requests on a tunnel\<close>

lemma runTunnel_request:
  assumes "length path < 2 ^ 16" and "\<forall>n. 2 \<le> reads n"
  shows "runTunnel reads (tunnel_request path @ r) = path # runTunnel reads r"
proof -
  let ?head = "[tunnelInitial] @ le_put 2 (of_nat (length path) :: u16)"
  have "min (min 3 (Suc (reads n))) (length (tunnel_request path @ r)) = 3" for n
    using assms(2) by (auto simp: tunnel_request_def min_def not_le less_Suc_eq_le dest: spec [of _ n])
  then have s: "short_read (reads n) (tunnel_request path @ r) = Inr (?head, path @ r)" for n
    by (simp add: short_read_def tunnel_request_def Let_def)
  have u: "u16_at 1 ?head = of_nat (length path)" "unat (of_nat (length path) :: u16) = length path"
    using u16_at_append [of "[tunnelInitial]" 1 "of_nat (length path)" "[]"] assms(1)
    by (simp_all add: unat_of_nat)
  have f: "ReadFull (unat (u16_at 1 ?head)) (path @ r) = Inr (path, r)"
    unfolding u by simp
  show ?thesis
    by (subst runTunnel.simps) (simp only: s sum.case prod.case f, simp)
qed

lemma runTunnel_nil [simp]: "runTunnel reads [] = []"
  by (subst runTunnel.simps) (simp add: short_read_def)

text \<open>The requests on a tunnel are read back.  When each \<open>Read\<close> fills its three bytes, the other
  end of a tunnel connects back for exactly the paths that connections were asked for, in order.\<close>

theorem tunnel_requests_read_back:
  assumes "\<forall>n. 2 \<le> reads n" and "\<forall>p\<in>set paths. length p < 2 ^ 16"
  shows "runTunnel reads (concat (map tunnel_request paths)) = paths"
  using assms(2) by (induction paths) (simp_all add: runTunnel_request [OF _ assms(1)])

lemma tunnel_requests_read_back_witness:
  "runTunnel (\<lambda>_. 2) (concat (map tunnel_request [[7, 8], [9]])) = [[7, 8], [9]]"
  by (rule tunnel_requests_read_back) simp_all

text \<open>A short read derails the tunnel.  A \<open>Read\<close> that gets only the first byte of a request leaves
  zeros for the length: the other end connects back for the empty path, and takes the length and
  the path for the next requests.\<close>

theorem tunnel_short_read:
  assumes "reads (length (tunnel_request path @ r)) = 0"
  shows "\<exists>ps. runTunnel reads (tunnel_request path @ r) = [] # ps \<and>
    ps = runTunnel reads (le_put 2 (of_nat (length path) :: u16) @ path @ r)"
proof -
  let ?r1 = "le_put 2 (of_nat (length path) :: u16) @ path @ r"
  have s: "short_read 0 (tunnel_request path @ r) = Inr ([tunnelInitial, 0, 0], ?r1)"
    by (simp add: short_read_def tunnel_request_def Let_def numeral_2_eq_2)
  have "u16_at 1 [tunnelInitial, 0, 0] = 0"
    using u16_at_append [of "[tunnelInitial]" 1 0 "[]"] by (simp add: numeral_2_eq_2)
  then show ?thesis
    using s assms by (subst runTunnel.simps) (simp add: ReadFull_def)
qed

lemma tunnel_short_read_witness:
  "\<exists>ps. runTunnel (\<lambda>_. 0) (tunnel_request [7] @ []) = [] # ps \<and>
    ps = runTunnel (\<lambda>_. 0) (le_put 2 (of_nat (length [7 :: byte]) :: u16) @ [7] @ [])"
  by (rule tunnel_short_read) simp

section \<open>A new connection through a tunnel\<close>

lemma tunnel_conn_offer_ok:
  assumes "k < length (p_conns P)" and "p_conns P ! k = (tunnel_hello tunnelInitial pwd path @ rest, w)"
    and "pwd = p_password P" and "length pwd < 2 ^ 16" and "length path < 2 ^ 16"
    and "map_load (p_servers P) path = Some (Some i)"
    and "ps_tch (p_srvs P ! i) = Some ks" and "length ks < tch_cap" and "ps_nWaiting (p_srvs P ! i) \<noteq> 0"
  shows "tunnel_conn_offer k P = Returns (upd_srv i (\<lambda>s. s\<lparr>ps_tch := Some (ks @ [k])\<rparr>)
    (upd_srv i (\<lambda>s. s\<lparr>ps_nWaiting := ps_nWaiting s - 1\<rparr>) (upd_conn k (\<lambda>(_, w). (rest, w)) P)), True)"
proof -
  let ?lens = "le_put 2 (of_nat (length pwd) :: u16) @ le_put 2 (of_nat (length path) :: u16)"
  have one: "CopyN 1 (tunnel_hello tunnelInitial pwd path @ rest) = ([tunnelInitial], ?lens @ pwd @ path @ rest, None)"
    by (simp add: tunnel_hello_def CopyN_def)
  have lens: "ReadFull 4 (?lens @ pwd @ path @ rest) = Inr (?lens, pwd @ path @ rest)"
    using ReadFull_append [of ?lens 4] by simp
  have u: "unat (u16_at 0 ?lens) = length pwd" "unat (u16_at 2 ?lens) = length path"
    using u16_at_append [of "[]" 0 "of_nat (length pwd)"]
      u16_at_append [of "le_put 2 (of_nat (length pwd) :: u16)" 2 "of_nat (length path)" "[]"] assms(4,5)
    by (simp_all add: unat_of_nat)
  show ?thesis
    unfolding tunnel_conn_offer_def Let_def assms(2) fst_conv one lens sum.case prod.case u
    using assms(6-9) by (simp add: assms(3) [symmetric])
qed

text \<open>C17: A connection through a tunnel.  A goroutine that needs a client of a tunnelled server asks for
  it on the tunnel; while it waits, the other end connects with its password and the path that it
  was asked for, and the connection is handed over.  When the ready byte is out before the
  handshake begins, the goroutine gets a client on that connection, which carries the ready byte
  and then the handshake, and nobody is counted as waiting any more.\<close>

theorem tunnel_new_client:
  assumes "utils_contract (e_utils E)" and "i < length (p_srvs P)" and "ps_Addr (p_srvs P ! i) = tunnel"
    and "ps_tunnelConn (p_srvs P ! i) = Some (Some t)" and "ps_tch (p_srvs P ! i) = Some []"
    and "t < length (p_conns P)" and "k < length (p_conns P)" and "t \<noteq> k" and "room (snd (p_conns P ! t)) = None"
    and "ps_nWaiting (p_srvs P ! i) \<noteq> - 1"
    and "p_conns P ! k = (tunnel_hello tunnelInitial pwd (ps_Path (p_srvs P ! i)) @ rest, w)" and "room w = None"
    and "pwd = p_password P" and "length pwd < 2 ^ 16" and "length (ps_Path (p_srvs P ! i)) < 2 ^ 16"
    and "map_load (p_servers P) (ps_Path (p_srvs P ! i)) = Some (Some i)"
    and "e_others E = (\<lambda>Q. case handleTunnelConn k Q of Returns (Q', _) \<Rightarrow> Q' | _ \<Rightarrow> Q)"
    and "WithRW (e_utils E) rest (w\<lparr>out := out w @ [tunnelInitial]\<rparr>) = Inr (c, rest')"
  shows "\<exists>P'. newClient E i P = Returns (P', Inr (length (p_clients P))) \<and>
    p_clients P' = p_clients P @ [(c, rest')] \<and>
    ps_nWaiting (p_srvs P' ! i) = ps_nWaiting (p_srvs P ! i) \<and> ps_tch (p_srvs P' ! i) = Some [] \<and>
    out (snd (p_conns P' ! t)) = out (snd (p_conns P ! t)) @ tunnel_request (ps_Path (p_srvs P ! i))"
proof -
  let ?req = "tunnel_request (ps_Path (p_srvs P ! i))"
  obtain wt where wt: "WriteAll (e_utils E) (snd (p_conns P ! t)) ?req = (wt, length ?req, None)"
    "out wt = out (snd (p_conns P ! t)) @ ?req"
    using utils_WriteAll(4) [OF assms(1,9)] by blast
  define P1 where "P1 = (upd_srv i (\<lambda>s. s\<lparr>ps_nWaiting := ps_nWaiting s + 1\<rparr>) P)
    \<lparr>p_conns := (p_conns P)[t := (fst (p_conns P ! t), wt)]\<rparr>"
  have ask: "ask_tunnel E i P = Returns (P1, None)"
    using assms(4) wt(1) by (simp add: ask_tunnel_def Let_def P1_def)
  have P1: "p_conns P1 ! k = p_conns P ! k" "k < length (p_conns P1)" "p_servers P1 = p_servers P"
    "p_password P1 = p_password P" "ps_tch (p_srvs P1 ! i) = Some []"
    "ps_nWaiting (p_srvs P1 ! i) = ps_nWaiting (p_srvs P ! i) + 1" "p_clients P1 = p_clients P"
    "i < length (p_srvs P1)" "p_conns P1 ! t = (fst (p_conns P ! t), wt)" "t < length (p_conns P1)"
    using assms(2,5-8) by (simp_all add: P1_def) (simp_all add: upd_srv_def)
  have nz: "ps_nWaiting (p_srvs P1 ! i) \<noteq> 0"
    using assms(10) P1(6) by (metis add.commute add_eq_0_iff)
  let ?P2 = "upd_srv i (\<lambda>s. s\<lparr>ps_tch := Some [k]\<rparr>)
    (upd_srv i (\<lambda>s. s\<lparr>ps_nWaiting := ps_nWaiting s - 1\<rparr>) (upd_conn k (\<lambda>(_, w). (rest, w)) P1))"
  have offer: "tunnel_conn_offer k P1 = Returns (?P2, True)"
    using tunnel_conn_offer_ok [of k P1 pwd "ps_Path (p_srvs P ! i)" rest w i "[]"] P1 nz assms(11,13-16)
    by (simp add: tch_cap_def)
  let ?P3 = "upd_conn k (\<lambda>_. (rest, w\<lparr>out := out w @ [tunnelInitial]\<rparr>)) ?P2"
  have ready: "write_conn k [tunnelInitial] ?P2 = (?P3, None)"
    by (rule write_conn_room) (use P1 assms(11,12) in simp_all)
  have others: "e_others E P1 = ?P3"
    using offer ready by (simp add: assms(17) handleTunnelConn_def tunnel_conn_ready_def)
  have P3: "ps_tch (p_srvs ?P3 ! i) = Some [k]" "ps_nWaiting (p_srvs ?P3 ! i) = ps_nWaiting (p_srvs P ! i)"
    "p_conns ?P3 ! k = (rest, w\<lparr>out := out w @ [tunnelInitial]\<rparr>)" "p_clients ?P3 = p_clients P"
    "i < length (p_srvs ?P3)" "p_conns ?P3 ! t = (fst (p_conns P ! t), wt)"
    using P1 assms(8) by simp_all (simp_all add: upd_srv_def upd_conn_def)
  let ?P4 = "upd_srv i (\<lambda>s. s\<lparr>ps_tch := Some []\<rparr>) ?P3"
  have "await_tunnel E i ?P3 = (?P4\<lparr>p_clients := p_clients P @ [(c, rest')]\<rparr>, Inr (length (p_clients P)))"
    unfolding await_tunnel_def P3(1) using P3(3,4) assms(18) by (simp add: add_client_def Let_def)
  then have "newClient E i P = Returns (?P4\<lparr>p_clients := p_clients P @ [(c, rest')]\<rparr>, Inr (length (p_clients P)))"
    using ask others assms(3) by (simp add: newClient_def)
  moreover have "p_srvs ?P4 ! i = (p_srvs ?P3 ! i)\<lparr>ps_tch := Some []\<rparr>" "p_conns ?P4 = p_conns ?P3"
    using P3(5) by (simp_all add: upd_srv_def)
  ultimately show ?thesis
    using P3 wt(2) by simp
qed

lemma tunnel_new_client_witness:
  "let path = lit ''/a''; pwd = lit ''pw''; w = \<lparr>out = [], room = None\<rparr>; rest = response_head 0 0 0 0 0 @ [7];
       P = upd_srv 0 (\<lambda>s. s\<lparr>ps_tunnelConn := Some (Some 0)\<rparr>)
         (tunnel_proxy [([], w), (tunnel_hello tunnelInitial pwd path @ rest, w)]);
       E = demo_env\<lparr>e_others := (\<lambda>Q. case handleTunnelConn 1 Q of Returns (Q', _) \<Rightarrow> Q' | _ \<Rightarrow> Q)\<rparr>;
       c = fresh_client\<lparr>c_out := w\<lparr>out := [tunnelInitial] @ initialBytesVer\<rparr>\<rparr>
   in \<exists>P'. newClient E 0 P = Returns (P', Inr (length (p_clients P))) \<and>
    p_clients P' = p_clients P @ [(c, [7])] \<and>
    ps_nWaiting (p_srvs P' ! 0) = ps_nWaiting (p_srvs P ! 0) \<and> ps_tch (p_srvs P' ! 0) = Some [] \<and>
    out (snd (p_conns P' ! 0)) = out (snd (p_conns P ! 0)) @ tunnel_request (ps_Path (p_srvs P ! 0))"
proof -
  define w where "w = \<lparr>out = ([] :: bytes), room = None\<rparr>"
  define P where "P = upd_srv 0 (\<lambda>s. s\<lparr>ps_tunnelConn := Some (Some 0)\<rparr>)
    (tunnel_proxy [([], w), (tunnel_hello tunnelInitial (lit ''pw'') (lit ''/a'') @ response_head 0 0 0 0 0 @ [7], w)])"
  have sel: "p_srvs P ! 0 = (p_srvs (tunnel_proxy []) ! 0)\<lparr>ps_tunnelConn := Some (Some 0)\<rparr>" "length (p_srvs P) = 1"
    "p_conns P = [([], w), (tunnel_hello tunnelInitial (lit ''pw'') (lit ''/a'') @ response_head 0 0 0 0 0 @ [7], w)]"
    "p_servers P = Some [lit ''/a'' \<mapsto> Some 0]" "p_password P = lit ''pw''"
    by (simp_all add: P_def upd_srv_def tunnel_proxy_def demo_proxy_def)
  have resp: "Response_ReadFrom (zeroResponse :: (nat pval, nat) response) (response_head 0 0 0 0 0 @ [7]) =
      (zeroResponse\<lparr>reqId := 0, rflags := 0, StatusCode := 0, rHeaders := Some (newHeaders [])\<rparr>, [7], 20, None)"
    by (simp add: Response_ReadFrom_def Let_def)
  have rw: "WithRW plain_utils (response_head 0 0 0 0 0 @ [7]) (w\<lparr>out := out w @ [tunnelInitial]\<rparr>) =
      Inr (fresh_client\<lparr>c_out := w\<lparr>out := [tunnelInitial] @ initialBytesVer\<rparr>\<rparr>, [7])"
    using resp by (simp add: WithRW_def w_def fresh_client_def StatusOK_def)
  show ?thesis
    unfolding Let_def w_def [symmetric] P_def [symmetric]
    by (rule tunnel_new_client [where k = 1 and t = 0 and pwd = "lit ''pw''" and w = w
          and rest = "response_head 0 0 0 0 0 @ [7]"])
      (use rw in \<open>simp_all add: sel w_def demo_env_def plain.utils_contract_axioms\<close>, simp_all add: lit_def)
qed

text \<open>The ready byte comes too late.  The connection is handed over before the ready byte is written
  on it; a goroutine that begins its handshake at once makes the other end read the first byte of
  the handshake where it expects the ready byte, and give the connection up.\<close>

theorem ready_after_handover:
  assumes "k < length (p_conns P)" and "tunnel_conn_offer k P = Returns (Q, True)"
  shows "wrote P Q k [] \<and> tunnel_answer tunnelInitial ([tunnelInitial] @ initialBytesVer @ r) = (None, initialBytesVer @ r) \<and>
    tunnel_answer tunnelInitial (initialBytesVer @ [tunnelInitial] @ r) =
      (Some (TunUnexpected 0), drop 1 initialBytesVer @ [tunnelInitial] @ r)"
proof -
  have "wrote P Q k []"
    using assms unfolding tunnel_conn_offer_def Let_def
    by (auto simp: wrote_def case_prod_beta split: sum.splits prod.splits option.splits if_splits)
  moreover have "tunnel_answer tunnelInitial ([tunnelInitial] @ initialBytesVer @ r) = (None, initialBytesVer @ r)"
    using answer_ok [of tunnelInitial "initialBytesVer @ r"] by (simp add: initial_defs)
  moreover have "tunnel_answer tunnelInitial (initialBytesVer @ [tunnelInitial] @ r) =
      (Some (TunUnexpected 0), drop 1 initialBytesVer @ [tunnelInitial] @ r)"
    by (simp add: tunnel_answer_def initialBytesVer_def ReadFull_def initial_defs)
  ultimately show ?thesis by blast
qed

lemma ready_after_handover_witness:
  "let P = upd_srv 0 (\<lambda>s. s\<lparr>ps_nWaiting := 1\<rparr>)
         (tunnel_proxy [(tunnel_hello tunnelInitial (lit ''pw'') (lit ''/a'') @ [], \<lparr>out = [], room = None\<rparr>)])
   in case tunnel_conn_offer 0 P of Returns (Q, True) \<Rightarrow> wrote P Q 0 [] | _ \<Rightarrow> False"
proof -
  define P where "P = upd_srv 0 (\<lambda>s. s\<lparr>ps_nWaiting := 1\<rparr>)
    (tunnel_proxy [(tunnel_hello tunnelInitial (lit ''pw'') (lit ''/a'') @ [], \<lparr>out = [], room = None\<rparr>)])"
  have sel: "p_srvs P ! 0 = (p_srvs (tunnel_proxy []) ! 0)\<lparr>ps_nWaiting := 1\<rparr>" "p_password P = lit ''pw''"
    "p_conns P = [(tunnel_hello tunnelInitial (lit ''pw'') (lit ''/a'') @ [], \<lparr>out = [], room = None\<rparr>)]"
    "p_servers P = Some [lit ''/a'' \<mapsto> Some 0]"
    by (simp_all add: P_def upd_srv_def tunnel_proxy_def demo_proxy_def)
  have len: "length (lit ''pw'') < 2 ^ 16" "length (lit ''/a'') < 2 ^ 16" by (simp_all add: lit_def)
  have off: "tunnel_conn_offer 0 P = Returns (upd_srv 0 (\<lambda>s. s\<lparr>ps_tch := Some ([] @ [0])\<rparr>)
    (upd_srv 0 (\<lambda>s. s\<lparr>ps_nWaiting := ps_nWaiting s - 1\<rparr>) (upd_conn 0 (\<lambda>(_, w). ([], w)) P)), True)"
    by (rule tunnel_conn_offer_ok [where pwd = "lit ''pw''" and path = "lit ''/a''"
          and w = "\<lparr>out = [], room = None\<rparr>"]) (simp_all only: sel len, simp_all add: tch_cap_def)
  then obtain Q where r: "tunnel_conn_offer 0 P = Returns (Q, True)" by blast
  have "wrote P Q 0 []"
    using ready_after_handover [OF _ r, of "[]"] by (simp add: sel)
  then show ?thesis unfolding Let_def P_def [symmetric] by (simp add: r)
qed

section \<open>Closing the listeners\<close>

text \<open>Closing the HTTP side closes the other one.  \<open>HTTPListener.Close\<close> closes the queue of the
  jtrpc server and leaves its own open; and closing both sides, in either order, leaves the TCP
  listener open as long as the queue for HTTP is, which neither of them closes.\<close>

theorem HTTPListener_Close_wrong:
  assumes "uchan_ok C" and "\<not> uc_IsClosed C (httpCh L)"
  shows "httpCh (HTTPListener_Close C L) = httpCh L \<and> uc_IsClosed C (jtrpcCh (HTTPListener_Close C L)) \<and>
    ln_open (JtRPCListener_Close C (HTTPListener_Close C L)) = ln_open L \<and>
    ln_open (HTTPListener_Close C (JtRPCListener_Close C L)) = ln_open L"
  using assms by (simp add: HTTPListener_Close_def JtRPCListener_Close_def closeJtrpc_def Let_def uchan_ok_def)

lemma HTTPListener_Close_wrong_witness:
  "let L = NewProxyListener (False, []) True; C = demo_uchan
   in httpCh (HTTPListener_Close C L) = httpCh L \<and> uc_IsClosed C (jtrpcCh (HTTPListener_Close C L)) \<and>
    ln_open (JtRPCListener_Close C (HTTPListener_Close C L)) = ln_open L \<and>
    ln_open (HTTPListener_Close C (JtRPCListener_Close C L)) = ln_open L"
  unfolding Let_def
  by (rule HTTPListener_Close_wrong [OF demo_uchan_ok]) (simp add: demo_uchan_def NewProxyListener_def)

text \<open>Closing the proxy's listener.  After \<open>Close\<close>, or after \<open>Accept\<close> failed, the TCP listener and
  both queues are closed and the error is the first reason given; closing again changes nothing.\<close>

theorem pl_close_final:
  assumes "uchan_ok C" and "\<not> l_closed L" and "pl_closeWithErr C err L = (L', ok)"
  shows "\<not> ln_open L' \<and> l_closed L' \<and> uc_IsClosed C (httpCh L') \<and> uc_IsClosed C (jtrpcCh L') \<and>
    pl_Error L' = Some (case err of None \<Rightarrow> LnClosed | Some e \<Rightarrow> e) \<and> pl_closeWithErr C err' L' = (L', False)"
  using assms
  by (auto simp: pl_closeWithErr_def closeJtrpc_def closeHttp_def Let_def uchan_ok_def pl_Error_def split: option.split)

lemma pl_close_final_witness:
  "let L' = fst (pl_closeWithErr demo_uchan (Some AcceptFailed) (NewProxyListener (False, []) True)); C = demo_uchan
   in \<not> ln_open L' \<and> l_closed L' \<and> uc_IsClosed C (httpCh L') \<and> uc_IsClosed C (jtrpcCh L') \<and>
    pl_Error L' = Some (case Some AcceptFailed of None \<Rightarrow> LnClosed | Some e \<Rightarrow> e) \<and>
    pl_closeWithErr C None L' = (L', False)"
  unfolding Let_def
  by (rule pl_close_final [OF demo_uchan_ok _ prod.collapse [symmetric]]) (simp add: NewProxyListener_def)

section \<open>The handshake of a tunnel\<close>

lemma conn_agrees:
  assumes "k < length (p_conns P)" and "room (snd (p_conns P ! k)) = None"
    and "handleTunnelConn k P = Returns res"
  shows "agrees tunnelInitial k P res"
proof -
  have ini: "tunnelInitial \<noteq> errorInitial" by (simp add: initial_defs)
  have srv: "p_conns (upd_srv i f Q) = p_conns Q" for i f Q by simp
  note err = agrees_err [OF assms(1,2), of _ tunnelInitial]
  have err': "agrees tunnelInitial k P (writeErrMsg k msg (upd_srv i f (upd_conn k (\<lambda>(_, w). (r, w)) P)), False)"
    if "length msg < 2 ^ 16" for msg i f r
  proof -
    have "wrote P (writeErrMsg k msg (upd_srv i f (upd_conn k (\<lambda>(_, w). (r, w)) P))) k (err_bytes msg)"
      using wrote_err [of k "upd_srv i f (upd_conn k (\<lambda>(_, w). (r, w)) P)" msg] assms(1,2)
      by (simp add: wrote_def case_prod_beta)
    then show ?thesis using answer_err [OF that, of tunnelInitial] unfolding agrees_def by auto
  qed
  have offer: "(if ok then \<exists>r. p_conns Q ! k = (r, snd (p_conns P ! k)) \<and> length (p_conns Q) = length (p_conns P)
      else agrees tunnelInitial k P (Q, False))" if "tunnel_conn_offer k P = Returns (Q, ok)" for Q ok
    using that unfolding tunnel_conn_offer_def Let_def
    by (auto intro: err err' agrees_fail [OF assms(1)] short_lits simp: assms(1) case_prod_beta
        split: sum.splits prod.splits option.splits if_splits)
  obtain Q ok where q: "tunnel_conn_offer k P = Returns (Q, ok)"
    "res = (if ok then tunnel_conn_ready k Q else (Q, False))"
    using assms(3) by (auto simp: handleTunnelConn_def outcome_simps)
  show ?thesis
  proof (cases ok)
    case True
    then obtain r where "p_conns Q ! k = (r, snd (p_conns P ! k))" "length (p_conns Q) = length (p_conns P)"
      using offer [OF q(1)] by auto
    from agrees_ok [OF assms(1,2) ini this] True q(2) show ?thesis
      by (auto simp: tunnel_conn_ready_def)
  next
    case False
    then show ?thesis using offer [OF q(1)] q(2) by simp
  qed
qed

text \<open>
  The contract of a handler that answers the first message of a tunnel's connection: what it writes
  tells the other end, which reads it with \<open>tunnel_answer\<close>, whether the connection was kept.
\<close>

locale handshake_end =
  fixes ini :: byte and handle :: "nat \<Rightarrow> 'v proxy \<Rightarrow> ('v proxy \<times> bool) outcome"
  assumes agree: "k < length (p_conns P) \<Longrightarrow> room (snd (p_conns P ! k)) = None \<Longrightarrow>
      handle k P = Returns res \<Longrightarrow> agrees ini k P res"
begin

lemma verdict:
  assumes "k < length (p_conns P)" and "room (snd (p_conns P ! k)) = None" and "handle k P = Returns (P', kept)"
  shows "\<exists>b. wrote P P' k b \<and> (kept \<longleftrightarrow> fst (tunnel_answer ini b) = None)"
proof -
  have e: "fst (tunnel_answer ini []) \<noteq> None" by (simp add: tunnel_answer_def ReadFull_def)
  obtain b where b: "wrote P P' k b"
    "if kept then \<forall>r. tunnel_answer ini (b @ r) = (None, r)
     else b = [] \<or> (\<exists>msg. \<forall>r. tunnel_answer ini (b @ r) = (Some (TunRefused msg), r))"
    using agree [OF assms] by (auto simp: agrees_def)
  have "kept \<longleftrightarrow> fst (tunnel_answer ini b) = None"
  proof (cases kept)
    case True
    then have "tunnel_answer ini (b @ []) = (None, [])" using b(2) by (simp only: if_True)
    then show ?thesis using True by simp
  next
    case False
    then consider "b = []" | msg where "tunnel_answer ini (b @ []) = (Some (TunRefused msg), [])"
      using b(2) by (metis (full_types))
    then show ?thesis using False e by cases auto
  qed
  with b(1) show ?thesis by blast
qed

end

interpretation connect_end: handshake_end tunnelConnectInitial handleTunnelConnect
  by unfold_locales (rule connect_agrees)

interpretation conn_end: handshake_end tunnelInitial handleTunnelConn
  by unfold_locales (rule conn_agrees)



end
