(* ===== verification/ProxyCmd.thy ===== *)
theory ProxyCmd
  imports ProxyForward
begin

text \<open>
  \<open>proxy/client.go\<close> and \<open>proxy/server.go\<close>: the commands that administer a proxy, and the start of one.

  \<^item> \<open>newClientReq\<close> is the request of a command, with the password in its headers; \<open>exchange\<close> sends it
    and waits for the answer as \<open>sendNewServers\<close> and the other three do, with the reader loop of
    the client as in ProxyMux.
  \<^item> A command returns its error and what it prints; \<open>run_client\<close> is \<open>RunClient\<close> behind the parsing
    of the flags.
  \<^item> The files, the environment and the JSON codec are arguments.
  \<^item> \<open>Config_init\<close> makes the servers of a configuration file; the proxy starts with them.
\<close>

section \<open>Commands\<close>

datatype cmd_error =
    CmdBytes gostring
  | CmdSend "client_error option"
  | CmdCanceled
  | CmdCode byte gostring
  | CmdIndent gostring bytes

datatype cmd_log = Failed cmd_error | PartialOp gostring | Printed gostring

record cmd_env =
  cm_utils :: utils
  cm_json :: json
  cm_paths :: "gostring list \<Rightarrow> gostring + bytes"
  cm_indent :: "bytes \<Rightarrow> gostring + bytes"
  cm_read :: "gostring \<Rightarrow> gostring + bytes"
  cm_getenv :: "gostring \<Rightarrow> gostring"

text \<open>\<open>req.Headers.Set\<close> refuses a password that is too long for the headers; the code does not look.\<close>

definition newClientReq :: "gostring \<Rightarrow> gostring \<Rightarrow> bytes \<Rightarrow> 'v request outcome" where
  "newClientReq pwd path body =
     (let req = NewRequest Background path
      in case rq_Headers req of
           None \<Rightarrow> Panics NilDeref
         | Some h \<Rightarrow>
             obind (Headers_Set (lit ''password'') pwd h) (\<lambda>(h, ok).
               let req = req\<lparr>rq_Headers := Some h\<rparr>
               in Returns (if length body \<noteq> 0 then SetBodyBytes body req else req)))"

text \<open>A client with the bytes it will receive, and the order in which the maps of a closing one are
  visited.\<close>

type_synonym 'v cmd_client = "'v client \<times> bytes"

definition exchange ::
    "cmd_env \<Rightarrow> ('v client \<Rightarrow> nat list \<times> nat list) \<Rightarrow> kvlist \<Rightarrow> 'v request \<Rightarrow> 'v cmd_client \<Rightarrow>
     ((cmd_error + ('v, nat) response) \<times> 'v cmd_client) outcome" where
  "exchange M orders kvs req = (\<lambda>(c, r).
     case Client_Send (cm_utils M) kvs req c of
       (Inl e, c) \<Rightarrow> Returns (Inl (CmdSend e), (c, r))
     | (Inr q, c) \<Rightarrow>
         obind (await_resp (cm_utils M) orders q c r) (\<lambda>(c, r, resp).
           Returns (case resp of None \<Rightarrow> Inl CmdCanceled | Some x \<Rightarrow> Inr x, (c, r))))"

text \<open>What the three commands that change servers make of the answer.\<close>

definition change_result :: "('v, nat) response \<Rightarrow> cmd_error option \<times> cmd_log list" where
  "change_result resp =
     (if StatusCode resp = StatusPartialError then (None, [PartialOp (snd (BodyBytes resp))])
      else if StatusCode resp \<noteq> StatusOK then (Some (CmdCode (StatusCode resp) (snd (BodyBytes resp))), [])
      else (None, []))"

definition change_servers ::
    "cmd_env \<Rightarrow> ('v client \<Rightarrow> nat list \<times> nat list) \<Rightarrow> kvlist \<Rightarrow> gostring \<Rightarrow> gostring \<Rightarrow> bytes \<Rightarrow> 'v cmd_client \<Rightarrow>
     ((cmd_error option \<times> cmd_log list) \<times> 'v cmd_client) outcome" where
  "change_servers M orders kvs pwd path body c =
     obind (newClientReq pwd path body) (\<lambda>req.
     obind (exchange M orders kvs req c) (\<lambda>(x, c).
       Returns (case x of Inl e \<Rightarrow> (Some e, []) | Inr resp \<Rightarrow> change_result resp, c)))"

text \<open>The file is decoded and encoded again.\<close>

definition getServersBytes :: "cmd_env \<Rightarrow> gostring \<Rightarrow> gostring + bytes" where
  "getServersBytes M path =
     (case cm_read M path of
        Inl e \<Rightarrow> Inl e
      | Inr b \<Rightarrow>
          (case dec_servers (cm_json M) b of
             Inl e \<Rightarrow> Inl e
           | Inr servers \<Rightarrow> enc_servers (cm_json M) (map_option map_of servers)))"

definition sendNewServers ::
    "cmd_env \<Rightarrow> ('v client \<Rightarrow> nat list \<times> nat list) \<Rightarrow> kvlist \<Rightarrow> gostring \<Rightarrow> gostring \<Rightarrow> 'v cmd_client \<Rightarrow>
     ((cmd_error option \<times> cmd_log list) \<times> 'v cmd_client) outcome" where
  "sendNewServers M orders kvs pwd path c =
     (case getServersBytes M path of
        Inl e \<Rightarrow> Returns ((Some (CmdBytes e), []), c)
      | Inr b \<Rightarrow> change_servers M orders kvs pwd (lit ''/admin/servers/new'') b c)"

definition sendDelServers ::
    "cmd_env \<Rightarrow> ('v client \<Rightarrow> nat list \<times> nat list) \<Rightarrow> kvlist \<Rightarrow> gostring \<Rightarrow> gostring list \<Rightarrow> 'v cmd_client \<Rightarrow>
     ((cmd_error option \<times> cmd_log list) \<times> 'v cmd_client) outcome" where
  "sendDelServers M orders kvs pwd paths c =
     (case cm_paths M paths of
        Inl e \<Rightarrow> Returns ((Some (CmdBytes e), []), c)
      | Inr b \<Rightarrow> change_servers M orders kvs pwd (lit ''/admin/servers/del'') b c)"

definition sendReplaceServers ::
    "cmd_env \<Rightarrow> ('v client \<Rightarrow> nat list \<times> nat list) \<Rightarrow> kvlist \<Rightarrow> gostring \<Rightarrow> gostring \<Rightarrow> 'v cmd_client \<Rightarrow>
     ((cmd_error option \<times> cmd_log list) \<times> 'v cmd_client) outcome" where
  "sendReplaceServers M orders kvs pwd path c =
     (case getServersBytes M path of
        Inl e \<Rightarrow> Returns ((Some (CmdBytes e), []), c)
      | Inr b \<Rightarrow> change_servers M orders kvs pwd (lit ''/admin/servers/replace'') b c)"

definition getServers ::
    "cmd_env \<Rightarrow> ('v client \<Rightarrow> nat list \<times> nat list) \<Rightarrow> kvlist \<Rightarrow> gostring \<Rightarrow> 'v cmd_client \<Rightarrow>
     ((cmd_error option \<times> cmd_log list) \<times> 'v cmd_client) outcome" where
  "getServers M orders kvs pwd c =
     obind (newClientReq pwd (lit ''/admin/servers'') []) (\<lambda>req.
     obind (exchange M orders kvs req c) (\<lambda>(x, c).
       Returns (case x of
           Inl e \<Rightarrow> (Some e, [])
         | Inr resp \<Rightarrow>
             if StatusCode resp \<noteq> StatusOK
             then (Some (CmdCode (StatusCode resp) (snd (BodyBytes resp))), [])
             else (case cm_indent M (snd (BodyBytes resp)) of
                     Inl e \<Rightarrow> (Some (CmdIndent e (snd (BodyBytes resp))), [])
                   | Inr b \<Rightarrow> (None, [Printed b])), c)))"

section \<open>The client's main function\<close>

text \<open>The flags, \<open>None\<close> for a password that was not passed.\<close>

record cmd_flags =
  fl_pwd :: "gostring option"
  fl_get :: bool
  fl_new :: gostring
  fl_del :: "gostring list"
  fl_replace :: gostring

definition ArrayValue_Set :: "gostring \<Rightarrow> gostring list \<Rightarrow> gostring list" where
  "ArrayValue_Set s v = v @ [s]"

definition cmd_password :: "cmd_env \<Rightarrow> cmd_flags \<Rightarrow> gostring" where
  "cmd_password M fl =
     (case fl_pwd fl of Some p \<Rightarrow> p | None \<Rightarrow> cm_getenv M (lit ''JTRPC_PROXY_PASSWORD''))"

datatype 'v cmd_end = Finished "cmd_log list" "'v cmd_client" | Fatal

text \<open>One action: its error is logged and the next one follows.  Without a connection the client is
  nil, and \<open>Send\<close> dereferences it.\<close>

definition act ::
    "bool \<Rightarrow> ('v cmd_client \<Rightarrow> ((cmd_error option \<times> cmd_log list) \<times> 'v cmd_client) outcome) \<Rightarrow>
     cmd_log list \<times> 'v cmd_client \<Rightarrow> (cmd_log list \<times> 'v cmd_client) outcome" where
  "act on f = (\<lambda>(log, c).
     if on
     then obind (f c) (\<lambda>((e, l), c).
       Returns (log @ l @ (case e of None \<Rightarrow> [] | Some x \<Rightarrow> [Failed x]), c))
     else Returns (log, c))"

definition cmd_close ::
    "cmd_env \<Rightarrow> ('v client \<Rightarrow> nat list \<times> nat list) \<Rightarrow> 'v cmd_client \<Rightarrow> 'v cmd_client outcome" where
  "cmd_close M orders = (\<lambda>(c, r).
     case orders c of (ps, qs) \<Rightarrow>
       obind (Client_Close (cm_utils M) ps qs c) (\<lambda>(c, e). Returns (c, r)))"

definition run_client ::
    "cmd_env \<Rightarrow> ('v client \<Rightarrow> nat list \<times> nat list) \<Rightarrow> kvlist \<Rightarrow> cmd_flags \<Rightarrow> 'v cmd_client option \<Rightarrow> 'v cmd_end outcome" where
  "run_client M orders kvs fl client =
     (let pwd = cmd_password M fl
      in case client of
           None \<Rightarrow> Panics NilDeref
         | Some c \<Rightarrow>
             if fl_replace fl \<noteq> [] \<and> (fl_new fl \<noteq> [] \<or> fl_del fl \<noteq> [])
             then obind (cmd_close M orders c) (\<lambda>c. Returns Fatal)
             else
               obind (act (fl_replace fl \<noteq> []) (sendReplaceServers M orders kvs pwd (fl_replace fl)) ([], c)) (\<lambda>x.
               obind (act (fl_del fl \<noteq> []) (sendDelServers M orders kvs pwd (fl_del fl)) x) (\<lambda>x.
               obind (act (fl_new fl \<noteq> []) (sendNewServers M orders kvs pwd (fl_new fl)) x) (\<lambda>x.
               obind (act (fl_get fl) (getServers M orders kvs pwd) x) (\<lambda>(log, c).
               obind (cmd_close M orders c) (\<lambda>c. Returns (Finished log c)))))))"

section \<open>The start of a proxy\<close>

text \<open>\<open>init\<close> of a configuration: its servers, decoded from JSON, in the order the map is visited.\<close>

fun config_loop ::
    "(gostring \<times> srv_fields option) list \<Rightarrow> (gostring \<rightharpoonup> nat option) \<Rightarrow> pserver list \<Rightarrow>
     ((gostring \<rightharpoonup> nat option) \<times> pserver list) outcome" where
  "config_loop [] m srvs = Returns (m, srvs)"
| "config_loop ((path, None) # es) m srvs = Panics NilDeref"
| "config_loop ((path, Some f) # es) m srvs =
     config_loop es (m(path \<mapsto> Some (length srvs))) (srvs @ [(Server_init (json_server f))\<lparr>ps_Path := path\<rparr>])"

definition Config_init ::
    "(gostring \<times> srv_fields option) list option \<Rightarrow> ((gostring \<rightharpoonup> nat option) \<times> pserver list) outcome" where
  "Config_init servers =
     (case servers of None \<Rightarrow> Returns (Map.empty, []) | Some es \<Rightarrow> config_loop es Map.empty [])"

text \<open>The address a proxy listens on: a flag, or else what the configuration says.  The value the flag
  has from the environment when it is not passed is overwritten.\<close>

definition run_addr :: "cmd_env \<Rightarrow> gostring option \<Rightarrow> gostring \<Rightarrow> gostring" where
  "run_addr M flag config_addr =
     (let addr = (case flag of Some a \<Rightarrow> a | None \<Rightarrow> cm_getenv M (lit ''JTRPC_PROXY_ADDR''))
      in if flag = None then config_addr else addr)"

section \<open>A command through the proxy\<close>

lemma newClientReq_ok:
  assumes "12 + length pwd \<le> MaxHeadersLen"
  obtains r :: "'v request" where "newClientReq pwd path body = Returns r" "Path r = path" "Flags r = 0"
    "hdr_out kvs (rq_Headers r) = enc_kv (lit ''password'') pwd" "body_out (rq_Body r) = body"
proof -
  have l: "length (lit ''password'') = 8" by (simp add: lit_def)
  have s: "Headers_Set (lit ''password'') pwd (NewHeaders False) =
      Returns ((NewHeaders False)\<lparr>hbytes := enc_kv (lit ''password'') pwd\<rparr>, True)"
    using assms l by (simp add: Headers_Set_def NewHeaders_def place2_def enc_kv_eq Let_def)
  show ?thesis
    by (rule that, simp add: newClientReq_def NewRequest_def s Let_def)
      (simp_all add: SetBodyBytes_def hdr_out_def header_bytes_def Headers_Encode_def NewHeaders_def body_out_def)
qed

text \<open>A request with the password passes to the handler of its path.\<close>

lemma admin_dispatch:
  assumes "Path req = admin @ lit ''/servers/del''" and "rq_Headers req = Some (newHeaders (enc_kv (lit ''password'') (p_password P)))"
    and "length (p_password P) < 2 ^ 16"
  shows "px_middleware (adminHandler E) P req resp =
    obind (delServersHandler E P (SetContext (WithValue (rq_ctx req) ctxKey (Info (path_info None admin (lit ''/servers/del'')))) req) resp)
      (\<lambda>(P, req', resp). Returns (P, req'\<lparr>Path := Path req\<rparr>, resp))"
proof -
  have "decode (enc_kv (lit ''password'') (p_password P)) = ([(lit ''password'', p_password P)], [])"
    using decode_wire [of "[(lit ''password'', p_password P)]" "[]"] assms(3)
    by (simp add: wire_def fits_def lit_def)
  then have g: "GetChecked (lit ''password'') (newHeaders (enc_kv (lit ''password'') (p_password P))) = Returns (p_password P, True)"
    by (simp add: GetChecked_newHeaders)
  have s: "splitPath (admin @ lit ''/servers/del'') = (admin, lit ''/servers/del'')"
    by (simp add: splitPath_def admin_def lit_def slash_def index_byte_def)
  have r: "lit ''/servers/del'' \<noteq> lit ''/servers''" "lit ''/servers/del'' \<noteq> lit ''/servers/new''"
    by (simp_all add: lit_def)
  show ?thesis
    by (simp add: px_middleware_def adminHandler_def assms(1,2) s Let_def ctx_info_def SetContext_def g r path_info_def)
qed

lemma setAdminSrvrsErr_frame:
  "reqId (setAdminSrvrsErr J errs n resp) = reqId resp" "rflags (setAdminSrvrsErr J errs n resp) = rflags resp"
  by (auto simp: setAdminSrvrsErr_def SetStatusBodyBytes_def SetStatusBodyString_def
      SetBodyString_def Response_SetBodyBytes_def SetBodyReader_def SetBodyReadCloser_def Let_def split: sum.split)

definition del_path :: gostring where
  "del_path = lit ''/admin/servers/del''"

lemma del_path_split: "del_path = admin @ lit ''/servers/del''"
  by (simp add: del_path_def admin_def lit_def)

lemma del_handled:
  assumes "Path req = del_path" and "rq_Headers req = Some (newHeaders (enc_kv (lit ''password'') (p_password P)))"
    and "length (p_password P) < 2 ^ 16" and "rq_Body req = Some b" and "dec_paths (e_json E) b = Inr ps"
    and "p_servers P = Some m" and "px_middleware (adminHandler E) P req resp0 = Returns (P', req', resp)"
  obtains errs where "P' = P\<lparr>p_servers := Some (m |` (- set ps))\<rparr>"
    "dom errs = {p \<in> set ps. m p = None \<or> 2 \<le> count_list ps p}"
    "StatusCode resp = admin_status errs (length ps) (StatusCode resp0)"
    "reqId resp = reqId resp0" "rflags resp = rflags resp0"
proof -
  obtain mp e where d: "del_loop ps (Some m) Map.empty = (mp, e)"
    by (cases "del_loop ps (Some m) Map.empty")
  from del_loop_spec [OF d] have mp: "mp = Some (m |` (- set ps))"
    and e: "dom e = {p \<in> set ps. m p = None \<or> 2 \<le> count_list ps p}"
    by (auto simp: dom_def split: if_splits)
  have "P' = P\<lparr>p_servers := mp\<rparr>" "resp = setAdminSrvrsErr (e_json E) e (length ps) resp0"
    using assms(7) unfolding admin_dispatch [OF assms(1) [unfolded del_path_split] assms(2,3)]
    by (auto simp: delServersHandler_def decode_body_def SetContext_def assms(4-6) d)
  moreover have "finite (dom e)" by (simp add: e)
  ultimately show ?thesis
    using that [of e] mp e by (simp add: setAdminSrvrsErr_status setAdminSrvrsErr_frame)
qed

text \<open>Sending a command's request and waiting for the answer that is on its way.\<close>

lemma exchange_answer:
  assumes "utils_contract (cm_utils M)" and "\<not> c_isClosed c" and "room (c_out c) = None"
    and "reqId resp = reqCounter c + 1" and "\<not> hasStreamMsgFlag (rflags resp)" and "response_fits (kvs', resp)"
  obtains c' x where "exchange M orders kvs r (c, response_frame (kvs', resp) @ rest) = Returns (Inr x, (c', rest))"
    "out (c_out c') = out (c_out c) @ request_frame (kvs, r\<lparr>rq_id := reqCounter c + 1\<rparr>)"
    "StatusCode x = StatusCode resp" "snd (BodyBytes x) = response_body resp"
proof -
  obtain c1 where c1: "Client_Send (cm_utils M) kvs r c = (Inr (length (resp_chans c)), c1)"
    "out (c_out c1) = out (c_out c) @ request_frame (kvs, r\<lparr>rq_id := reqCounter c + 1\<rparr>)"
    "\<not> c_isClosed c1" "reqs c1 (reqCounter c + 1) = Some (length (resp_chans c))"
    "waiting (length (resp_chans c)) c1"
    by (rule Client_Send_waits [OF assms(1-3)])
  let ?x = "delivered (resp_chans c1 ! length (resp_chans c)) kvs' resp (length (strs c1))"
  obtain c' where c': "await_resp (cm_utils M) orders (length (resp_chans c)) c1 (response_frame (kvs', resp) @ rest) =
      Returns (c', rest, Some ?x)" "c_out c' = c_out c1"
    using await_resp_response [OF assms(6,5) _ c1(5,3)] c1(4) assms(4) by metis
  show ?thesis
    by (rule that [of ?x c']) (simp_all add: exchange_def c1(1,2) c' delivered_body [OF assms(6)])
qed

text \<open>C13: A command reaches the proxy and its answer comes back.  \<open>sendDelServers\<close> with the proxy's password
  sends one request; what the proxy's middleware and admin handler do with it is to remove
  exactly the servers under the paths; and when the answer they made arrives, the command ends
  with no error when every path was there, with a partial error when some were, and with an error
  that carries the answer's text when none were.\<close>

theorem command_through_proxy:
  fixes c :: "'v client"
  assumes "utils_contract (cm_utils M)" and "\<not> c_isClosed c" and "room (c_out c) = None"
    and "cm_paths M ps = Inr b" and "dec_paths (e_json E) b = Inr ps" and "p_servers P = Some m"
    and "12 + length (p_password P) \<le> MaxHeadersLen"
    and "req = served_request (reqCounter c + 1) addr 0 del_path (enc_kv (lit ''password'') (p_password P)) b"
    and "px_middleware (adminHandler E) P req (newResponse (reqCounter c + 1) 0 (Some req)) = Returns (P', req', resp)"
    and "response_fits (kvs', resp)"
  shows "\<exists>r c' errs. newClientReq (p_password P) del_path b = Returns r \<and>
    req = served_request (reqCounter c + 1) addr (Flags r) (Path r) (hdr_out kvs (rq_Headers r)) (body_out (rq_Body r)) \<and>
    sendDelServers M orders kvs (p_password P) ps (c, response_frame (kvs', resp) @ rest) =
      Returns (let st = admin_status errs (length ps) StatusOK
               in if st = StatusOK then (None, [])
                  else if st = StatusPartialError then (None, [PartialOp (response_body resp)])
                  else (Some (CmdCode st (response_body resp)), []), (c', rest)) \<and>
    out (c_out c') = out (c_out c) @ request_frame (kvs, (r :: 'v request)\<lparr>rq_id := reqCounter c + 1\<rparr>) \<and>
    p_servers P' = Some (m |` (- set ps)) \<and> dom errs = {p \<in> set ps. m p = None \<or> 2 \<le> count_list ps p}"
proof -
  obtain r :: "'v request" where r: "newClientReq (p_password P) del_path b = Returns r" "Path r = del_path" "Flags r = 0"
    "hdr_out kvs (rq_Headers r) = enc_kv (lit ''password'') (p_password P)" "body_out (rq_Body r) = b"
    by (rule newClientReq_ok [OF assms(7)])
  have q: "Path req = del_path" "rq_Headers req = Some (newHeaders (enc_kv (lit ''password'') (p_password P)))" "rq_Body req = Some b"
    by (simp_all add: assms(8) served_request_def newRequest_def)
  have l: "length (p_password P) < 2 ^ 16" using assms(7) by (simp add: MaxHeadersLen_def)
  obtain errs where e: "P' = P\<lparr>p_servers := Some (m |` (- set ps))\<rparr>"
    "dom errs = {p \<in> set ps. m p = None \<or> 2 \<le> count_list ps p}"
    "StatusCode resp = admin_status errs (length ps) StatusOK" "reqId resp = reqCounter c + 1" "rflags resp = 0"
    by (rule del_handled [OF q(1,2) l q(3) assms(5,6,9)]) (simp_all add: newResponse_def StatusOK_def)
  obtain c' x where x: "exchange M orders kvs r (c, response_frame (kvs', resp) @ rest) = Returns (Inr x, (c', rest))"
    "out (c_out c') = out (c_out c) @ request_frame (kvs, r\<lparr>rq_id := reqCounter c + 1\<rparr>)"
    "StatusCode x = StatusCode resp" "snd (BodyBytes x) = response_body resp"
    by (rule exchange_answer [OF assms(1-3) e(4) _ assms(10)]) (simp add: e(5) hasStreamMsgFlag_def)
  have "sendDelServers M orders kvs (p_password P) ps (c, response_frame (kvs', resp) @ rest) =
      Returns (change_result x, (c', rest))"
    using r(1) x(1) by (simp add: sendDelServers_def assms(4) change_servers_def del_path_def)
  then show ?thesis
    using r x e by (intro exI [of _ r] exI [of _ c'] exI [of _ errs]) (auto simp: change_result_def Let_def assms(8) StatusPartialError_def StatusOK_def)
qed

definition demo_cmd_env :: cmd_env where
  "demo_cmd_env = \<lparr>cm_utils = plain_utils, cm_json = demo_json, cm_paths = (\<lambda>ps. Inr [2]),
     cm_indent = Inr, cm_read = (\<lambda>p. Inl (lit ''no file'')), cm_getenv = (\<lambda>n. [])\<rparr>"

lemma demo_del:
  fixes req :: "nat preq"
  assumes "req = served_request 1 [] 0 del_path (enc_kv (lit ''password'') (lit ''pw'')) [2]"
  shows "px_middleware (adminHandler demo_env) (demo_proxy []) req (newResponse 1 0 (Some req)) =
    Returns (demo_proxy [], SetContext (WithValue Background ctxKey (Info (path_info None admin (lit ''/servers/del'')))) req,
      SetStatusBodyBytes StatusBadRequest (lit ''{}'') (newResponse 1 0 (Some req)))"
proof -
  have "Path req = admin @ lit ''/servers/del''"
    by (simp add: assms served_request_def newRequest_def del_path_split)
  moreover have "rq_Headers req = Some (newHeaders (enc_kv (lit ''password'') (p_password (demo_proxy []))))"
    "length (p_password (demo_proxy [])) < 2 ^ 16"
    by (simp_all add: assms served_request_def newRequest_def demo_proxy_def lit_def)
  moreover have "lit ''/b'' \<noteq> lit ''/a''" by (simp add: lit_def)
  ultimately show ?thesis
    by (subst admin_dispatch)
      (auto simp: assms delServersHandler_def decode_body_def SetContext_def served_request_def newRequest_def demo_env_def
        demo_json_def demo_proxy_def setAdminSrvrsErr_def)
qed

lemma command_through_proxy_witness:
  "let req = served_request 1 [] 0 del_path (enc_kv (lit ''password'') (lit ''pw'')) [2] :: nat preq;
     resp = SetStatusBodyBytes StatusBadRequest (lit ''{}'') (newResponse 1 0 (Some req)) :: nat presp
   in \<exists>c'. sendDelServers demo_cmd_env (\<lambda>_. ([], [])) [] (lit ''pw'') [lit ''/b''] (fresh_client, response_frame ([], resp) @ [9]) =
     Returns ((Some (CmdCode StatusBadRequest (response_body resp)), []), (c', [9]))"
  unfolding Let_def
proof -
  let ?req = "served_request 1 [] 0 del_path (enc_kv (lit ''password'') (lit ''pw'')) [2] :: nat preq"
  let ?resp = "SetStatusBodyBytes StatusBadRequest (lit ''{}'') (newResponse 1 0 (Some ?req)) :: nat presp"
  have pw: "p_password (demo_proxy []) = lit ''pw''" by (simp add: demo_proxy_def)
  have ab: "lit ''/b'' \<noteq> lit ''/a''" by (simp add: lit_def)
  have "\<exists>r c' errs. newClientReq (p_password (demo_proxy [])) del_path [2] = Returns r \<and>
    ?req = served_request (reqCounter fresh_client + 1) [] (Flags r) (Path r) (hdr_out [] (rq_Headers r)) (body_out (rq_Body r)) \<and>
    sendDelServers demo_cmd_env (\<lambda>_. ([], [])) [] (p_password (demo_proxy [])) [lit ''/b''] (fresh_client, response_frame ([], ?resp) @ [9]) =
      Returns (let st = admin_status errs (length [lit ''/b'']) StatusOK
               in if st = StatusOK then (None, [])
                  else if st = StatusPartialError then (None, [PartialOp (response_body ?resp)])
                  else (Some (CmdCode st (response_body ?resp)), []), (c', [9])) \<and>
    out (c_out c') = out (c_out fresh_client) @ request_frame ([], (r :: nat preq)\<lparr>rq_id := reqCounter fresh_client + 1\<rparr>) \<and>
    p_servers (demo_proxy []) = Some ([lit ''/a'' \<mapsto> Some 0] |` (- set [lit ''/b''])) \<and>
    dom errs = {p \<in> set [lit ''/b'']. [lit ''/a'' \<mapsto> Some (0 :: nat)] p = None \<or> 2 \<le> count_list [lit ''/b''] p}"
  proof (rule command_through_proxy [where E = demo_env and P = "demo_proxy []" and b = "[2]" and kvs' = "[]" and req = ?req and c = fresh_client and M = demo_cmd_env and resp = ?resp and m = "[lit ''/a'' \<mapsto> Some 0]" and ps = "[lit ''/b'']" and P' = "demo_proxy []" and addr = "[]" and rest = "[9]" and kvs = "[]"])
    show "px_middleware (adminHandler demo_env) (demo_proxy []) ?req (newResponse (reqCounter fresh_client + 1) 0 (Some ?req)) =
      Returns (demo_proxy [], SetContext (WithValue Background ctxKey (Info (path_info None admin (lit ''/servers/del'')))) ?req, ?resp)"
      using demo_del [OF refl] by (simp add: fresh_client_def)
    show "utils_contract (cm_utils demo_cmd_env)"
      by (simp add: demo_cmd_env_def plain.utils_contract_axioms)
  qed (simp_all add: demo_cmd_env_def fresh_client_def demo_env_def demo_json_def demo_proxy_def lit_def MaxHeadersLen_def
      response_fits_def SetStatusBodyBytes_def Response_SetBodyBytes_def SetBodyReader_def SetBodyReadCloser_def
      FromReader_def avail_def newResponse_def hdr_out_def header_bytes_def Headers_Encode_def newHeaders_def Let_def)
  then obtain r :: "nat preq" and c' errs where a: "sendDelServers demo_cmd_env (\<lambda>_. ([], [])) [] (lit ''pw'') [lit ''/b''] (fresh_client, response_frame ([], ?resp) @ [9]) =
      Returns (let st = admin_status errs (length [lit ''/b'']) StatusOK
               in if st = StatusOK then (None, [])
                  else if st = StatusPartialError then (None, [PartialOp (response_body ?resp)])
                  else (Some (CmdCode st (response_body ?resp)), []), (c', [9]))"
    "dom errs = {p \<in> set [lit ''/b'']. [lit ''/a'' \<mapsto> Some (0 :: nat)] p = None \<or> 2 \<le> count_list [lit ''/b''] p}"
    unfolding pw by blast
  have "dom errs = {lit ''/b''}" using a(2) ab by auto
  then have "admin_status errs (length [lit ''/b'']) StatusOK = StatusBadRequest" by (simp add: admin_status_def)
  then show "\<exists>c'. sendDelServers demo_cmd_env (\<lambda>_. ([], [])) [] (lit ''pw'') [lit ''/b''] (fresh_client, response_frame ([], ?resp) @ [9]) =
     Returns ((Some (CmdCode StatusBadRequest (response_body ?resp)), []), (c', [9]))"
    using a(1) by (auto simp: Let_def StatusBadRequest_def StatusOK_def StatusPartialError_def)
qed

section \<open>What the main function does\<close>

text \<open>Replacing excludes the other changes.  With the flag for replacing and one of the others, the
  command closes the connection and ends without sending anything; without a connection, which it
  only reports, it panics whatever it was asked for.\<close>

theorem run_client_refuses:
  assumes "fl_replace fl \<noteq> []" and "fl_new fl \<noteq> [] \<or> fl_del fl \<noteq> []"
  shows "run_client M orders kvs fl (Some c) = (case cmd_close M orders c of
      Returns _ \<Rightarrow> Returns Fatal | Panics p \<Rightarrow> Panics p | Blocks \<Rightarrow> Blocks) \<and>
    run_client M orders kvs fl None = Panics NilDeref"
  using assms by (cases "cmd_close M orders c") (simp_all add: run_client_def Let_def)

lemma run_client_refuses_witness:
  "let fl = \<lparr>fl_pwd = None, fl_get = True, fl_new = lit ''f'', fl_del = [], fl_replace = lit ''g''\<rparr>;
     c = (fresh_client, []); orders = (\<lambda>_. ([], []))
   in run_client demo_cmd_env orders [] fl (Some c) = (case cmd_close demo_cmd_env orders c of
      Returns _ \<Rightarrow> Returns Fatal | Panics p \<Rightarrow> Panics p | Blocks \<Rightarrow> Blocks) \<and>
    run_client demo_cmd_env orders [] fl None = Panics NilDeref"
  unfolding Let_def by (rule run_client_refuses) (simp_all add: lit_def)

lemma env_address_ignored: "run_addr M None config_addr = config_addr"
  by (simp add: run_addr_def)

section \<open>Starting well-formed\<close>

lemma config_loop_ok:
  assumes "distinct (map fst es)" and "\<forall>p\<in>set (map fst es). m p = None"
    and "\<forall>p i. m p = Some i \<longrightarrow> (\<exists>j<length srvs. i = Some j \<and> initialised (srvs ! j) \<and> ps_Path (srvs ! j) = p)"
    and "\<forall>s\<in>set srvs. srv_ok 0 0 s"
  shows "if \<exists>p. (p, None) \<in> set es then config_loop es m srvs = Panics NilDeref
    else \<exists>m' srvs'. config_loop es m srvs = Returns (m', srvs') \<and> dom m' = dom m \<union> set (map fst es) \<and>
      (\<forall>p i. m' p = Some i \<longrightarrow> (\<exists>j<length srvs'. i = Some j \<and> initialised (srvs' ! j) \<and> ps_Path (srvs' ! j) = p)) \<and>
      (\<forall>s\<in>set srvs'. srv_ok 0 0 s)"
  using assms
proof (induction es m srvs rule: config_loop.induct)
  case (3 path f es m srvs)
  let ?s = "(Server_init (json_server f))\<lparr>ps_Path := path\<rparr>"
  have i: "initialised ?s" "srv_ok 0 0 ?s"
    using Server_init_ok [of "json_server f"] json_server_ok(2) [of 0 0 f]
    by (simp_all add: initialised_def srv_ok_def Server_init_def Let_def json_server_def)
  have o: "\<forall>p j. (m(path \<mapsto> Some (length srvs))) p = Some j \<longrightarrow>
      (\<exists>k<length (srvs @ [?s]). j = Some k \<and> initialised ((srvs @ [?s]) ! k) \<and> ps_Path ((srvs @ [?s]) ! k) = p)"
  proof (intro allI impI)
    fix p j assume *: "(m(path \<mapsto> Some (length srvs))) p = Some j"
    show "\<exists>k<length (srvs @ [?s]). j = Some k \<and> initialised ((srvs @ [?s]) ! k) \<and> ps_Path ((srvs @ [?s]) ! k) = p"
    proof (cases "p = path")
      case True
      then show ?thesis using * i(1) by (intro exI [of _ "length srvs"]) simp
    next
      case False
      then obtain k where "k < length srvs" "j = Some k" "initialised (srvs ! k)" "ps_Path (srvs ! k) = p"
        using * 3(4) by auto
      then show ?thesis by (intro exI [of _ k]) (simp add: nth_append)
    qed
  qed
  have "if \<exists>p. (p, None) \<in> set es then config_loop es (m(path \<mapsto> Some (length srvs))) (srvs @ [?s]) = Panics NilDeref
    else \<exists>m' srvs'. config_loop es (m(path \<mapsto> Some (length srvs))) (srvs @ [?s]) = Returns (m', srvs') \<and>
      dom m' = dom (m(path \<mapsto> Some (length srvs))) \<union> set (map fst es) \<and>
      (\<forall>p i. m' p = Some i \<longrightarrow> (\<exists>j<length srvs'. i = Some j \<and> initialised (srvs' ! j) \<and> ps_Path (srvs' ! j) = p)) \<and>
      (\<forall>s\<in>set srvs'. srv_ok 0 0 s)"
    by (rule 3(1)) (use 3(2,3,5) i(2) o in \<open>auto simp del: srv_ok_nWaiting\<close>)
  then show ?case by (auto split: if_splits)
qed auto

text \<open>The proxy a configuration starts, with the password of the same file.\<close>

definition start_proxy :: "(gostring \<Rightarrow> conn list) \<Rightarrow> gostring \<Rightarrow> (gostring \<rightharpoonup> nat option) \<Rightarrow> pserver list \<Rightarrow> 'v proxy" where
  "start_proxy dials pwd m srvs =
     \<lparr>p_servers = mux_servers (Some m), p_srvs = srvs, p_clients = [], p_conns = [], p_timers = [],
      p_dials = dials, p_password = pwd\<rparr>"



end
