(* ===== verification/ProxyConns.thy ===== *)
theory ProxyConns
  imports ProxyForward
begin

text \<open>
  Which connections a handler of requests of the proxy (src/proxy/mux.go) touches: the tunnels of the
  servers, the connections their channels hold, and none of any set \<open>Q\<close> that is apart from those.
\<close>

section \<open>Connections apart from the servers\<close>

definition srv_apart :: "nat set \<Rightarrow> pserver \<Rightarrow> bool" where
  "srv_apart Q s \<longleftrightarrow> (\<forall>t. ps_tunnelConn s = Some (Some t) \<longrightarrow> t \<notin> Q) \<and>
     (\<forall>ks. ps_tch s = Some ks \<longrightarrow> set ks \<inter> Q = {})"

definition apart :: "nat set \<Rightarrow> 'v proxy \<Rightarrow> bool" where
  "apart Q P \<longleftrightarrow> (\<forall>k\<in>Q. k < length (p_conns P)) \<and> (\<forall>s\<in>set (p_srvs P). srv_apart Q s)"

text \<open>Nothing goes away, and what is apart stays apart and as it is.\<close>

definition leaves :: "nat set \<Rightarrow> 'v proxy \<Rightarrow> 'v proxy \<Rightarrow> bool" where
  "leaves Q P P' \<longleftrightarrow> length (p_srvs P) \<le> length (p_srvs P') \<and> length (p_conns P) \<le> length (p_conns P') \<and>
     (apart Q P \<longrightarrow> apart Q P' \<and> (\<forall>k\<in>Q. p_conns P' ! k = p_conns P ! k))"

lemma leaves_refl [simp]: "leaves Q P P"
  by (simp add: leaves_def)

lemma leaves_trans: "leaves Q P P1 \<Longrightarrow> leaves Q P1 P2 \<Longrightarrow> leaves Q P P2"
  by (auto simp: leaves_def)

lemma leaves_same [simp]:
  "leaves Q P (P\<lparr>p_clients := cs\<rparr>)" "leaves Q P (P\<lparr>p_timers := ts\<rparr>)" "leaves Q P (P\<lparr>p_dials := ds\<rparr>)"
  "leaves Q P (P\<lparr>p_servers := mp\<rparr>)"
  by (simp_all add: leaves_def apart_def)

lemma apart_srv: "apart Q P \<Longrightarrow> i < length (p_srvs P) \<Longrightarrow> srv_apart Q (p_srvs P ! i)"
  by (simp add: apart_def)

lemma leaves_upd_srv:
  assumes "i < length (p_srvs P)" and "srv_apart Q (p_srvs P ! i) \<Longrightarrow> srv_apart Q (f (p_srvs P ! i))"
  shows "leaves Q P (upd_srv i f P)"
  using assms apart_srv [OF _ assms(1), of Q] set_update_subset_insert [of "p_srvs P" i "f (p_srvs P ! i)"]
  by (auto simp: leaves_def apart_def upd_srv_def)

lemma srv_apart_upd [simp]:
  "srv_apart Q (s\<lparr>ps_nWaiting := n\<rparr>) = srv_apart Q s" "srv_apart Q (s\<lparr>ps_clients := cs\<rparr>) = srv_apart Q s"
  by (simp_all add: srv_apart_def)

lemma leaves_nWaiting: "i < length (p_srvs P) \<Longrightarrow> leaves Q P (upd_srv i (\<lambda>s. s\<lparr>ps_nWaiting := n s\<rparr>) P)"
  by (rule leaves_upd_srv) simp_all

lemma leaves_upd_conn:
  assumes "apart Q P \<Longrightarrow> t \<notin> Q"
  shows "leaves Q P (P\<lparr>p_conns := (p_conns P)[t := x]\<rparr>)"
proof -
  have "(p_conns P)[t := x] ! k = p_conns P ! k" if "apart Q P" "k \<in> Q" for k
    using assms that by (metis nth_list_update_neq)
  then show ?thesis by (simp add: leaves_def) (simp add: apart_def)
qed

text \<open>What the goroutines do that run while a handler waits.\<close>

definition env_apart :: "'v penv \<Rightarrow> bool" where
  "env_apart E \<longleftrightarrow> (\<forall>Q P. leaves Q P (e_others E P))"

section \<open>Connecting\<close>

lemma add_client_leaves: "add_client c r P = (P', j) \<Longrightarrow> leaves Q P P'"
  by (auto simp: add_client_def)

lemma Dial_leaves:
  assumes "Dial E addr P = (P', res)"
  shows "leaves Q P P'"
proof -
  have "leaves Q P P1" if "add_client c r (P\<lparr>p_dials := d\<rparr>) = (P1, j)" for c r d P1 j
    using leaves_trans [OF leaves_same(3) add_client_leaves [OF that]] .
  then show ?thesis using assms by (auto simp: Dial_def Let_def split: list.splits prod.splits sum.splits)
qed

lemma ask_tunnel_leaves:
  assumes "ask_tunnel E i P = Returns (P', e)" and "i < length (p_srvs P)"
  shows "leaves Q P P'"
proof (cases "\<exists>t. ps_tunnelConn (p_srvs P ! i) = Some (Some t)")
  case False
  then show ?thesis using assms(1) by (auto simp: ask_tunnel_def split: option.splits)
next
  case True
  then obtain t where t: "ps_tunnelConn (p_srvs P ! i) = Some (Some t)" by blast
  let ?P1 = "upd_srv i (\<lambda>s. s\<lparr>ps_nWaiting := ps_nWaiting s + 1\<rparr>) P"
  let ?P2 = "\<lambda>w. ?P1\<lparr>p_conns := (p_conns P)[t := (fst (p_conns P ! t), w)]\<rparr>"
  have 1: "leaves Q P ?P1" using assms(2) by (rule leaves_nWaiting)
  have tQ: "t \<notin> Q" if "apart Q ?P1"
  proof -
    have "srv_apart Q (p_srvs ?P1 ! i)" by (rule apart_srv [OF that]) (simp add: assms(2))
    then show ?thesis using t assms(2) by (simp add: srv_apart_def upd_srv_def)
  qed
  have 2: "leaves Q P (?P2 w)" for w
    by (rule leaves_trans [OF 1 leaves_upd_conn [of Q ?P1, simplified]])
      (use tQ in simp)
  have 3: "leaves Q P (upd_srv i (\<lambda>s. s\<lparr>ps_nWaiting := n s\<rparr>) (?P2 w))" for n w
    by (rule leaves_trans [OF 2 leaves_nWaiting]) (simp add: assms(2))
  obtain w n x where w: "WriteAll (e_utils E) (snd (p_conns P ! t)) (tunnel_request (ps_Path (p_srvs P ! i))) = (w, n, x)"
    by (cases "WriteAll (e_utils E) (snd (p_conns P ! t)) (tunnel_request (ps_Path (p_srvs P ! i)))")
  show ?thesis
  proof (cases x)
    case None
    then show ?thesis using assms(1) t w 2 by (auto simp: ask_tunnel_def Let_def)
  next
    case (Some y)
    then show ?thesis using assms(1) t w 3 by (auto simp: ask_tunnel_def Let_def)
  qed
qed

lemma await_tunnel_leaves:
  assumes "await_tunnel E i P = (P', res)" and "i < length (p_srvs P)"
  shows "leaves Q P P'"
proof -
  have t: "leaves Q P (upd_srv i (\<lambda>s. s\<lparr>ps_tch := Some ks\<rparr>) P)" if "ps_tch (p_srvs P ! i) = Some (k # ks)" for k ks
    using that by (intro leaves_upd_srv [OF assms(2)]) (auto simp: srv_apart_def)
  have "leaves Q P P1" if "ps_tch (p_srvs P ! i) = Some (k # ks)"
    "add_client c r (upd_srv i (\<lambda>s. s\<lparr>ps_tch := Some ks\<rparr>) P) = (P1, j)" for k ks c r P1 j
    using leaves_trans [OF t [OF that(1)] add_client_leaves [OF that(2)]] .
  with t show ?thesis using assms leaves_nWaiting [OF assms(2)]
    by (auto simp: await_tunnel_def Let_def split: list.splits option.splits prod.splits sum.splits)
qed

lemma newClient_leaves:
  assumes "newClient E i P = Returns (P', res)" and "i < length (p_srvs P)" and "env_apart E"
  shows "leaves Q P P'"
proof (cases "ps_Addr (p_srvs P ! i) = tunnel")
  case False
  then show ?thesis using assms(1) Dial_leaves by (metis newClient_def outcome.inject(1))
next
  case True
  then obtain P1 e where a: "ask_tunnel E i P = Returns (P1, e)"
    "(case e of Some x \<Rightarrow> Returns (P1, Inl x) | None \<Rightarrow> Returns (await_tunnel E i (e_others E P1))) = Returns (P', res)"
    using assms(1) by (auto simp: newClient_def outcome_simps)
  have 1: "leaves Q P P1" by (rule ask_tunnel_leaves [OF a(1) assms(2)])
  then have 2: "leaves Q P (e_others E P1)"
    using assms(3) leaves_trans by (metis env_apart_def)
  then have i: "i < length (p_srvs (e_others E P1))" using assms(2) by (simp add: leaves_def)
  show ?thesis
    using a(2) 1 leaves_trans [OF 2 await_tunnel_leaves [OF _ i]] by (auto split: option.splits)
qed

lemma pick_client_leaves:
  assumes "pick_client E i P = Returns (P', res)" and "i < length (p_srvs P)" and "env_apart E"
  shows "leaves Q P P'"
proof -
  have n: "leaves Q P P1" "i < length (p_srvs P1)" if "newClient E i P = Returns (P1, r)" for P1 r
    using newClient_leaves [OF that assms(2,3), of Q] assms(2) by (auto simp: leaves_def)
  have "leaves Q P (upd_srv i (\<lambda>s. s\<lparr>ps_clients := f s\<rparr>) P1)" if "newClient E i P = Returns (P1, r)" for P1 r f
    by (rule leaves_trans [OF n(1) [OF that] leaves_upd_srv [OF n(2) [OF that]]]) simp
  note u = this
  obtain cs where cs: "ps_clients (p_srvs P ! i) = Some cs"
    using assms(1) by (cases "ps_clients (p_srvs P ! i)") (simp_all add: pick_client_def)
  show ?thesis
  proof (cases "clientsSet_Get E cs")
    case None
    then obtain P1 r where r: "newClient E i P = Returns (P1, r)"
      "(case r of Inl e \<Rightarrow> Returns (P1, Inl e)
        | Inr j \<Rightarrow> Returns (upd_srv i (\<lambda>s. s\<lparr>ps_clients := map_option (insert j) (ps_clients s)\<rparr>) P1, Inr j)) = Returns (P', res)"
      using assms(1) cs by (auto simp: pick_client_def outcome_simps)
    then show ?thesis using n(1) u by (cases r) auto
  qed (use assms(1) cs in \<open>simp add: pick_client_def\<close>)
qed

lemma sendReq_loop_leaves:
  "\<lbrakk>sendReq_loop E n i req P = Returns (P', req', res); i < length (p_srvs P); env_apart E\<rbrakk> \<Longrightarrow> leaves Q P P'"
proof (induction n arbitrary: req P)
  case (Suc n)
  obtain P1 r where p: "pick_client E i P = Returns (P1, r)"
    using Suc.prems(1) by (auto simp: outcome_simps)
  have 1: "leaves Q P P1" by (rule pick_client_leaves [OF p Suc.prems(2,3)])
  then have i: "i < length (p_srvs P1)" using Suc.prems(2) by (simp add: leaves_def)
  have 2: "leaves Q P (P1\<lparr>p_clients := cs\<rparr>)" for cs by (rule leaves_trans [OF 1]) simp
  have 3: "leaves Q P P'" if "sendReq_loop E n i rq (P1\<lparr>p_clients := cs\<rparr>) = Returns (P', req', res)" for rq cs
    by (rule leaves_trans [OF 2 Suc.IH [OF that _ Suc.prems(3)]]) (simp add: i)
  show ?case using Suc.prems(1) p 1 2 3
    by (auto simp: Let_def split: sum.splits prod.splits option.splits if_splits)
qed simp

lemma await_at_leaves: "await_at E jq P = Returns (P', pr) \<Longrightarrow> leaves Q P P'"
  by (auto simp: await_at_def outcome_simps split: prod.splits)

section \<open>Handlers\<close>

definition keeps_apart :: "'x phandler \<Rightarrow> bool" where
  "keeps_apart h \<longleftrightarrow> (\<forall>Q P req resp P' req' resp'.
     (\<forall>mi i. ctx_info req = Some mi \<and> mi_server mi = Some i \<longrightarrow> i < length (p_srvs P)) \<longrightarrow>
     h P req resp = Returns (P', req', resp') \<longrightarrow> leaves Q P P')"

lemma keeps_apartD:
  "\<lbrakk>keeps_apart h; h P req resp = Returns (P', req', resp');
    \<And>mi i. ctx_info req = Some mi \<Longrightarrow> mi_server mi = Some i \<Longrightarrow> i < length (p_srvs P)\<rbrakk> \<Longrightarrow> leaves Q P P'"
  unfolding keeps_apart_def by blast

text \<open>A handler that sends a request on and then waits for the answer, or gives up.\<close>

lemma send_wait_leaves:
  assumes "obind (sendReq E req i P) (\<lambda>(P, req, r).
      case r of Inl e \<Rightarrow> F P req | Inr (j, q) \<Rightarrow> obind (await_at E (j, q) P) (\<lambda>(P, pr). G j q P req pr)) = Returns x"
    and "i < length (p_srvs P)" and "env_apart E"
    and "\<And>P rq. F P rq = Returns x \<Longrightarrow> leaves Q P (fst x)" and "\<And>j q P rq pr. G j q P rq pr = Returns x \<Longrightarrow> leaves Q P (fst x)"
  shows "leaves Q P (fst x)"
proof -
  obtain P1 req1 r where s: "sendReq E req i P = Returns (P1, req1, r)"
    "(case r of Inl e \<Rightarrow> F P1 req1 | Inr (j, q) \<Rightarrow> obind (await_at E (j, q) P1) (\<lambda>(P, pr). G j q P req1 pr)) = Returns x"
    using assms(1) by (auto simp: outcome_simps)
  have 1: "leaves Q P P1" using sendReq_loop_leaves [OF s(1) [unfolded sendReq_def] assms(2,3)] .
  show ?thesis
  proof (cases r)
    case (Inl e)
    then show ?thesis using s(2) leaves_trans [OF 1 assms(4)] by simp
  next
    case (Inr jq)
    then obtain P2 pr where a: "await_at E jq P1 = Returns (P2, pr)" "G (fst jq) (snd jq) P2 req1 pr = Returns x"
      using s(2) by (cases jq) (auto simp: outcome_simps)
    show ?thesis using leaves_trans [OF leaves_trans [OF 1 await_at_leaves [OF a(1)]] assms(5) [OF a(2)]] .
  qed
qed

lemma px_jtrpcHandler_apart:
  assumes "env_apart E" shows "keeps_apart (px_jtrpcHandler E)"
  unfolding keeps_apart_def
proof (intro allI impI)
  fix Q P req resp P' req' resp'
  assume i: "\<forall>mi i. ctx_info req = Some mi \<and> mi_server mi = Some i \<longrightarrow> i < length (p_srvs P)"
    and r: "px_jtrpcHandler E P req resp = Returns (P', req', resp')"
  show "leaves Q P P'"
  proof (cases "\<exists>mi i. ctx_info req = Some mi \<and> mi_server mi = Some i \<and> ps_clients (p_srvs P ! i) \<noteq> None")
    case False
    then show ?thesis using r by (fastforce simp: px_jtrpcHandler_def split: option.splits if_splits)
  next
    case True
    then obtain mi i where mi: "ctx_info req = Some mi" "mi_server mi = Some i" "ps_clients (p_srvs P ! i) \<noteq> None"
      by blast
    note r' = r [unfolded px_jtrpcHandler_def mi option.case if_not_P [OF mi(3)] Let_def]
    have "leaves Q P (fst (P', req', resp'))"
      by (rule send_wait_leaves [OF r' _ assms]) (use i mi in \<open>auto split: option.splits\<close>)
    then show ?thesis by simp
  qed
qed

lemma px_streamMiddleware_apart:
  assumes "env_apart E" shows "keeps_apart (px_streamMiddleware E (\<lambda>P req resp. Returns (P, req, resp)))"
  unfolding keeps_apart_def
proof (intro allI impI)
  fix Q P req resp P' req' resp'
  assume i: "\<forall>mi i. ctx_info req = Some mi \<and> mi_server mi = Some i \<longrightarrow> i < length (p_srvs P)"
    and r: "px_streamMiddleware E (\<lambda>P req resp. Returns (P, req, resp)) P req resp = Returns (P', req', resp')"
  show "leaves Q P P'"
  proof (cases "\<exists>mi i. ctx_info req = Some mi \<and> mi_server mi = Some i \<and> ps_clients (p_srvs P ! i) \<noteq> None")
    case False
    then show ?thesis using r by (fastforce simp: px_streamMiddleware_def split: option.splits if_splits)
  next
    case True
    then obtain mi i where mi: "ctx_info req = Some mi" "mi_server mi = Some i" "ps_clients (p_srvs P ! i) \<noteq> None"
      by blast
    note r' = r [unfolded px_streamMiddleware_def mi option.case if_not_P [OF mi(3)] Let_def]
    have "leaves Q P (fst (P', req', resp'))"
      by (rule send_wait_leaves [OF r' _ assms]) (use i mi in \<open>auto split: option.splits\<close>)
    then show ?thesis by simp
  qed
qed

lemma new_loop_apart:
  "new_loop l mp srvs errs = Returns (mp', srvs', errs') \<Longrightarrow> \<exists>ts. srvs' = srvs @ ts \<and> (\<forall>s\<in>set ts. srv_apart Q s)"
proof (induction l arbitrary: mp srvs errs)
  case (Cons x l)
  have s: "srv_apart Q (Server_init (json_server f))" for f
    by (simp add: srv_apart_def Server_init_def json_server_def Let_def newClientsSet_def)
  obtain p sv where x: "x = (p, sv)" by (cases x)
  show ?case using Cons s x by (fastforce simp: outcome_simps split: if_splits option.splits)
qed simp

lemma replace_loop_apart:
  "replace_loop l m srvs errs = Returns (m', srvs', errs') \<Longrightarrow> \<exists>ts. srvs' = srvs @ ts \<and> (\<forall>s\<in>set ts. srv_apart Q s)"
proof (induction l arbitrary: m srvs errs)
  case (Cons x l)
  have s: "srv_apart Q (Server_init (json_server f))" "srv_apart Q (json_server f)" for f
    by (simp_all add: srv_apart_def Server_init_def json_server_def Let_def newClientsSet_def)
  obtain p sv where x: "x = (p, sv)" by (cases x)
  show ?case using Cons s x by (fastforce simp: outcome_simps split: if_splits option.splits)
qed simp

lemma leaves_added:
  assumes "\<exists>ts. srvs = p_srvs P @ ts \<and> (\<forall>s\<in>set ts. srv_apart Q s)"
  shows "leaves Q P (P\<lparr>p_servers := mp, p_srvs := srvs\<rparr>)"
  using assms by (auto simp: leaves_def apart_def)

lemma adminHandler_apart: "keeps_apart (adminHandler E)"
proof -
  have new: "leaves Q P P'" if "newServersHandler E P req resp = Returns (P', req', resp')" for Q P req resp P' req' resp'
    using that leaves_added [OF new_loop_apart, of _ _ P]
    by (auto simp: newServersHandler_def decode_body_def Let_def outcome_simps split: option.splits sum.splits)
  have del: "leaves Q P P'" if "delServersHandler E P req resp = Returns (P', req', resp')" for Q P req resp P' req' resp'
    using that by (auto simp: delServersHandler_def decode_body_def outcome_simps leaves_def apart_def
        split: option.splits sum.splits prod.splits)
  have repl: "leaves Q P P'" if "replaceServersHandler E P req resp = Returns (P', req', resp')" for Q P req resp P' req' resp'
    using that leaves_added [OF replace_loop_apart, of _ _ P]
    by (auto simp: replaceServersHandler_def decode_body_def Let_def outcome_simps split: option.splits sum.splits)
  show ?thesis
    unfolding keeps_apart_def adminHandler_def using new del repl
    by (auto simp: outcome_simps dest: getServersHandler_state split: option.splits if_splits)
qed

lemma px_middleware_apart:
  assumes "keeps_apart h" and "proxy_ok P" and "px_middleware h P req resp = Returns (P', req', resp')"
  shows "leaves Q P P'"
proof -
  obtain first rest where sp: "splitPath (Path req) = (first, rest)" by (cases "splitPath (Path req)")
  have call: "leaves Q P S" if
    "h P (SetContext (WithValue (rq_ctx req) ctxKey (Info (path_info sv first rest))) req) resp = Returns (S, r, s)"
    "\<forall>i. sv = Some i \<longrightarrow> i < length (p_srvs P)" for S r s sv
    by (rule keeps_apartD [OF assms(1) that(1)]) (use that(2) in \<open>auto simp: ctx_info_def SetContext_def path_info_def\<close>)
  have "i < length (p_srvs P)" if "(case p_servers P of None \<Rightarrow> None | Some mp \<Rightarrow> mp first) = Some (Some i)" for i
    using proxy_ok_index [OF assms(2), of first i] that by (cases "p_servers P") (auto simp: map_load_def)
  then show ?thesis using assms(3) sp call
    by (auto simp: px_middleware_def Let_def outcome_simps split: if_splits option.splits)
qed

text \<open>Every handler the multiplexer gives leaves alone what is apart from the servers.\<close>

lemma request_leaves:
  assumes "proxy_ok P" and "env_apart E"
    and "chain_handler (px_mux E) p (the (getHandler (px_mux E) p)) P req resp = Returns (P', req', resp') \<or>
      chain_stream (px_mux E) p (\<lambda>P req resp. Returns (P, req, resp)) P req resp = Returns (P', req', resp')"
  shows "leaves Q P P'"
  using assms px_middleware_apart [OF adminHandler_apart]
    px_middleware_apart [OF px_jtrpcHandler_apart] px_middleware_apart [OF px_streamMiddleware_apart]
  by (auto simp: px_chain split: if_splits)

end
