(* ===== verification/ProxyServe.thy ===== *)
theory ProxyServe
  imports ProxyListener ProxyCmd EndToEnd ServerRun ProxyConns
begin

text \<open>
  \<open>proxy/server.go\<close> and the life of a proxy: \<open>RunServer\<close>, and the threads it starts.

  \<^item> \<open>RunServer\<close> is the program up to its last three statements, the three loops: \<open>pln.Run\<close>, \<open>http.Serve\<close> and
    \<open>srvr.Serve\<close>.
  \<^item> \<open>run_step\<close> interleaves them with the handlers they start, one operation at a time; \<open>run_reach\<close> is
    what they can reach from where \<open>RunServer\<close> left off.  A connection is looked at when its first byte
    is there; a connection that \<open>runTunnel\<close> opened comes in like any other.
  \<^item> The invariant \<open>run_ok\<close> says where every connection is, includes \<open>proxy_ok\<close> of ProxyState, and
    says that the connections handed to the two servers are apart from those the handlers of
    tunnels and requests use (\<open>apart\<close> of ProxyConns).
  \<^item> The loop of \<open>Serve\<close> over the listener of the proxy is \<open>Server_Serve\<close> of ServerRun.
\<close>

section \<open>The handlers of tunnels\<close>

text \<open>A handler of connection \<open>k\<close>: the proxy stays well-formed, and no other connection is touched.\<close>

definition only :: "nat \<Rightarrow> 'v proxy \<Rightarrow> 'v proxy \<Rightarrow> bool" where
  "only k P P' \<longleftrightarrow> (proxy_ok P \<longrightarrow> proxy_ok P') \<and> length (p_conns P') = length (p_conns P) \<and>
     p_servers P' = p_servers P \<and> length (p_srvs P') = length (p_srvs P) \<and>
     (\<forall>n. n \<noteq> k \<longrightarrow> p_conns P' ! n = p_conns P ! n) \<and> (\<forall>Q. k \<notin> Q \<longrightarrow> apart Q P \<longrightarrow> apart Q P')"

lemma only_leaves: "only k P P' \<Longrightarrow> k \<notin> Q \<Longrightarrow> leaves Q P P'"
  by (auto simp: only_def leaves_def)

lemma only_refl [simp]: "only k P P"
  by (simp add: only_def)

lemma only_trans: "only k P Q \<Longrightarrow> only k Q R \<Longrightarrow> only k P R"
  by (auto simp: only_def)

lemma only_upd_conn [simp]: "only k P (upd_conn k f P)"
  using proxy_ok_conns(1) [of P "(p_conns P)[k := f (p_conns P ! k)]"] by (auto simp: only_def upd_conn_def apart_def)

lemma only_write_conn: "write_conn k b P = (Q, e) \<Longrightarrow> only k P Q"
  by (auto simp: write_conn_def split: prod.splits)

lemma only_writeErrMsg [simp]: "only k P (writeErrMsg k msg P)"
  using only_write_conn by (metis prod.collapse writeErrMsg_def)

lemma only_upd_srv:
  assumes "i < length (p_srvs P)"
    and "proxy_ok P \<Longrightarrow> srv_ok (length (p_clients P)) (length (p_conns P)) (f (p_srvs P ! i))"
    and "initialised (p_srvs P ! i) \<Longrightarrow> initialised (f (p_srvs P ! i)) \<and>
      ps_Addr (f (p_srvs P ! i)) = ps_Addr (p_srvs P ! i)"
    and "\<And>Q. k \<notin> Q \<Longrightarrow> srv_apart Q (p_srvs P ! i) \<Longrightarrow> srv_apart Q (f (p_srvs P ! i))"
  shows "only k P (upd_srv i f P)"
proof -
  have "apart Q (upd_srv i f P)" if "k \<notin> Q" "apart Q P" for Q
    using leaves_upd_srv [OF assms(1), of Q f] assms(4) that by (simp add: leaves_def)
  then show ?thesis using upd_srv_ok(1) [OF _ assms(1), of f] assms(2,3) by (auto simp: only_def)
qed

lemma only_set_tunnel:
  assumes "i < length (p_srvs P)" and "\<forall>t. v = Some t \<longrightarrow> t = k \<and> k < length (p_conns P)"
  shows "only k P (set_tunnel i v P)"
  unfolding set_tunnel_def
  by (rule only_upd_srv [OF assms(1)])
    (use assms(2) proxy_ok_srv [OF _ assms(1)] in \<open>auto simp: srv_ok_def initialised_def srv_apart_def\<close>)

lemma only_offer:
  assumes "i < length (p_srvs P)" and "ps_tch (p_srvs P ! i) = Some ks" and "length ks < tch_cap"
    and "k < length (p_conns P)"
  shows "only k P (upd_srv i (\<lambda>s. s\<lparr>ps_tch := Some (ks @ [k])\<rparr>) P)"
  by (rule only_upd_srv [OF assms(1)])
    (use assms(2-4) proxy_ok_srv [OF _ assms(1)] in \<open>auto simp: srv_ok_def initialised_def srv_apart_def\<close>)

lemma only_waiting:
  assumes "i < length (p_srvs P)"
  shows "only k P (upd_srv i (\<lambda>s. s\<lparr>ps_nWaiting := n s\<rparr>) P)"
  by (rule only_upd_srv [OF assms]) (use proxy_ok_srv [OF _ assms] in \<open>auto simp: initialised_def\<close>)

lemma handleTunnelConnect_only:
  assumes "handleTunnelConnect k P = Returns (P', kept)" and "proxy_ok P" and "k < length (p_conns P)"
  shows "only k P P'"
proof -
  have err: "only k P (writeErrMsg k msg (upd_conn k f P))" for f msg
    by (rule only_trans [of _ _ "upd_conn k f P"]) simp_all
  have ok: "only k P Q" "only k P (set_tunnel i None Q)" if "write_conn k b (set_tunnel i (Some k) (upd_conn k f P)) = (Q, e)"
    "map_load (p_servers P) path = Some (Some i)" for Q i b f e path
  proof -
    have i: "i < length (p_srvs P)" using proxy_ok_index [OF assms(2) that(2)] .
    have 1: "only k (upd_conn k f P) (set_tunnel i (Some k) (upd_conn k f P))"
      by (rule only_set_tunnel) (use i assms(3) in simp_all)
    show 2: "only k P Q"
      by (rule only_trans [OF only_upd_conn only_trans [OF 1 only_write_conn [OF that(1)]]])
    have "only k Q (set_tunnel i None Q)"
      by (rule only_set_tunnel) (use 2 i in \<open>simp_all add: only_def\<close>)
    with 2 show "only k P (set_tunnel i None Q)" by (rule only_trans)
  qed
  show ?thesis
    using assms(1) unfolding handleTunnelConnect_def Let_def
    by (auto intro: err dest: ok split: sum.splits prod.splits option.splits if_splits)
qed

lemma tunnel_conn_offer_only:
  assumes "tunnel_conn_offer k P = Returns (P', kept)" and "proxy_ok P" and "k < length (p_conns P)"
  shows "only k P P'"
proof -
  have err: "only k P (writeErrMsg k msg (upd_conn k f P))" for f msg
    by (rule only_trans [of _ _ "upd_conn k f P"]) simp_all
  let ?W = "\<lambda>i f. upd_srv i (\<lambda>s. s\<lparr>ps_nWaiting := ps_nWaiting s - 1\<rparr>) (upd_conn k f P)"
  have w: "only k P (?W i f)" if "map_load (p_servers P) path = Some (Some i)" for i f path
    by (rule only_trans [OF only_upd_conn only_waiting]) (use proxy_ok_index [OF assms(2) that] in simp)
  have werr: "only k P (writeErrMsg k msg (?W i f))" if "map_load (p_servers P) path = Some (Some i)" for i f path msg
    by (rule only_trans [OF w [OF that] only_writeErrMsg])
  have off: "only k P (upd_srv i (\<lambda>s. s\<lparr>ps_tch := Some (ks @ [k])\<rparr>) (?W i f))"
    if "map_load (p_servers P) path = Some (Some i)" "ps_tch (p_srvs P ! i) = Some ks" "length ks < tch_cap" for i f path ks
  proof -
    have i: "i < length (p_srvs P)" using proxy_ok_index [OF assms(2) that(1)] .
    show ?thesis
      by (rule only_trans [OF w [OF that(1)] only_offer]) (use i that assms(3) in \<open>simp_all add: upd_srv_def\<close>)
  qed
  show ?thesis
    using assms(1) unfolding tunnel_conn_offer_def Let_def
    by (auto intro: err werr off split: sum.splits prod.splits option.splits if_splits)
qed

lemma handleTunnelConn_only:
  assumes "handleTunnelConn k P = Returns (P', kept)" and "proxy_ok P" and "k < length (p_conns P)"
  shows "only k P P'"
proof -
  obtain Q ok where q: "tunnel_conn_offer k P = Returns (Q, ok)"
    "(P', kept) = (if ok then tunnel_conn_ready k Q else (Q, False))"
    using assms(1) by (auto simp: handleTunnelConn_def outcome_simps)
  have "only k P Q" by (rule tunnel_conn_offer_only [OF q(1) assms(2,3)])
  moreover have "only k Q P'"
    using q(2) only_write_conn [of k "[tunnelInitial]" Q]
    by (auto simp: tunnel_conn_ready_def split: if_splits prod.splits)
  ultimately show ?thesis by (rule only_trans)
qed

section \<open>Starting\<close>

record config =
  cf_Addr :: gostring
  cf_Servers :: "(gostring \<times> srv_fields option) list option"
  cf_Password :: gostring
  cf_Path :: gostring
  cf_TunnelAddr :: gostring
  cf_TunnelPwd :: gostring

definition zero_config :: config where
  "zero_config = \<lparr>cf_Addr = [], cf_Servers = None, cf_Password = [], cf_Path = [], cf_TunnelAddr = [], cf_TunnelPwd = []\<rparr>"

datatype start_error = ConfigError gostring | ListenError gostring | TunnelError tunnel_error

text \<open>The configuration file, if one is named.\<close>

definition read_config :: "cmd_env \<Rightarrow> (bytes \<Rightarrow> gostring + config) \<Rightarrow> gostring \<Rightarrow> gostring + config" where
  "read_config M dec configPath =
     (if configPath \<noteq> [] then (case cm_read M configPath of Inl e \<Rightarrow> Inl e | Inr b \<Rightarrow> dec b)
      else Inr zero_config)"

text \<open>
  \<open>RunServer\<close> up to the three loops it ends with: the configuration, the address, the multiplexer and
  its server, the listener, the tunnel.  An error ends the program.
\<close>

definition start_with :: "cmd_env \<Rightarrow> (gostring \<Rightarrow> gostring option) \<Rightarrow> (gostring \<Rightarrow> conn list) \<Rightarrow> 'u \<Rightarrow> 'x pval penv \<Rightarrow>
    gostring option \<Rightarrow> config \<Rightarrow> (start_error + 'x pstate \<times> 'u listener) outcome" where
  "start_with M listen dials ch0 E addr_flag cf =
     obind (Config_init (cf_Servers cf)) (\<lambda>(m, srvs).
       let addr = run_addr M addr_flag (cf_Addr cf);
           P = start_proxy dials (cf_Password cf) m srvs
       in case listen addr of
            Some e \<Rightarrow> Returns (Inl (ListenError e))
          | None \<Rightarrow>
              let L = NewProxyListener ch0 True
              in if cf_TunnelAddr cf \<noteq> []
                 then (case tunnelTo E (cf_TunnelAddr cf) (cf_Path cf) (cf_TunnelPwd cf) (P, L) of
                         (PL, Some e) \<Rightarrow> Returns (Inl (TunnelError e))
                       | (PL, None) \<Rightarrow> Returns (Inr PL))
                 else Returns (Inr (P, L)))"

definition RunServer :: "cmd_env \<Rightarrow> (bytes \<Rightarrow> gostring + config) \<Rightarrow> (gostring \<Rightarrow> gostring option) \<Rightarrow>
    (gostring \<Rightarrow> conn list) \<Rightarrow> 'u \<Rightarrow> 'x pval penv \<Rightarrow> gostring option \<Rightarrow> gostring \<Rightarrow>
    (start_error + 'x pstate \<times> 'u listener) outcome" where
  "RunServer M dec listen dials ch0 E addr_flag configPath =
     (case read_config M dec configPath of
        Inl e \<Rightarrow> Returns (Inl (ConfigError e))
      | Inr cf \<Rightarrow> start_with M listen dials ch0 E addr_flag cf)"

lemma proxy_ok_more_conns: "proxy_ok P \<Longrightarrow> proxy_ok (P\<lparr>p_conns := p_conns P @ cs\<rparr>)"
  by (auto simp: proxy_ok_def intro: srv_ok_mono)

lemma tunnelTo_ok:
  assumes "tunnelTo E addr path pwd (P, L) = ((P', L'), e)" and "proxy_ok P"
  shows "proxy_ok P' \<and> httpCh L' = httpCh L \<and> jtrpcCh L' = jtrpcCh L"
proof -
  have "proxy_ok (P\<lparr>p_dials := d, p_conns := p_conns P @ [x]\<rparr>)" for d x
    using proxy_ok_more_conns [of "P\<lparr>p_dials := d\<rparr>" "[x]"] assms(2) by simp
  then show ?thesis
    using assms unfolding tunnelTo_def Let_def by (auto split: list.splits prod.splits option.splits)
qed

text \<open>The members of a JSON object have different keys once they are in a map.\<close>

definition config_ok :: "config \<Rightarrow> bool" where
  "config_ok cf \<longleftrightarrow> (case cf_Servers cf of None \<Rightarrow> True | Some es \<Rightarrow> distinct (map fst es))"

lemma Config_init_ok:
  assumes "Config_init (cf_Servers cf) = Returns (m, srvs)" and "config_ok cf"
  shows "proxy_ok (start_proxy dials pwd m srvs)"
proof (cases "cf_Servers cf")
  case None
  then show ?thesis using assms by (auto simp: Config_init_def proxy_ok_def start_proxy_def mux_servers_def)
next
  case (Some es)
  then show ?thesis
    using config_loop_ok [of es Map.empty "[]"] assms
    by (auto simp: Config_init_def config_ok_def proxy_ok_def start_proxy_def mux_servers_def split: if_splits)
      (blast | fastforce)+
qed

lemma start_with_ok:
  fixes P :: "'x pstate"
  assumes "start_with M listen dials ch0 E flag cf = Returns (Inr (P, L))" and "config_ok cf"
  shows "proxy_ok P \<and> httpCh L = ch0 \<and> jtrpcCh L = ch0"
proof -
  obtain m srvs where i: "Config_init (cf_Servers cf) = Returns (m, srvs)"
    using assms(1) unfolding start_with_def by (auto simp: outcome_simps)
  let ?P = "start_proxy dials (cf_Password cf) m srvs :: 'x pstate" and ?L = "NewProxyListener ch0 True"
  have P0: "proxy_ok ?P" by (rule Config_init_ok [OF i assms(2)])
  have "httpCh ?L = ch0" "jtrpcCh ?L = ch0" by (simp_all add: NewProxyListener_def)
  moreover have "P = ?P \<and> L = ?L \<or>
      (\<exists>e. tunnelTo E (cf_TunnelAddr cf) (cf_Path cf) (cf_TunnelPwd cf) (?P, ?L) = ((P, L), e))"
    using assms(1) i unfolding start_with_def
    by (auto simp: Let_def split: option.splits if_splits prod.splits)
  ultimately show ?thesis using P0 tunnelTo_ok by metis
qed

lemma RunServer_ok:
  fixes P :: "'x pstate"
  assumes "RunServer M dec listen dials ch0 E flag path = Returns (Inr (P, L))"
    and "\<And>b cf. dec b = Inr cf \<Longrightarrow> config_ok cf"
  shows "proxy_ok P \<and> httpCh L = ch0 \<and> jtrpcCh L = ch0"
proof -
  obtain cf where r: "read_config M dec path = Inr cf" and w: "start_with M listen dials ch0 E flag cf = Returns (Inr (P, L))"
    using assms(1) unfolding RunServer_def by (auto split: sum.splits)
  have "config_ok cf"
    using r assms(2) by (auto simp: read_config_def zero_config_def config_ok_def split: if_splits sum.splits)
  then show ?thesis by (rule start_with_ok [OF w])
qed

section \<open>The queues of connections\<close>

text \<open>
  What \<open>utils.UChan\<close>, an unbounded channel, is relied on for: it gives what was put in in order, takes
  nothing once it is closed, and does not block then.  \<open>contents\<close> is what is in it; closing
  may throw the rest away.
\<close>

definition uchan_fifo :: "'u uchan \<Rightarrow> ('u \<Rightarrow> nat list) \<Rightarrow> bool" where
  "uchan_fifo C contents \<longleftrightarrow>
     (\<forall>u k. \<not> uc_IsClosed C u \<longrightarrow> snd (uc_Send C k u) \<and> \<not> uc_IsClosed C (fst (uc_Send C k u)) \<and>
        contents (fst (uc_Send C k u)) = contents u @ [k]) \<and>
     (\<forall>u k. uc_IsClosed C u \<longrightarrow> uc_Send C k u = (u, False)) \<and>
     (\<forall>u u' k. uc_Recv C u = Returns (u', Some k) \<longrightarrow> contents u = k # contents u' \<and> uc_IsClosed C u' = uc_IsClosed C u) \<and>
     (\<forall>u u'. uc_Recv C u = Returns (u', None) \<longrightarrow> uc_IsClosed C u \<and> uc_IsClosed C u' \<and> contents u = [] \<and> contents u' = []) \<and>
     (\<forall>u. uc_IsClosed C u \<longrightarrow> (\<exists>x. uc_Recv C u = Returns x)) \<and>
     (\<forall>u. uc_IsClosed C (uc_Close C u) \<and> (\<exists>rest. contents u = contents (uc_Close C u) @ rest))"

lemma fifoD:
  assumes "uchan_fifo C contents"
  shows "\<not> uc_IsClosed C u \<Longrightarrow> uc_Send C k u = (u', ok) \<Longrightarrow> ok \<and> \<not> uc_IsClosed C u' \<and> contents u' = contents u @ [k]"
    and "uc_IsClosed C u \<Longrightarrow> uc_Send C k u = (u, False)"
    and "uc_Recv C u = Returns (v, Some k) \<Longrightarrow> contents u = k # contents v \<and> uc_IsClosed C v = uc_IsClosed C u"
    and "uc_Recv C u = Returns (v, None) \<Longrightarrow> uc_IsClosed C u \<and> uc_IsClosed C v \<and> contents u = [] \<and> contents v = []"
    and "uc_IsClosed C u \<Longrightarrow> \<exists>x. uc_Recv C u = Returns x"
    and "uc_IsClosed C (uc_Close C u)" and "\<exists>rest. contents u = contents (uc_Close C u) @ rest"
proof -
  note f = assms [unfolded uchan_fifo_def]
  show "\<not> uc_IsClosed C u \<Longrightarrow> uc_Send C k u = (u', ok) \<Longrightarrow> ok \<and> \<not> uc_IsClosed C u' \<and> contents u' = contents u @ [k]"
    using f [THEN conjunct1, rule_format, of u k] by simp
  show "uc_IsClosed C u \<Longrightarrow> uc_Send C k u = (u, False)"
    using f [THEN conjunct2, THEN conjunct1] by blast
  show "uc_Recv C u = Returns (v, Some k) \<Longrightarrow> contents u = k # contents v \<and> uc_IsClosed C v = uc_IsClosed C u"
    using f [THEN conjunct2, THEN conjunct2, THEN conjunct1] by blast
  show "uc_Recv C u = Returns (v, None) \<Longrightarrow> uc_IsClosed C u \<and> uc_IsClosed C v \<and> contents u = [] \<and> contents v = []"
    using f [THEN conjunct2, THEN conjunct2, THEN conjunct2, THEN conjunct1] by blast
qed (use assms in \<open>simp_all add: uchan_fifo_def\<close>)

text \<open>What becomes of a connection whose first byte is looked at.\<close>

lemma pl_handle_result:
  assumes fifo: "uchan_fifo C contents" and h: "pl_handle C dl late k (P, L) = ((P', L'), rt)"
    and k: "k < length (p_conns P)"
  shows "only k P P' \<and> p_srvs P' = p_srvs P \<and>
    (if rt = ToJtrpc then contents (jtrpcCh L') = contents (jtrpcCh L) @ [k] \<and> \<not> uc_IsClosed C (jtrpcCh L) \<and>
        \<not> uc_IsClosed C (jtrpcCh L') \<and> p_conns P' ! k = p_conns P ! k \<and> (\<exists>r. fst (p_conns P ! k) = jtrpcInitial # r)
     else jtrpcCh L' = jtrpcCh L) \<and>
    (if rt = ToHTTP then contents (httpCh L') = contents (httpCh L) @ [k] \<and> \<not> uc_IsClosed C (httpCh L) \<and>
        \<not> uc_IsClosed C (httpCh L') \<and> p_conns P' ! k = p_conns P ! k \<and>
        (\<exists>b r. fst (p_conns P ! k) = b # r \<and> b \<notin> {jtrpcInitial, tunnelInitial, tunnelConnectInitial})
     else httpCh L' = httpCh L)"
proof -
  obtain b w where bw: "p_conns P ! k = (b, w)" by (cases "p_conns P ! k")
  have nil: "ReadFull (Suc 0) [] = Inl EOF" and cons: "ReadFull (Suc 0) (x # r) = Inr ([x], r)" for x r
    by (simp_all add: ReadFull_def)
  have same: "upd_conn k (\<lambda>(_, w). (pending (newConn r [x]), w)) P = P" if "b = x # r" for x r
    using upd_conn_same [OF k] bw that by (simp add: newConn_pending)
  have srvs: "p_srvs (upd_conn k f P) = p_srvs P" for f by (simp add: upd_conn_def)
  have snd: "if ok then \<not> uc_IsClosed C u \<and> \<not> uc_IsClosed C u' \<and> contents u' = contents u @ [k] else u' = u"
    if "uc_Send C k u = (u', ok)" for u u' ok
    using fifoD(1,2) [OF fifo, of u k] that by (cases "uc_IsClosed C u") auto
  show ?thesis
  proof (cases b)
    case Nil
    then show ?thesis using h bw srvs by (auto simp: pl_handle_def nil split: if_splits)
  next
    case (Cons x r)
    obtain uj okj where j: "uc_Send C k (jtrpcCh L) = (uj, okj)" by (cases "uc_Send C k (jtrpcCh L)")
    obtain uh okh where t: "uc_Send C k (httpCh L) = (uh, okh)" by (cases "uc_Send C k (httpCh L)")
    have "((P', L'), rt) =
      (if readTimeout L \<and> (\<not> fst dl \<or> late) then ((P, L), Closed)
       else if readTimeout L \<and> \<not> snd dl then ((upd_conn k (\<lambda>(_, w). (r, w)) P, L), Closed)
       else if x = jtrpcInitial then ((P, L\<lparr>jtrpcCh := uj\<rparr>), if okj then ToJtrpc else Closed)
       else if x = tunnelInitial then ((P, L), GoTunnelConn)
       else if x = tunnelConnectInitial then ((P, L), GoTunnelConnect)
       else ((P, L\<lparr>httpCh := uh\<rparr>), if okh then ToHTTP else Closed))"
      using h bw Cons j t same [OF Cons] by (auto simp: pl_handle_def cons Let_def split: if_splits)
    then show ?thesis
      using bw Cons snd [OF j] snd [OF t] srvs by (auto split: if_splits)
  qed
qed

section \<open>The running proxy\<close>

text \<open>
  \<open>r_seen\<close> are the connections whose first byte was looked at, in that order, with the bytes they bring
  and where they went; \<open>r_jtrpc\<close> and \<open>r_http\<close> those the two servers have accepted.
\<close>

record ('x, 'u) running =
  r_proxy :: "'x pstate"
  r_ln :: "'u listener"
  r_seen :: "(nat \<times> bytes \<times> route) list"
  r_jtrpc :: "nat list"
  r_http :: "nat list"

text \<open>
  The threads of a proxy: a connection comes in and \<open>handle\<close> looks at it, one of the servers accepts one,
  a handler of tunnels or of requests runs, the listener closes.
\<close>

inductive run_step :: "'u uchan \<Rightarrow> ('u \<Rightarrow> nat list) \<Rightarrow> 'x pval penv \<Rightarrow> ('x, 'u) running \<Rightarrow> ('x, 'u) running \<Rightarrow> bool"
  for C contents E where
  rs_conn: "pl_handle C dl late (length (p_conns P)) (P\<lparr>p_conns := p_conns P @ [(b, w)]\<rparr>, L) = ((P', L'), rt) \<Longrightarrow>
    run_step C contents E \<lparr>r_proxy = P, r_ln = L, r_seen = as, r_jtrpc = js, r_http = hs\<rparr>
      \<lparr>r_proxy = P', r_ln = L', r_seen = as @ [(length (p_conns P), b, rt)], r_jtrpc = js, r_http = hs\<rparr>"
| rs_jtrpc: "JtRPCListener_Accept C L = Returns (L', Inr k) \<Longrightarrow>
    run_step C contents E \<lparr>r_proxy = P, r_ln = L, r_seen = as, r_jtrpc = js, r_http = hs\<rparr>
      \<lparr>r_proxy = P, r_ln = L', r_seen = as, r_jtrpc = js @ [k], r_http = hs\<rparr>"
| rs_http: "HTTPListener_Accept C L = Returns (L', Inr k) \<Longrightarrow>
    run_step C contents E \<lparr>r_proxy = P, r_ln = L, r_seen = as, r_jtrpc = js, r_http = hs\<rparr>
      \<lparr>r_proxy = P, r_ln = L', r_seen = as, r_jtrpc = js, r_http = hs @ [k]\<rparr>"
| rs_connect: "(k, b, GoTunnelConnect) \<in> set as \<Longrightarrow> handleTunnelConnect k P = Returns (P', kept) \<Longrightarrow>
    run_step C contents E \<lparr>r_proxy = P, r_ln = L, r_seen = as, r_jtrpc = js, r_http = hs\<rparr>
      \<lparr>r_proxy = P', r_ln = L, r_seen = as, r_jtrpc = js, r_http = hs\<rparr>"
| rs_tunnel: "(k, b, GoTunnelConn) \<in> set as \<Longrightarrow> handleTunnelConn k P = Returns (P', kept) \<Longrightarrow>
    run_step C contents E \<lparr>r_proxy = P, r_ln = L, r_seen = as, r_jtrpc = js, r_http = hs\<rparr>
      \<lparr>r_proxy = P', r_ln = L, r_seen = as, r_jtrpc = js, r_http = hs\<rparr>"
| rs_request: "chain_handler (px_mux E) p (the (getHandler (px_mux E) p)) P req resp = Returns (P', req', resp') \<or>
      chain_stream (px_mux E) p (\<lambda>P req resp. Returns (P, req, resp)) P req resp = Returns (P', req', resp') \<Longrightarrow>
    run_step C contents E \<lparr>r_proxy = P, r_ln = L, r_seen = as, r_jtrpc = js, r_http = hs\<rparr>
      \<lparr>r_proxy = P', r_ln = L, r_seen = as, r_jtrpc = js, r_http = hs\<rparr>"
| rs_close: "run_step C contents E \<lparr>r_proxy = P, r_ln = L, r_seen = as, r_jtrpc = js, r_http = hs\<rparr>
      \<lparr>r_proxy = P, r_ln = fst (pl_closeWithErr C err L), r_seen = as, r_jtrpc = js, r_http = hs\<rparr>"

inductive run_reach :: "'u uchan \<Rightarrow> ('u \<Rightarrow> nat list) \<Rightarrow> 'x pval penv \<Rightarrow> 'x pstate \<times> 'u listener \<Rightarrow> ('x, 'u) running \<Rightarrow> bool"
  for C contents E where
  rr_start: "run_reach C contents E (P, L) \<lparr>r_proxy = P, r_ln = L, r_seen = [], r_jtrpc = [], r_http = []\<rparr>"
| rr_next: "run_reach C contents E PL R \<Longrightarrow> run_step C contents E R R' \<Longrightarrow> run_reach C contents E PL R'"

text \<open>Where the connections are that went one way: accepted, waiting, or lost when the queue closed.\<close>

definition went :: "route \<Rightarrow> (nat \<times> bytes \<times> route) list \<Rightarrow> nat list" where
  "went rt as = map fst (filter (\<lambda>(k, b, r). r = rt) as)"

definition queue_ok :: "'u uchan \<Rightarrow> ('u \<Rightarrow> nat list) \<Rightarrow> 'u \<Rightarrow> nat list \<Rightarrow> nat list \<Rightarrow> bool" where
  "queue_ok C contents u took sent \<longleftrightarrow>
     (\<exists>lost. sent = took @ contents u @ lost \<and> (uc_IsClosed C u \<or> lost = []))"

text \<open>The connections that went to one of the two servers.\<close>

definition handed :: "(nat \<times> bytes \<times> route) list \<Rightarrow> nat set" where
  "handed as = set (went ToJtrpc as) \<union> set (went ToHTTP as)"

definition run_ok :: "'u uchan \<Rightarrow> ('u \<Rightarrow> nat list) \<Rightarrow> ('x, 'u) running \<Rightarrow> bool" where
  "run_ok C contents R \<longleftrightarrow> proxy_ok (r_proxy R) \<and> apart (handed (r_seen R)) (r_proxy R) \<and> distinct (map fst (r_seen R)) \<and>
     (\<forall>x\<in>set (r_seen R). fst x < length (p_conns (r_proxy R))) \<and>
     queue_ok C contents (jtrpcCh (r_ln R)) (r_jtrpc R) (went ToJtrpc (r_seen R)) \<and>
     queue_ok C contents (httpCh (r_ln R)) (r_http R) (went ToHTTP (r_seen R)) \<and>
     (\<forall>(k, b, rt)\<in>set (r_seen R).
        (rt = ToJtrpc \<longrightarrow> (\<exists>r. b = jtrpcInitial # r) \<and>
           (k \<in> set (contents (jtrpcCh (r_ln R))) \<longrightarrow> fst (p_conns (r_proxy R) ! k) = b)) \<and>
        (rt = ToHTTP \<longrightarrow> (\<exists>x r. b = x # r \<and> x \<notin> {jtrpcInitial, tunnelInitial, tunnelConnectInitial}) \<and>
           (k \<in> set (contents (httpCh (r_ln R))) \<longrightarrow> fst (p_conns (r_proxy R) ! k) = b)))"

lemma went_snoc [simp]: "went rt (as @ [(k, b, rt')]) = went rt as @ (if rt' = rt then [k] else [])"
  by (simp add: went_def)

lemma went_in: "k \<in> set (went rt as) \<longleftrightarrow> (\<exists>b. (k, b, rt) \<in> set as)"
  by (force simp: went_def)

lemma queue_ok_waits: "queue_ok C contents u js sent \<Longrightarrow> k \<in> set (contents u) \<Longrightarrow> k \<in> set sent"
  by (auto simp: queue_ok_def)

lemma queue_ok_recv:
  "uchan_fifo C contents \<Longrightarrow> uc_Recv C u = Returns (v, Some k) \<Longrightarrow> queue_ok C contents u js sent \<Longrightarrow>
    queue_ok C contents v (js @ [k]) sent \<and> set (contents v) \<subseteq> set (contents u)"
  using fifoD(3) [of C contents u v k] by (auto simp: queue_ok_def)

lemma queue_ok_close:
  assumes "uchan_fifo C contents" and "queue_ok C contents u js sent"
  shows "queue_ok C contents (uc_Close C u) js sent \<and> set (contents (uc_Close C u)) \<subseteq> set (contents u)"
proof -
  obtain rest where "contents u = contents (uc_Close C u) @ rest" using fifoD(7) [OF assms(1)] by blast
  with assms(2) fifoD(6) [OF assms(1), of u] show ?thesis by (auto simp: queue_ok_def)
qed

lemma queue_ok_send:
  "queue_ok C contents u js sent \<Longrightarrow> contents v = contents u @ [k] \<Longrightarrow> \<not> uc_IsClosed C u \<Longrightarrow> \<not> uc_IsClosed C v \<Longrightarrow>
    queue_ok C contents v js (sent @ [k])"
  by (auto simp: queue_ok_def)

lemma run_okD:
  assumes "run_ok C contents R"
  shows "queue_ok C contents (jtrpcCh (r_ln R)) (r_jtrpc R) (went ToJtrpc (r_seen R))"
    and "queue_ok C contents (httpCh (r_ln R)) (r_http R) (went ToHTTP (r_seen R))"
    and "proxy_ok (r_proxy R)"
  using assms by (simp_all add: run_ok_def)

text \<open>A change of the queues that adds nothing, and a change of the proxy that leaves them alone.\<close>

lemma run_ok_queues:
  assumes "run_ok C contents \<lparr>r_proxy = P, r_ln = L, r_seen = as, r_jtrpc = js, r_http = hs\<rparr>"
    and "queue_ok C contents (jtrpcCh L') js' (went ToJtrpc as) \<and> set (contents (jtrpcCh L')) \<subseteq> set (contents (jtrpcCh L))"
    and "queue_ok C contents (httpCh L') hs' (went ToHTTP as) \<and> set (contents (httpCh L')) \<subseteq> set (contents (httpCh L))"
  shows "run_ok C contents \<lparr>r_proxy = P, r_ln = L', r_seen = as, r_jtrpc = js', r_http = hs'\<rparr>"
  using assms by (auto simp: run_ok_def)

lemma run_ok_proxy:
  assumes ok: "run_ok C contents \<lparr>r_proxy = P, r_ln = L, r_seen = as, r_jtrpc = js, r_http = hs\<rparr>"
    and "proxy_ok P'" and l: "leaves (handed as) P P'"
  shows "run_ok C contents \<lparr>r_proxy = P', r_ln = L, r_seen = as, r_jtrpc = js, r_http = hs\<rparr>"
proof -
  have "set (contents (jtrpcCh L)) \<union> set (contents (httpCh L)) \<subseteq> handed as"
    using ok by (auto simp: run_ok_def handed_def dest: queue_ok_waits)
  moreover have "\<forall>k\<in>handed as. p_conns P' ! k = p_conns P ! k" "apart (handed as) P'"
    "length (p_conns P) \<le> length (p_conns P')"
    using ok l by (auto simp: run_ok_def leaves_def)
  ultimately show ?thesis
    using ok assms(2) by (auto simp: run_ok_def subset_iff intro: less_le_trans)
qed

lemma seen_route:
  assumes "distinct (map fst as)" and "(k, b, rt) \<in> set as" and "rt \<noteq> ToJtrpc" and "rt \<noteq> ToHTTP"
  shows "k \<notin> handed as"
proof
  assume "k \<in> handed as"
  then obtain b' rt' where "(k, b', rt') \<in> set as" "rt' \<noteq> rt"
    using assms(3,4) by (auto simp: handed_def went_in)
  then show False using assms(1,2) by (metis eq_key_imp_eq_value prod.inject)
qed

lemma run_ok_tunnel:
  assumes ok: "run_ok C contents \<lparr>r_proxy = P, r_ln = L, r_seen = as, r_jtrpc = js, r_http = hs\<rparr>"
    and k: "(k, b, rt) \<in> set as" "rt \<noteq> ToJtrpc" "rt \<noteq> ToHTTP"
    and o: "proxy_ok P \<Longrightarrow> k < length (p_conns P) \<Longrightarrow> only k P P'"
  shows "run_ok C contents \<lparr>r_proxy = P', r_ln = L, r_seen = as, r_jtrpc = js, r_http = hs\<rparr>"
proof (rule run_ok_proxy [OF ok])
  have "proxy_ok P" "k < length (p_conns P)" "distinct (map fst as)" using ok k(1) by (auto simp: run_ok_def)
  then have "only k P P'" "proxy_ok P" "k \<notin> handed as" using o seen_route [OF _ k] by auto
  then show "proxy_ok P'" "leaves (handed as) P P'" by (auto simp: only_def intro: only_leaves)
qed

text \<open>A connection that comes in is none of the servers'.\<close>

lemma apart_new:
  assumes "proxy_ok P" and "apart Q P" and "p_srvs P' = p_srvs P" and "length (p_conns P') = Suc (length (p_conns P))"
    and "Q' \<subseteq> insert (length (p_conns P)) Q"
  shows "apart Q' P'"
  unfolding apart_def
proof (intro conjI ballI)
  fix k assume "k \<in> Q'"
  then have "k = length (p_conns P) \<or> k \<in> Q" using assms(5) by blast
  then show "k < length (p_conns P')" using assms(2,4) by (auto simp: apart_def less_Suc_eq)
next
  fix s assume "s \<in> set (p_srvs P')"
  then have "srv_apart Q s" "srv_ok (length (p_clients P)) (length (p_conns P)) s"
    using assms(1-3) by (auto simp: apart_def proxy_ok_def)
  then show "srv_apart Q' s" using assms(5) by (fastforce simp: srv_apart_def srv_ok_def)
qed

lemma run_ok_conn:
  assumes fifo: "uchan_fifo C contents"
    and ok: "run_ok C contents \<lparr>r_proxy = P, r_ln = L, r_seen = as, r_jtrpc = js, r_http = hs\<rparr>"
    and h: "pl_handle C dl late (length (p_conns P)) (P\<lparr>p_conns := p_conns P @ [(b, w)]\<rparr>, L) = ((P', L'), rt)"
  shows "run_ok C contents \<lparr>r_proxy = P', r_ln = L', r_seen = as @ [(length (p_conns P), b, rt)], r_jtrpc = js, r_http = hs\<rparr>"
proof -
  let ?k = "length (p_conns P)" and ?P = "P\<lparr>p_conns := p_conns P @ [(b, w)]\<rparr>"
  have Pk: "p_conns ?P ! ?k = (b, w)" and k: "?k < length (p_conns ?P)" by simp_all
  note res = pl_handle_result [OF fifo h k, unfolded Pk fst_conv]
  have o: "only ?k ?P P'" and sv: "p_srvs P' = p_srvs P"
    and j: "if rt = ToJtrpc then contents (jtrpcCh L') = contents (jtrpcCh L) @ [?k] \<and> \<not> uc_IsClosed C (jtrpcCh L) \<and>
        \<not> uc_IsClosed C (jtrpcCh L') \<and> p_conns P' ! ?k = (b, w) \<and> (\<exists>r. b = jtrpcInitial # r)
     else jtrpcCh L' = jtrpcCh L"
    and t: "if rt = ToHTTP then contents (httpCh L') = contents (httpCh L) @ [?k] \<and> \<not> uc_IsClosed C (httpCh L) \<and>
        \<not> uc_IsClosed C (httpCh L') \<and> p_conns P' ! ?k = (b, w) \<and>
        (\<exists>x r. b = x # r \<and> x \<notin> {jtrpcInitial, tunnelInitial, tunnelConnectInitial})
     else httpCh L' = httpCh L"
    using res by auto
  have P: "proxy_ok P" and lt: "\<And>x. x \<in> set as \<Longrightarrow> fst x < ?k" and d: "distinct (map fst as)"
    using ok by (auto simp: run_ok_def)
  have P': "proxy_ok P'" "length (p_conns P') = Suc ?k" "\<And>k. k < ?k \<Longrightarrow> p_conns P' ! k = p_conns P ! k"
    using o proxy_ok_more_conns [OF P, of "[(b, w)]"] by (auto simp: only_def nth_append)
  have qj: "queue_ok C contents (jtrpcCh L') js (went ToJtrpc (as @ [(?k, b, rt)]))"
    using ok j queue_ok_send [of C contents "jtrpcCh L" js "went ToJtrpc as" "jtrpcCh L'" ?k]
    by (auto simp: run_ok_def split: if_splits)
  have qh: "queue_ok C contents (httpCh L') hs (went ToHTTP (as @ [(?k, b, rt)]))"
    using ok t queue_ok_send [of C contents "httpCh L" hs "went ToHTTP as" "httpCh L'" ?k]
    by (auto simp: run_ok_def split: if_splits)
  have old: "(rt' = ToJtrpc \<longrightarrow> (\<exists>r. b' = jtrpcInitial # r) \<and>
        (k \<in> set (contents (jtrpcCh L')) \<longrightarrow> fst (p_conns P' ! k) = b')) \<and>
      (rt' = ToHTTP \<longrightarrow> (\<exists>x r. b' = x # r \<and> x \<notin> {jtrpcInitial, tunnelInitial, tunnelConnectInitial}) \<and>
        (k \<in> set (contents (httpCh L')) \<longrightarrow> fst (p_conns P' ! k) = b'))" if x: "(k, b', rt') \<in> set as" for k b' rt'
  proof -
    have "k < ?k" using lt [OF x] by simp
    moreover from this have "k \<in> set (contents (jtrpcCh L')) \<Longrightarrow> k \<in> set (contents (jtrpcCh L))"
      "k \<in> set (contents (httpCh L')) \<Longrightarrow> k \<in> set (contents (httpCh L))"
      using j t by (auto split: if_splits)
    ultimately show ?thesis using ok x P'(3) by (fastforce simp: run_ok_def)
  qed
  have new: "?k \<notin> fst ` set as" using lt by fastforce
  have ap: "apart (handed (as @ [(?k, b, rt)])) P'"
    by (rule apart_new [OF P _ sv P'(2)]) (use ok in \<open>auto simp: run_ok_def handed_def\<close>)
  show ?thesis
    unfolding run_ok_def using P' ap qj qh d new lt old j t
    by (auto simp: less_Suc_eq split: if_splits)
qed

lemma pl_closeWithErr_queues:
  "jtrpcCh (fst (pl_closeWithErr C err L)) \<in> {jtrpcCh L, uc_Close C (jtrpcCh L)} \<and>
   httpCh (fst (pl_closeWithErr C err L)) \<in> {httpCh L, uc_Close C (httpCh L)}"
  by (simp add: pl_closeWithErr_def closeHttp_def closeJtrpc_def Let_def)

lemma Accept_queues:
  "JtRPCListener_Accept C L = Returns (L', Inr k) \<Longrightarrow>
     uc_Recv C (jtrpcCh L) = Returns (jtrpcCh L', Some k) \<and> httpCh L' = httpCh L"
  "HTTPListener_Accept C L = Returns (L', Inr k) \<Longrightarrow>
     uc_Recv C (httpCh L) = Returns (httpCh L', Some k) \<and> jtrpcCh L' = jtrpcCh L"
proof -
  show "uc_Recv C (jtrpcCh L) = Returns (jtrpcCh L', Some k) \<and> httpCh L' = httpCh L"
    if "JtRPCListener_Accept C L = Returns (L', Inr k)"
    using that by (cases "uc_Recv C (jtrpcCh L)") (auto simp: JtRPCListener_Accept_def Let_def split: option.splits)
  show "uc_Recv C (httpCh L) = Returns (httpCh L', Some k) \<and> jtrpcCh L' = jtrpcCh L"
    if "HTTPListener_Accept C L = Returns (L', Inr k)"
    using that by (cases "uc_Recv C (httpCh L)") (auto simp: HTTPListener_Accept_def Let_def split: option.splits)
qed

lemma run_step_ok:
  assumes "run_step C contents E R R'" and fifo: "uchan_fifo C contents" and env: "env_ok E" "env_apart E"
    and "run_ok C contents R"
  shows "run_ok C contents R'"
  using assms(1)
proof cases
  case (rs_conn dl late P b w L P' L' rt as js hs)
  show ?thesis unfolding rs_conn(2)
    by (rule run_ok_conn [OF fifo _ rs_conn(3)]) (rule assms(5) [unfolded rs_conn(1)])
next
  case (rs_jtrpc L L' k P as js hs)
  then have ok: "run_ok C contents \<lparr>r_proxy = P, r_ln = L, r_seen = as, r_jtrpc = js, r_http = hs\<rparr>" using assms(5) by simp
  note a = Accept_queues(1) [OF rs_jtrpc(3)]
  show ?thesis unfolding rs_jtrpc(2)
    by (rule run_ok_queues [OF ok])
      (use run_okD(2) [OF ok] a queue_ok_recv [OF fifo conjunct1 [OF a]] run_okD(1) [OF ok] in simp_all)
next
  case (rs_http L L' k P as js hs)
  then have ok: "run_ok C contents \<lparr>r_proxy = P, r_ln = L, r_seen = as, r_jtrpc = js, r_http = hs\<rparr>" using assms(5) by simp
  note a = Accept_queues(2) [OF rs_http(3)]
  show ?thesis unfolding rs_http(2)
    by (rule run_ok_queues [OF ok])
      (use run_okD(1) [OF ok] a queue_ok_recv [OF fifo conjunct1 [OF a]] run_okD(2) [OF ok] in simp_all)
next
  case (rs_connect k b as P P' kept L js hs)
  show ?thesis unfolding rs_connect(2)
    by (rule run_ok_tunnel [OF _ rs_connect(3)])
      (rule assms(5) [unfolded rs_connect(1)], simp, simp, rule handleTunnelConnect_only [OF rs_connect(4)])
next
  case (rs_tunnel k b as P P' kept L js hs)
  show ?thesis unfolding rs_tunnel(2)
    by (rule run_ok_tunnel [OF _ rs_tunnel(3)])
      (rule assms(5) [unfolded rs_tunnel(1)], simp, simp, rule handleTunnelConn_only [OF rs_tunnel(4)])
next
  case (rs_request p P req resp P' req' resp' L as js hs)
  then have ok: "run_ok C contents \<lparr>r_proxy = P, r_ln = L, r_seen = as, r_jtrpc = js, r_http = hs\<rparr>" using assms(5) by simp
  then have P: "proxy_ok P" using run_okD(3) by fastforce
  show ?thesis unfolding rs_request(2)
    by (rule run_ok_proxy [OF ok request_keeps [OF P env(1) rs_request(3)] request_leaves [OF P env(2) rs_request(3)]])
next
  case (rs_close P L as js hs err)
  then have ok: "run_ok C contents \<lparr>r_proxy = P, r_ln = L, r_seen = as, r_jtrpc = js, r_http = hs\<rparr>" using assms(5) by simp
  show ?thesis unfolding rs_close(2)
    by (rule run_ok_queues [OF ok])
      (use run_okD(1,2) [OF ok] pl_closeWithErr_queues [of C err L] queue_ok_close [OF fifo] in \<open>fastforce+\<close>)
qed

lemma run_reach_ok:
  assumes "run_reach C contents E (P0, L0) R" and "uchan_fifo C contents" and "env_ok E" and "env_apart E"
    and "proxy_ok P0" and "contents (jtrpcCh L0) = []" and "contents (httpCh L0) = []"
  shows "run_ok C contents R"
  using assms(1)
proof (induction "(P0, L0)" R rule: run_reach.induct)
  case rr_start
  then show ?case using assms(5-7) by (simp add: run_ok_def queue_ok_def went_def handed_def apart_def srv_apart_def)
next
  case (rr_next R R')
  then show ?case using run_step_ok [OF _ assms(2-4)] by blast
qed

lemma went_distinct:
  assumes "distinct (map fst as)"
  shows "distinct (went ToJtrpc as @ went ToHTTP as)"
proof -
  have "k \<notin> set (went ToHTTP as)" if "k \<in> set (went ToJtrpc as)" for k
    using that assms unfolding went_in by (metis eq_key_imp_eq_value prod.inject route.distinct(3,9) route.distinct)
  then show ?thesis using assms by (auto simp: distinct_map_filter went_def)
qed

lemma demo_fifo: "uchan_fifo demo_uchan snd"
  by (auto simp: uchan_fifo_def demo_uchan_def split: list.splits if_splits)

lemma demo_env_apart: "env_apart demo_env"
  by (simp add: env_apart_def demo_env_def)

lemma demo_start:
  "RunServer demo_cmd_env (\<lambda>_. Inr zero_config) (\<lambda>_. None) (\<lambda>_. []) (False, []) demo_env None [] =
    Returns (Inr (start_proxy (\<lambda>_. []) [] Map.empty [], NewProxyListener (False, []) True))"
  by (simp add: RunServer_def read_config_def start_with_def zero_config_def Config_init_def Let_def)

lemma zero_config_ok: "config_ok zero_config"
  by (simp add: config_ok_def zero_config_def)


definition demo_running :: "(nat, bool \<times> nat list) running" where
  "demo_running = \<lparr>r_proxy = (start_proxy (\<lambda>_. []) [] Map.empty [])\<lparr>p_conns := [] @ [(initialBytesVer @ [9], \<lparr>out = [], room = None\<rparr>)]\<rparr>,
     r_ln = (NewProxyListener (False, []) True)\<lparr>jtrpcCh := (False, [0])\<rparr>,
     r_seen = [] @ [(0, initialBytesVer @ [9], ToJtrpc)], r_jtrpc = [], r_http = []\<rparr>"

lemma demo_reach: "run_reach demo_uchan snd demo_env
    (start_proxy (\<lambda>_. []) [] Map.empty [], NewProxyListener (False, []) True) demo_running"
proof (rule rr_next [OF rr_start])
  let ?w = "\<lparr>out = [], room = None\<rparr> :: conn_out" and ?P = "start_proxy (\<lambda>_. []) [] Map.empty [] :: nat pstate"
  have n: "length (p_conns ?P) = 0" by (simp add: start_proxy_def)
  have h: "pl_handle demo_uchan (True, True) False (length (p_conns ?P))
      (?P\<lparr>p_conns := p_conns ?P @ [(initialBytesVer @ [9], ?w)]\<rparr>, NewProxyListener (False, []) True) =
    ((?P\<lparr>p_conns := [] @ [(initialBytesVer @ [9], ?w)]\<rparr>,
      (NewProxyListener (False, []) True)\<lparr>jtrpcCh := (False, [0])\<rparr>), ToJtrpc)"
    by (subst handle_routes [OF demo_uchan_ok, where b = 0 and rest = "drop 1 initialBytesVer @ [9]" and w = ?w])
      (simp_all add: start_proxy_def demo_uchan_def NewProxyListener_def initialBytesVer_def)
  show "run_step demo_uchan snd demo_env \<lparr>r_proxy = ?P, r_ln = NewProxyListener (False, []) True, r_seen = [],
      r_jtrpc = [], r_http = []\<rparr> demo_running"
    using rs_conn [OF h, of snd demo_env "[]" "[]" "[]"] unfolding demo_running_def n .
qed



lemma demo_accept: "JtRPCListener_Accept demo_uchan (r_ln demo_running) =
    Returns ((NewProxyListener (False, []) True), Inr 0)"
  by (simp add: JtRPCListener_Accept_def demo_running_def demo_uchan_def NewProxyListener_def)


section \<open>The end\<close>

lemma accept_closed:
  assumes fifo: "uchan_fifo C contents" and c: "uc_IsClosed C (jtrpcCh L)"
    and e: "errVal L = Some e" and n: "length (contents (jtrpcCh L)) < n"
  shows "\<exists>L'. serve_rounds (JtRPCListener_Accept C) n L = (contents (jtrpcCh L), Returns (L', Some e))"
  using c e n
proof (induction n arbitrary: L)
  case (Suc n)
  obtain u x where r: "uc_Recv C (jtrpcCh L) = Returns (u, x)" using fifoD(5) [OF fifo Suc.prems(1)] by auto
  show ?case
  proof (cases x)
    case None
    then have "contents (jtrpcCh L) = []" using fifoD(4) [OF fifo] r by blast
    moreover have "JtRPCListener_Accept C L = Returns (L\<lparr>jtrpcCh := u\<rparr>, Inl e)"
      using r None Suc.prems(2) by (simp add: JtRPCListener_Accept_def pl_Error_def Let_def)
    ultimately show ?thesis by simp
  next
    case (Some k)
    let ?L = "L\<lparr>jtrpcCh := u\<rparr>"
    have u: "contents (jtrpcCh L) = k # contents u" "uc_IsClosed C u"
      using fifoD(3) [OF fifo] r Some Suc.prems(1) by auto
    then obtain L' where "serve_rounds (JtRPCListener_Accept C) n ?L = (contents u, Returns (L', Some e))"
      using Suc.IH [of ?L] Suc.prems(2,3) by auto
    moreover have "JtRPCListener_Accept C L = Returns (?L, Inr k)"
      using r Some by (simp add: JtRPCListener_Accept_def Let_def)
    ultimately show ?thesis using u(1) by simp
  qed
qed simp

text \<open>C21: The end of a server.  When the listener of a proxy closes, because its own \<open>Accept\<close> failed or
  because it was told to, the loop of the jtrpc server still starts a handler for every connection
  that waits in its queue, in order, and then returns the reason: it needs one round for each of
  them and one more.\<close>

theorem serve_returns:
  assumes "uchan_fifo C contents" and "\<not> l_closed L" and "pl_closeWithErr C err L = (L1, ok)"
    and "length (contents (jtrpcCh L1)) < n"
  shows "\<exists>L'. Server_Serve (JtRPCListener_Accept C) n s L1 =
    (Serve_limits s, contents (jtrpcCh L1), Returns (L', Some (case err of None \<Rightarrow> LnClosed | Some e \<Rightarrow> e)))"
proof -
  have L1: "uc_IsClosed C (jtrpcCh L1)" "errVal L1 = Some (case err of None \<Rightarrow> LnClosed | Some e \<Rightarrow> e)"
    using assms(2,3) fifoD(6) [OF assms(1)]
    by (auto simp: pl_closeWithErr_def closeHttp_def closeJtrpc_def Let_def split: option.split)
  show ?thesis
    using accept_closed [OF assms(1) L1 assms(4)] by (simp add: Server_Serve_def)
qed

lemma serve_returns_witness:
  "let C = demo_uchan; contents = snd; L = (NewProxyListener (False, []) True)\<lparr>jtrpcCh := (False, [3, 4])\<rparr>;
       L1 = fst (pl_closeWithErr C (Some AcceptFailed) L); s = NewServer :: (nat, nat) server
   in \<exists>L'. Server_Serve (JtRPCListener_Accept C) 3 s L1 =
    (Serve_limits s, contents (jtrpcCh L1), Returns (L', Some (case Some AcceptFailed of None \<Rightarrow> LnClosed | Some e \<Rightarrow> e)))"
  unfolding Let_def
  by (rule serve_returns [OF demo_fifo _ prod.collapse [symmetric]])
    (simp_all add: NewProxyListener_def pl_closeWithErr_def closeHttp_def closeJtrpc_def demo_uchan_def Let_def)

end
