(* ===== verification/ServerHTTP.thy ===== *)
theory ServerHTTP
  imports ServerGo
begin

text \<open>
  The HTTP side of \<open>go/server.go\<close>: \<open>ServeHTTP\<close>, which answers regular requests and hands stream
  requests to a websocket, and \<open>wsStreamHandler\<close>.

  An HTTP request is its path, its header (in the order the map is visited), its body and its
  remote address; \<open>asv\<close> makes it a value of the request's context, as \<open>context.WithValue\<close> does.
  \<open>wh\<close> is the header of the HTTP response when \<open>ServeHTTP\<close> is called.  A websocket is a reader and a
  writer, as a connection is.  The text of the answers \<open>http.Error\<close> and \<open>http.NotFound\<close> write
  is the library's.
\<close>

record http_request =
  h_path :: gostring
  h_header :: httpheader
  h_body :: bytes
  h_remote :: gostring

definition httpReqCtxKey :: string where
  "httpReqCtxKey = ''jtrpc''"

text \<open>The local function \<open>makeReq\<close>; \<open>None\<close> when the body is over the limit of \<open>http.MaxBytesReader\<close>.\<close>

definition makeReq :: "('v, 'g) server \<Rightarrow> (http_request \<Rightarrow> 'v) \<Rightarrow> http_request \<Rightarrow> gostring \<Rightarrow> 'v request option" where
  "makeReq s asv r path =
     (let headersMap = http_fill (\<lambda>k v. let l = length v in if l \<noteq> 0 then v ! (l - 1) else [])
            (h_header r) Map.empty
      in if int (length (h_body r)) > max 0 (MaxBodyLen s) then None
         else Some \<lparr>rq_id = 0, rq_ctx = WithValue Background httpReqCtxKey (asv r), RemoteAddr = h_remote r,
                     Flags = 0, Path = path,
                     rq_Headers = Some \<lparr>hbytes = [], hm = Some headersMap, parsed = False\<rparr>,
                     rq_Body = (if length (h_body r) = 0 then None else Some (h_body r))\<rparr>)"

definition GetHTTPRequest :: "'v ctx \<Rightarrow> 'v option" where
  "GetHTTPRequest c = ctx_Value c httpReqCtxKey"

datatype ('v, 'g) http_reply =
    WsConnection
  | Reply int httpheader bytes
  | TooLarge int
  | WsStream gostring 'g
  | NotFoundPage

definition http_serve :: "('v, 'g) server \<Rightarrow> (http_request \<Rightarrow> 'v) \<Rightarrow> httpheader \<Rightarrow> http_request \<Rightarrow>
    gostring \<Rightarrow> 'v handler \<Rightarrow> ('v, 'g) http_reply" where
  "http_serve s asv wh r path handler =
     (let handler = chain_handler (Mux s) path handler
      in case makeReq s asv r path of
           None \<Rightarrow> TooLarge (MaxBodyLen s)
         | Some req \<Rightarrow>
             (case handler (req, newResponse 0 0 (Some req)) of
                (req', resp) \<Rightarrow>
                  Reply (StatusToHTTP (StatusCode resp)) wh
                    (case rbody resp of None \<Rightarrow> []
                     | Some c \<Rightarrow> fst (CopyN (sint (bodyLen resp)) (avail c)))))"

definition ServeHTTP :: "('v, 'g) server \<Rightarrow> (http_request \<Rightarrow> 'v) \<Rightarrow> httpheader \<Rightarrow> http_request \<Rightarrow>
    ('v, 'g) http_reply" where
  "ServeHTTP s asv wh r =
     (let path = h_path r;
          path = (if path = [] \<or> hd path \<noteq> of_char (CHR ''/'') then of_char (CHR ''/'') # path else path)
      in if path = lit ''/'' then WsConnection
         else
           case (case getHandler (Mux s) path of
                   Some h \<Rightarrow> (path, Some h)
                 | None \<Rightarrow> (tl path, getHandler (Mux s) (tl path))) of
             (path, Some h) \<Rightarrow> http_serve s asv wh r path h
           | (path, None) \<Rightarrow>
               let path = of_char (CHR ''/'') # path
               in (case (case getStreamHandler (Mux s) path of
                           Some sh \<Rightarrow> (path, Some sh)
                         | None \<Rightarrow> (tl path, getStreamHandler (Mux s) (tl path))) of
                     (path, None) \<Rightarrow> NotFoundPage
                   | (path, Some sh) \<Rightarrow> WsStream path sh))"

text \<open>
  \<open>wsStreamHandler\<close>: what the websocket was sent, and the stream and handler started on it.  The
  stream is not registered anywhere and nothing reads the websocket for it.
\<close>

definition wsStreamHandler :: "utils \<Rightarrow> kvlist \<Rightarrow> ('v, 'g) server \<Rightarrow> gostring \<Rightarrow> 'g \<Rightarrow> bytes \<Rightarrow> conn_out \<Rightarrow>
    conn_out \<times> (stream \<times> 'g) option" where
  "wsStreamHandler U kvs s path sh r w =
     (case RequestFromReader U (MaxBodyLen s) r of
        Inl ErrBodyTooLarge \<Rightarrow>
          (case Response_WriteTo U kvs (Response_SetBodyBytes (lit ''body too large'')
                  ((zeroResponse :: ('v, nat) response)\<lparr>StatusCode := StatusBodyTooLarge\<rparr>)) w of
             (resp', w', n, e) \<Rightarrow> (w', None))
      | Inl (ReqIO e) \<Rightarrow> (w, None)
      | Inr (req, rest) \<Rightarrow>
          (case chain_stream (Mux s) path noopHandler (req, newResponse (rq_id req) (Flags req) (Some req)) of
             (req', resp) \<Rightarrow>
               (case Response_WriteTo U kvs resp w of
                  (resp', w', n, e) \<Rightarrow>
                    if StatusCode resp' = StatusOK \<and> e = None
                    then (w', Some (newStream (rq_id req'), sh)) else (w', None))))"

text \<open>
  \<open>wsHandler\<close>: the websocket of the empty path is a connection like any other, with the whole of
  \<open>handle\<close>: a refused handshake, or the loop until it ends and the deferred \<open>Close\<close>.
\<close>

definition wsHandler :: "utils \<Rightarrow> ('v, 'g) server \<Rightarrow> gostring \<Rightarrow> (('v, 'g) serverConn \<Rightarrow> nat list) \<Rightarrow>
    bytes \<Rightarrow> conn_out \<Rightarrow> (conn_out \<times> bool + ('v, 'g) serverConn) outcome" where
  "wsHandler U s addr orders r w =
     (case server_handle U r w of
        Inl x \<Rightarrow> Returns (Inl x)
      | Inr (c, r') \<Rightarrow> obind (handleServerConn U s addr orders c r') (\<lambda>c. Returns (Inr c)))"

section \<open>Properties\<close>

text \<open>The path a regular or a stream handler is found under: with a leading slash first.\<close>

definition slashed :: "gostring \<Rightarrow> gostring" where
  "slashed p = (if p = [] \<or> hd p \<noteq> of_char (CHR ''/'') then of_char (CHR ''/'') # p else p)"

text \<open>How \<open>ServeHTTP\<close> finds a handler.  The empty path is a connection of its own; otherwise a
  regular handler with the slash, one without, a stream handler with the slash, one without are
  tried in this order, and the middleware that runs is that of the path that matched.\<close>

theorem ServeHTTP_resolution:
  "ServeHTTP s asv wh r =
    (let p = slashed (h_path r); q = tl p; M = Mux s in
     if p = lit ''/'' then WsConnection
     else case getHandler M p of Some h \<Rightarrow> http_serve s asv wh r p h
     | None \<Rightarrow> (case getHandler M q of Some h \<Rightarrow> http_serve s asv wh r q h
     | None \<Rightarrow> (case getStreamHandler M p of Some sh \<Rightarrow> WsStream p sh
     | None \<Rightarrow> (case getStreamHandler M q of Some sh \<Rightarrow> WsStream q sh
     | None \<Rightarrow> NotFoundPage))))"
proof -
  have "of_char (CHR ''/'') # tl (slashed (h_path r)) = slashed (h_path r)"
    by (cases "h_path r") (auto simp: slashed_def)
  then show ?thesis
    unfolding ServeHTTP_def slashed_def [symmetric] Let_def
    by (simp split: option.split)
qed

lemma get_loop_empty: "get_loop 0 [] k = Returns ([], False)"
  by (subst get_loop.simps) simp

text \<open>HTTP headers do not reach a handler.  Whatever the HTTP request's headers are, the headers of
  the request made from it have none of them: looking any key up finds nothing, and they encode to
  no bytes.\<close>

theorem makeReq_headers_lost:
  "case makeReq s asv r path of
     None \<Rightarrow> int (length (h_body r)) > max 0 (MaxBodyLen s)
   | Some req \<Rightarrow> (\<exists>h. rq_Headers req = Some h \<and> GetChecked k h = Returns ([], False) \<and>
       snd (Headers_Encode kvs h) = Inr [] \<and> GetHTTPRequest (rq_ctx req) = Some (asv r))"
  by (simp add: makeReq_def GetChecked_def Headers_Encode_def GetHTTPRequest_def get_loop_empty Let_def)

text \<open>Limits that were not normalised.  A server used as an HTTP handler without \<open>Serve\<close> whose
  limit is 0, which is documented as the default, refuses every request with a body.\<close>

theorem ServeHTTP_zero_limit:
  "http_serve (s\<lparr>MaxBodyLen := 0\<rparr>) asv wh (r\<lparr>h_body := b # bs\<rparr>) path h = TooLarge 0"
  by (simp add: http_serve_def makeReq_def)

end
