(* ===== verification/NtwkIO.thy ===== *)
theory NtwkIO
  imports Wire
begin

text \<open>
  \<open>ntwk/utils.go\<close>: the writers of the service runner.

  \<^item> A \<open>writer\<close> is \<open>Write\<close> of any \<open>io.Writer\<close> as a function on its state: the new state, how many
    bytes were taken, and the error.  Nothing is assumed of it; \<open>connection\<close> is the writer of a
    socket of Prelude.
  \<^item> \<open>writeAll\<close> calls it until every byte is gone.  A writer that takes nothing and gives no error
    keeps it busy for ever, so it is a partial function: not returning is \<open>None\<close>.
  \<^item> \<open>lwriter\<close> is \<open>LockedWriter\<close>: a connection and the state of its mutex, which blocks a second
    lock, also of the same goroutine.
\<close>

section \<open>Writing everything\<close>

type_synonym 's writer = "'s \<Rightarrow> bytes \<Rightarrow> 's \<times> nat \<times> ioerr option"

partial_function (option) writeAll_loop :: "'s writer \<Rightarrow> bytes \<Rightarrow> nat \<Rightarrow> 's \<Rightarrow> ('s \<times> ioerr option) option" where
  "writeAll_loop wr b written s =
     (if written < length b
      then (case wr s (drop written b) of (s', n, e) \<Rightarrow>
              (case e of
                 Some x \<Rightarrow> Some (s', Some x)
               | None \<Rightarrow> writeAll_loop wr b (written + n) s'))
      else Some (s, None))"

definition writeAll :: "'s writer \<Rightarrow> 's \<Rightarrow> bytes \<Rightarrow> ('s \<times> ioerr option) option" where
  "writeAll wr s b = writeAll_loop wr b 0 s"

text \<open>The points a run of the loop passes: how much is written, and the state of the writer.\<close>

inductive writing :: "'s writer \<Rightarrow> 's \<Rightarrow> bytes \<Rightarrow> nat \<Rightarrow> 's \<Rightarrow> bool" for wr s b where
  writing_start: "writing wr s b 0 s"
| writing_more: "writing wr s b k t \<Longrightarrow> k < length b \<Longrightarrow> wr t (drop k b) = (t', n, None) \<Longrightarrow>
    writing wr s b (k + n) t'"

text \<open>The next \<open>n\<close> calls with the bytes \<open>p\<close> take nothing and report nothing.\<close>

fun idles :: "'s writer \<Rightarrow> bytes \<Rightarrow> 's \<Rightarrow> nat \<Rightarrow> bool" where
  "idles wr p s 0 = True"
| "idles wr p s (Suc n) = (case wr s p of (s', m, e) \<Rightarrow> m = 0 \<and> e = None \<and> idles wr p s' n)"

lemma loop_step:
  "k < length b \<Longrightarrow> wr s (drop k b) = (s', n, e) \<Longrightarrow>
   writeAll_loop wr b k s = (case e of Some x \<Rightarrow> Some (s', Some x) | None \<Rightarrow> writeAll_loop wr b (k + n) s')"
  by (subst writeAll_loop.simps) simp

lemma loop_end: "length b \<le> k \<Longrightarrow> writeAll_loop wr b k s = Some (s, None)"
  by (subst writeAll_loop.simps) simp

text \<open>An idle writer keeps the loop going for ever.\<close>

lemma idle_diverges_aux:
  assumes "writeAll_loop (wr :: 's writer) b k s = Some r"
  shows "k < length b \<longrightarrow> (\<exists>n. \<not> idles wr (drop k b) s n)"
proof (rule writeAll_loop.raw_induct [of "\<lambda>wr b k s r. k < length b \<longrightarrow> (\<exists>n. \<not> idles wr (drop k b) s n)", OF _ assms])
  fix loop and wr :: "'s writer" and b k s y
  assume IH: "\<And>wr b k s y. loop wr b k s = Some y \<Longrightarrow> k < length b \<longrightarrow> (\<exists>n. \<not> idles (wr :: 's writer) (drop k b) s n)"
    and body: "(if k < length b
      then (case wr s (drop k b) of (s', n, e) \<Rightarrow>
              (case e of
                 Some x \<Rightarrow> Some (s', Some x)
               | None \<Rightarrow> loop wr b (k + n) s'))
      else Some (s, None)) = Some y"
  obtain s' m e where w: "wr s (drop k b) = (s', m, e)" by (cases "wr s (drop k b)") auto
  show "k < length b \<longrightarrow> (\<exists>n. \<not> idles wr (drop k b) s n)"
  proof (cases "k < length b \<and> m = 0 \<and> e = None")
    case True
    then have k: "k < length b" by simp
    then have "loop wr b k s' = Some y" using body w True by simp
    then obtain n where "\<not> idles wr (drop k b) s' n" using IH k by blast
    then have "\<not> idles wr (drop k b) s (Suc n)" using w True by simp
    then show ?thesis by blast
  next
    case False
    then have "k < length b \<Longrightarrow> \<not> idles wr (drop k b) s (Suc 0)" using w by auto
    then show ?thesis by blast
  qed
qed

lemmas idle_diverges = idle_diverges_aux [rule_format]

text \<open>A writer that is not idle for ever moves the loop on, or ends it.\<close>

lemma not_idle_moves:
  "\<not> idles wr (drop k b) s n \<Longrightarrow> k < length b \<Longrightarrow>
   (\<exists>r. writeAll_loop wr b k s = Some r) \<or>
   (\<exists>m t. 0 < m \<and> writeAll_loop wr b k s = writeAll_loop wr b (k + m) t \<and>
      (\<forall>s0. writing wr s0 b k s \<longrightarrow> writing wr s0 b (k + m) t))"
proof (induction n arbitrary: s)
  case (Suc n)
  obtain s' m e where w: "wr s (drop k b) = (s', m, e)" by (cases "wr s (drop k b)") auto
  note step = loop_step [where wr = wr, OF Suc.prems(2) w]
  show ?case
  proof (cases "e = None")
    case True
    then have go: "\<forall>s0. writing wr s0 b k s \<longrightarrow> writing wr s0 b (k + m) s'"
      using w by (auto intro: writing_more [OF _ Suc.prems(2)])
    show ?thesis
    proof (cases "m = 0")
      case True
      have n: "\<not> idles wr (drop k b) s' n" using Suc.prems(1) w True \<open>e = None\<close> by simp
      have eq: "writeAll_loop wr b k s = writeAll_loop wr b k s'" using step True \<open>e = None\<close> by simp
      have "writing wr s0 b k s \<Longrightarrow> writing wr s0 b k s'" for s0 using go True by simp
      then show ?thesis unfolding eq using Suc.IH [OF n Suc.prems(2)] by blast
    next
      case False
      then have "0 < m" by simp
      moreover have "writeAll_loop wr b k s = writeAll_loop wr b (k + m) s'" using step \<open>e = None\<close> by simp
      ultimately show ?thesis using go by blast
    qed
  next
    case False
    then show ?thesis using step by auto
  qed
qed simp

lemma loop_returns:
  assumes "\<And>m t. writing wr s0 b m t \<Longrightarrow> m < length b \<Longrightarrow> \<exists>n. \<not> idles wr (drop m b) t n"
  shows "writing wr s0 b k s \<Longrightarrow> \<exists>r. writeAll_loop wr b k s = Some r"
proof (induction "length b - k" arbitrary: k s rule: less_induct)
  case less
  show ?case
  proof (cases "k < length b")
    case True
    then obtain n where "\<not> idles wr (drop k b) s n" using assms less.prems by blast
    from not_idle_moves [OF this True] show ?thesis
    proof (elim disjE exE conjE)
      fix m t
      assume m: "0 < m" "writeAll_loop wr b k s = writeAll_loop wr b (k + m) t"
        and w: "\<forall>s0. writing wr s0 b k s \<longrightarrow> writing wr s0 b (k + m) t"
      have "length b - (k + m) < length b - k" using True m(1) by simp
      then show ?thesis using less.hyps [of "k + m" t] w less.prems m(2) by auto
    qed auto
  qed (simp add: loop_end)
qed

lemma writing_loop:
  "writing wr s b k t \<Longrightarrow> writeAll_loop wr b 0 s = writeAll_loop wr b k t"
proof (induction rule: writing.induct)
  case (writing_more k t t' n)
  then show ?case using loop_step [of k b wr t t' n None] by simp
qed simp

lemma writeAll_returns_aux:
  "(\<exists>s' e. writeAll wr s b = Some (s', e)) \<longleftrightarrow>
   \<not> (\<exists>k t. writing wr s b k t \<and> k < length b \<and> (\<forall>n. idles wr (drop k b) t n))"
proof
  assume "\<exists>s' e. writeAll wr s b = Some (s', e)"
  then show "\<not> (\<exists>k t. writing wr s b k t \<and> k < length b \<and> (\<forall>n. idles wr (drop k b) t n))"
    unfolding writeAll_def using writing_loop idle_diverges by metis
next
  assume "\<not> (\<exists>k t. writing wr s b k t \<and> k < length b \<and> (\<forall>n. idles wr (drop k b) t n))"
  then have "\<exists>r. writeAll_loop wr b 0 s = Some r"
    using loop_returns [of wr s b, OF _ writing_start] by blast
  then show "\<exists>s' e. writeAll wr s b = Some (s', e)" by (simp add: writeAll_def)
qed

text \<open>C22: When \<open>writeAll\<close> returns.  Over any writer it returns, with or without an error, unless it comes
  to a point where bytes are left and the writer, called with them again and again, takes
  nothing and reports nothing, for ever.\<close>

theorem writeAll_returns_iff:
  "(\<exists>s' e. writeAll wr s b = Some (s', e)) \<longleftrightarrow>
   \<not> (\<exists>k t. writing wr s b k t \<and> k < length b \<and> (\<forall>n. idles wr (drop k b) t n))"
  by (rule writeAll_returns_aux)

lemma writeAll_progress:
  assumes "\<And>t p t'. p \<noteq> [] \<Longrightarrow> wr t p \<noteq> (t', 0, None)"
  shows "\<exists>s' e. writeAll wr s b = Some (s', e)"
proof -
  have "\<not> idles wr (drop k b) t (Suc 0)" if "k < length b" for k t
    using assms [of "drop k b" t] that by (cases "wr t (drop k b)") auto
  then show ?thesis unfolding writeAll_returns_aux by blast
qed

lemma writeAll_idle_writer: "writeAll (\<lambda>s p. (s, 0, None)) () [b] = None"
proof -
  have "idles (\<lambda>s p. (s, 0, None)) p () n" for p n by (induction n) simp_all
  then have "\<nexists>r. writeAll (\<lambda>s p. (s, 0, None)) () [b] = Some r"
    unfolding writeAll_def using idle_diverges by force
  then show ?thesis by (cases "writeAll (\<lambda>s p. (s, 0, None)) () [b]") auto
qed

text \<open>The contract of \<open>io.Writer\<close>: fewer bytes than there were are taken only with an error.  With such
  a writer one call is enough.\<close>

locale io_writer =
  fixes wr :: "'s writer"
  assumes short_write: "wr s p = (s', n, None) \<Longrightarrow> n = length p"
begin

lemma writeAll_once:
  "writeAll wr s b = Some (if b = [] then (s, None) else (case wr s b of (s', n, e) \<Rightarrow> (s', e)))"
proof (cases "b = []")
  case False
  obtain s' n e where w: "wr s b = (s', n, e)" by (cases "wr s b") auto
  then have "e = None \<Longrightarrow> n = length b" using short_write by blast
  then show ?thesis
    using False loop_step [of 0 b wr s s' n e] w
    by (cases e) (auto simp: writeAll_def loop_end)
qed (simp add: writeAll_def loop_end)

end

interpretation io_conn: io_writer conn_Write
  by unfold_locales (auto dest: conn.wa_ok)

lemma writeAll_unlimited [simp]:
  "room w = None \<Longrightarrow> writeAll conn_Write w b = Some (w\<lparr>out := out w @ b\<rparr>, None)"
  by (simp add: io_conn.writeAll_once)

section \<open>Locked writers and lengths\<close>

record lwriter =
  lw_w :: conn_out
  lw_locked :: bool

definition NewLockedWriter :: "conn_out \<Rightarrow> lwriter" where
  "NewLockedWriter w = \<lparr>lw_w = w, lw_locked = False\<rparr>"

definition lw_Lock :: "lwriter \<Rightarrow> lwriter outcome" where
  "lw_Lock lw = (if lw_locked lw then Blocks else Returns (lw\<lparr>lw_locked := True\<rparr>))"

definition LockedWrite :: "bytes \<Rightarrow> lwriter \<Rightarrow> lwriter \<times> nat \<times> ioerr option" where
  "LockedWrite b lw = (case conn_Write (lw_w lw) b of (w, n, e) \<Rightarrow> (lw\<lparr>lw_w := w\<rparr>, n, e))"

definition LockedWriter_Write :: "bytes \<Rightarrow> lwriter \<Rightarrow> (lwriter \<times> nat \<times> ioerr option) outcome" where
  "LockedWriter_Write b lw =
     obind (lw_Lock lw) (\<lambda>lw.
       case LockedWrite b lw of (lw, n, e) \<Rightarrow> Returns (lw\<lparr>lw_locked := False\<rparr>, n, e))"

definition LockedWriter_LockedWriter :: "lwriter \<Rightarrow> conn_out" where
  "LockedWriter_LockedWriter lw = lw_w lw"

definition LockedWriter_Writer :: "lwriter \<Rightarrow> (lwriter \<times> conn_out) outcome" where
  "LockedWriter_Writer lw = obind (lw_Lock lw) (\<lambda>lw. Returns (lw, LockedWriter_LockedWriter lw))"

text \<open>\<open>Write\<close> of a locked writer takes the lock and gives it back; while another goroutine, or the
  same one after \<open>Writer()\<close>, holds it, it blocks.\<close>

theorem locked_write:
  "LockedWriter_Write b lw =
     (if lw_locked lw then Blocks
      else Returns (lw\<lparr>lw_w := fst (conn_Write (lw_w lw) b)\<rparr>, snd (conn_Write (lw_w lw) b))) \<and>
   (case LockedWriter_Writer lw of
      Returns (lw', w) \<Rightarrow> LockedWriter_Write b lw' = Blocks \<and> w = lw_w lw
    | x \<Rightarrow> x = Blocks)"
  by (cases "conn_Write (lw_w lw) b")
    (auto simp: LockedWriter_Write_def LockedWriter_Writer_def LockedWriter_LockedWriter_def lw_Lock_def LockedWrite_def)

text \<open>\<open>LengthWriter\<close> counts what is written to it, in 64 bits.\<close>

definition LengthWriter_Write :: "u64 writer" where
  "LengthWriter_Write n p = (n + of_nat (length p), length p, None)"

definition NumWritten :: "u64 \<Rightarrow> u64" where
  "NumWritten n = n"

interpretation io_length: io_writer LengthWriter_Write
  by unfold_locales (simp add: LengthWriter_Write_def)

lemma writeAll_LengthWriter: "writeAll LengthWriter_Write n b = Some (n + of_nat (length b), None)"
  by (simp add: io_length.writeAll_once LengthWriter_Write_def)

end
