(* ===== verification/NtwkResp.thy ===== *)
theory NtwkResp
  imports NtwkIO Headers
begin

text \<open>
  \<open>ntwk/msgs.go\<close> and \<open>ntwk/req_resp.go\<close>: messages, requests with their pooled buffers, and the
  writer of responses.

  \<^item> \<open>'f nenv\<close> holds what the code takes from outside the repository and the language: the
    operations on \<open>float64\<close> (of type \<open>'f\<close>), and the JSON codec, which may refuse a value (an
    infinite or undefined number) or a text.
  \<^item> A \<open>*bytes.Buffer\<close> is its contents, \<open>None\<close> when nil.  A pool is the list of the buffers put into
    it; which one \<open>Get\<close> hands out, or that it makes a new one, is the argument \<open>pick\<close>.
  \<^item> A response goes to the connection under the locked writer, whose lock the caller holds.
\<close>

section \<open>Messages\<close>

type_synonym u32 = "32 word"

record 'f ninput =
  in_A :: 'f
  in_B :: 'f

record 'f noutput =
  out_Value :: 'f

record 'f nenv =
  f_add :: "'f \<Rightarrow> 'f \<Rightarrow> 'f"
  f_sub :: "'f \<Rightarrow> 'f \<Rightarrow> 'f"
  f_mul :: "'f \<Rightarrow> 'f \<Rightarrow> 'f"
  f_div :: "'f \<Rightarrow> 'f \<Rightarrow> 'f"
  f_pow :: "'f \<Rightarrow> 'f \<Rightarrow> 'f"
  f_is0 :: "'f \<Rightarrow> bool"
  enc_in :: "'f ninput option \<Rightarrow> gostring + bytes"
  dec_in :: "bytes \<Rightarrow> gostring + 'f ninput"
  enc_out :: "'f noutput option \<Rightarrow> gostring + bytes"
  dec_out :: "bytes \<Rightarrow> gostring + 'f noutput"

datatype nerror = IOErr ioerr | JsonErr gostring | DivideBy0

text \<open>\<open>json.NewEncoder(buf).Encode\<close>: nothing is written when the value cannot be encoded, otherwise the
  text in one \<open>Write\<close>.\<close>

definition Encode_to :: "(gostring + bytes) \<Rightarrow> ('s writer) \<Rightarrow> 's \<Rightarrow> 's \<times> nerror option" where
  "Encode_to enc wr s =
     (case enc of
        Inl x \<Rightarrow> (s, Some (JsonErr x))
      | Inr b \<Rightarrow> (case wr s b of (s', n, e) \<Rightarrow> (s', map_option IOErr e)))"

definition Encode_append :: "(gostring + bytes) \<Rightarrow> bytes \<Rightarrow> bytes" where
  "Encode_append enc b = fst (Encode_to enc (\<lambda>s p. (s @ p, length p, None)) b)"

definition Input_Ser :: "'f nenv \<Rightarrow> 'f ninput option \<Rightarrow> bytes \<Rightarrow> bytes" where
  "Input_Ser E x b = Encode_append (enc_in E x) b"

definition Input_Deser :: "'f nenv \<Rightarrow> bytes \<Rightarrow> nerror + 'f ninput" where
  "Input_Deser E b = (case dec_in E b of Inl x \<Rightarrow> Inl (JsonErr x) | Inr m \<Rightarrow> Inr m)"

definition Input_SerTo :: "'f nenv \<Rightarrow> 'f ninput option \<Rightarrow> conn_out \<Rightarrow> conn_out \<times> nerror option" where
  "Input_SerTo E x w = Encode_to (enc_in E x) conn_Write w"

definition Input_SerLen :: "'f nenv \<Rightarrow> 'f ninput option \<Rightarrow> u64" where
  "Input_SerLen E x = fst (Encode_to (enc_in E x) LengthWriter_Write 0)"

definition Output_Ser :: "'f nenv \<Rightarrow> 'f noutput option \<Rightarrow> bytes \<Rightarrow> bytes" where
  "Output_Ser E x b = Encode_append (enc_out E x) b"

definition Output_Deser :: "'f nenv \<Rightarrow> bytes \<Rightarrow> nerror + 'f noutput" where
  "Output_Deser E b = (case dec_out E b of Inl x \<Rightarrow> Inl (JsonErr x) | Inr m \<Rightarrow> Inr m)"

definition Output_SerTo :: "'f nenv \<Rightarrow> 'f noutput option \<Rightarrow> conn_out \<Rightarrow> conn_out \<times> nerror option" where
  "Output_SerTo E x w = Encode_to (enc_out E x) conn_Write w"

definition Output_SerLen :: "'f nenv \<Rightarrow> 'f noutput option \<Rightarrow> u64" where
  "Output_SerLen E x = fst (Encode_to (enc_out E x) LengthWriter_Write 0)"

section \<open>Requests\<close>

record nserver =
  MaxHeaderLen :: u32
  headerBuffers :: "bytes option list"
  nMaxBodyLen :: u64
  bodyBuffers :: "bytes option list"

definition DefaultMaxHeaderLen :: u32 where "DefaultMaxHeaderLen = 2 ^ 15"
definition nDefaultMaxBodyLen :: u64 where "nDefaultMaxBodyLen = 2 ^ 20"

definition nNewServer :: nserver where
  "nNewServer = \<lparr>MaxHeaderLen = DefaultMaxHeaderLen, headerBuffers = [],
     nMaxBodyLen = nDefaultMaxBodyLen, bodyBuffers = []\<rparr>"

definition pool_Get :: "(bytes option list \<Rightarrow> nat option) \<Rightarrow> bytes option list \<Rightarrow> bytes option \<times> bytes option list" where
  "pool_Get pick p =
     (case pick p of
        Some i \<Rightarrow> if i < length p then (p ! i, take i p @ drop (Suc i) p) else (Some [], p)
      | None \<Rightarrow> (Some [], p))"

record 'm nrequest =
  nq_id :: u64
  nq_headersBuf :: "bytes option"
  nq_bodyBuf :: "bytes option"
  nq_Data :: "'m option"

text \<open>\<open>newRequest\<close> leaves \<open>Data\<close>, a pointer, nil.\<close>

definition nnewRequest :: "u64 \<Rightarrow> bytes option \<Rightarrow> bytes option \<Rightarrow> 'm nrequest" where
  "nnewRequest i hb bb = \<lparr>nq_id = i, nq_headersBuf = hb, nq_bodyBuf = bb, nq_Data = None\<rparr>"

definition nRequest_Close :: "nserver \<Rightarrow> 'm nrequest \<Rightarrow> nserver \<times> 'm nrequest" where
  "nRequest_Close S r =
     (S\<lparr>headerBuffers := nq_headersBuf r # headerBuffers S,
        bodyBuffers := nq_bodyBuf r # bodyBuffers S\<rparr>,
      r\<lparr>nq_headersBuf := None, nq_bodyBuf := None\<rparr>)"

text \<open>\<open>io.CopyN\<close> into a buffer, which appends; its \<open>ReadFrom\<close> dereferences a nil buffer.\<close>

definition copy_into :: "bytes option \<Rightarrow> int \<Rightarrow> bytes \<Rightarrow> (bytes option \<times> bytes \<times> ioerr option) outcome" where
  "copy_into buf n r =
     (case buf of
        None \<Rightarrow> Panics NilDeref
      | Some b \<Rightarrow> (case CopyN n r of (a, r', e) \<Rightarrow> Returns (Some (b @ a), r', e)))"

definition readHeadersInto :: "bytes option \<Rightarrow> u32 \<Rightarrow> bytes \<Rightarrow> (bytes option \<times> bytes \<times> ioerr option) outcome" where
  "readHeadersInto buf n r = copy_into buf (uint n) r"

definition readBodyInto :: "bytes option \<Rightarrow> u64 \<Rightarrow> bytes \<Rightarrow> (bytes option \<times> bytes \<times> ioerr option) outcome" where
  "readBodyInto buf n r = copy_into buf (sint n) r"

definition readHeadersBodyInto ::
    "bytes option \<Rightarrow> u32 \<Rightarrow> bytes option \<Rightarrow> u64 \<Rightarrow> bytes \<Rightarrow> (bytes option \<times> bytes option \<times> bytes \<times> ioerr option) outcome" where
  "readHeadersBodyInto hb n bb m r =
     obind (readHeadersInto hb n r) (\<lambda>(hb, r, e).
       case e of
         Some x \<Rightarrow> Returns (hb, bb, r, Some x)
       | None \<Rightarrow> obind (readBodyInto bb m r) (\<lambda>(bb, r, e). Returns (hb, bb, r, e)))"

section \<open>Responses\<close>

definition StatusOk :: byte where "StatusOk = 0"
definition StatusErr :: byte where "StatusErr = 1"

record 'm nresponse =
  np_reqId :: u64
  np_Status :: byte
  np_Data :: "'m option"
  np_Error :: gostring

text \<open>\<open>err.Error()\<close>, the texts of \<open>net\<close> and \<open>io\<close> as the argument \<open>io_text\<close>.\<close>

fun nerr_text :: "(ioerr \<Rightarrow> gostring) \<Rightarrow> nerror \<Rightarrow> gostring" where
  "nerr_text io_text (IOErr e) = io_text e"
| "nerr_text io_text (JsonErr x) = x"
| "nerr_text io_text DivideBy0 = lit ''divide by 0''"

definition nerrStr :: "(ioerr \<Rightarrow> gostring) \<Rightarrow> nerror option \<Rightarrow> gostring" where
  "nerrStr io_text e = (case e of Some x \<Rightarrow> nerr_text io_text x | None \<Rightarrow> [])"

definition nnewResponse :: "(ioerr \<Rightarrow> gostring) \<Rightarrow> u64 \<Rightarrow> 'm option \<Rightarrow> nerror option \<Rightarrow> 'm nresponse" where
  "nnewResponse io_text i msg err =
     (let resp = \<lparr>np_reqId = i, np_Status = 0, np_Data = msg, np_Error = []\<rparr>
      in case err of Some x \<Rightarrow> resp\<lparr>np_Error := nerr_text io_text x\<rparr> | None \<Rightarrow> resp)"

text \<open>\<open>newResponseWriter\<close> returns nil; the code makes its writers with a literal, as \<open>zero_writer\<close>.\<close>

record nrwriter =
  nrw_reqId :: u64
  headersLen :: int
  nrw_headers :: "(bytes \<times> bytes) list"
  trailersLen :: int
  nrw_trailers :: "(bytes \<times> bytes) list"

definition newResponseWriter :: "nrwriter option" where
  "newResponseWriter = None"

definition zero_writer :: "u64 \<Rightarrow> nrwriter" where
  "zero_writer i = \<lparr>nrw_reqId = i, headersLen = 0, nrw_headers = [], trailersLen = 0, nrw_trailers = []\<rparr>"

definition WriteHeader :: "bytes \<Rightarrow> bytes \<Rightarrow> nrwriter \<Rightarrow> nrwriter" where
  "WriteHeader key val rw =
     rw\<lparr>headersLen := headersLen rw + (4 + int (length key) + int (length val)),
        nrw_headers := nrw_headers rw @ [(key, val)]\<rparr>"

definition WriteHeaderString :: "gostring \<Rightarrow> gostring \<Rightarrow> nrwriter \<Rightarrow> nrwriter" where
  "WriteHeaderString key val rw =
     rw\<lparr>headersLen := headersLen rw + (4 + int (length key) + int (length val)),
        nrw_headers := nrw_headers rw @ [(key, val)]\<rparr>"

definition WriteTrailer :: "bytes \<Rightarrow> bytes \<Rightarrow> nrwriter \<Rightarrow> nrwriter" where
  "WriteTrailer key val rw =
     rw\<lparr>trailersLen := trailersLen rw + (4 + int (length key) + int (length val)),
        nrw_trailers := nrw_trailers rw @ [(key, val)]\<rparr>"

definition WriteTrailerString :: "gostring \<Rightarrow> gostring \<Rightarrow> nrwriter \<Rightarrow> nrwriter" where
  "WriteTrailerString key val rw =
     rw\<lparr>trailersLen := trailersLen rw + (4 + int (length key) + int (length val)),
        nrw_trailers := nrw_trailers rw @ [(key, val)]\<rparr>"

text \<open>The two 16-bit lengths of an entry, as one 32-bit word.\<close>

definition kv_lens :: "bytes \<times> bytes \<Rightarrow> u32" where
  "kv_lens kv = push_bit 16 (of_nat (length (snd kv))) OR of_nat (length (fst kv))"

definition kv_bytes :: "bytes \<times> bytes \<Rightarrow> bytes" where
  "kv_bytes kv = le_put 4 (kv_lens kv) @ fst kv @ snd kv"

text \<open>\<open>writeAll\<close> to the connection; it blocks when it does not return.\<close>

definition write_out :: "bytes \<Rightarrow> conn_out \<Rightarrow> (conn_out \<times> nerror option) outcome" where
  "write_out b w =
     (case writeAll conn_Write w b of
        None \<Rightarrow> Blocks
      | Some (w', e) \<Rightarrow> Returns (w', map_option IOErr e))"

definition and_then ::
    "(conn_out \<times> nerror option) outcome \<Rightarrow> (conn_out \<Rightarrow> (conn_out \<times> nerror option) outcome) \<Rightarrow> (conn_out \<times> nerror option) outcome" where
  "and_then x f = obind x (\<lambda>(w, e). case e of Some y \<Rightarrow> Returns (w, Some y) | None \<Rightarrow> f w)"

fun writeOutHeaders :: "(bytes \<times> bytes) list \<Rightarrow> conn_out \<Rightarrow> (conn_out \<times> nerror option) outcome" where
  "writeOutHeaders [] w = Returns (w, None)"
| "writeOutHeaders (kv # kvs) w = and_then (write_out (kv_bytes kv) w) (writeOutHeaders kvs)"

fun writeOutTrailers :: "(bytes \<times> bytes) list \<Rightarrow> conn_out \<Rightarrow> (conn_out \<times> nerror option) outcome" where
  "writeOutTrailers [] w = Returns (w, None)"
| "writeOutTrailers (kv # kvs) w = and_then (write_out (kv_bytes kv) w) (writeOutTrailers kvs)"

definition status_bytes :: "'m nresponse \<Rightarrow> bytes" where
  "status_bytes resp =
     (if np_Status resp \<noteq> StatusOk
      then [np_Status resp] @ le_put 2 (of_nat (length (np_Error resp)) :: u16) @ np_Error resp
      else [np_Status resp])"

definition writeOutResponse ::
    "'f nenv \<Rightarrow> nrwriter \<Rightarrow> 'f noutput nresponse \<Rightarrow> conn_out \<Rightarrow> (conn_out \<times> nerror option) outcome" where
  "writeOutResponse E rw resp w =
     (let resp = (if np_Status resp = StatusOk \<and> np_Error resp \<noteq> [] then resp\<lparr>np_Status := StatusErr\<rparr> else resp)
      in and_then (write_out (le_put 8 (np_reqId resp)) w) (\<lambda>w.
         and_then (write_out (status_bytes resp) w) (\<lambda>w.
         and_then (write_out (le_put 4 (word_of_int (headersLen rw) :: u32) @
                              le_put 8 (Output_SerLen E (np_Data resp)) @
                              le_put 4 (word_of_int (trailersLen rw) :: u32)) w) (\<lambda>w.
         and_then (writeOutHeaders (nrw_headers rw) w) (\<lambda>w.
         and_then (Returns (Output_SerTo E (np_Data resp) w)) (\<lambda>w.
         writeOutTrailers (nrw_trailers rw) w))))))"

section \<open>Stream stubs\<close>

record nstream =
  ns_canSend :: bool
  ns_canRecv :: bool

definition nStream_Close :: "nstream \<Rightarrow> nstream" where
  "nStream_Close s = s\<lparr>ns_canSend := False, ns_canRecv := False\<rparr>"

definition nStream_CanSend :: "nstream \<Rightarrow> bool" where
  "nStream_CanSend s = ns_canSend s"

definition nStream_CanRecv :: "nstream \<Rightarrow> bool" where
  "nStream_CanRecv s = ns_canRecv s"

text \<open>\<open>Send\<close> and \<open>Recv\<close> are not written yet: a value is dropped, and what is received is the zero
  value of its type, a nil pointer, without an error.\<close>

definition nStream_Send :: "'m option \<Rightarrow> nstream \<Rightarrow> nstream \<times> nerror option" where
  "nStream_Send val s = (s, None)"

definition nStream_Recv :: "nstream \<Rightarrow> nstream \<times> 'm option \<times> nerror option" where
  "nStream_Recv s = (s, None, None)"

section \<open>What a response looks like\<close>

text \<open>A reader of responses, after the description in spec.md: the reference \<open>writeOutResponse\<close> is
  compared with.  \<open>rd n r k\<close> reads \<open>n\<close> bytes of \<open>r\<close> and goes on with \<open>k\<close>.\<close>

definition rd :: "nat \<Rightarrow> bytes \<Rightarrow> (bytes \<Rightarrow> bytes \<Rightarrow> 'a option) \<Rightarrow> 'a option" where
  "rd n r k = (case ReadFull n r of Inl _ \<Rightarrow> None | Inr (a, r') \<Rightarrow> k a r')"

lemma rd_append [simp]: "length a = n \<Longrightarrow> rd n (a @ r) k = k a r"
  by (simp add: rd_def)

definition read_status :: "byte \<Rightarrow> bytes \<Rightarrow> (gostring \<Rightarrow> bytes \<Rightarrow> 'a option) \<Rightarrow> 'a option" where
  "read_status st r k =
     (if st = StatusOk then k [] r
      else rd 2 r (\<lambda>l r. rd (unat (le_get l :: u16)) r k))"

definition read_response ::
    "bytes \<Rightarrow> ((u64 \<times> byte \<times> gostring) \<times> (kvlist \<times> bytes \<times> kvlist) \<times> bytes) option" where
  "read_response r =
     rd 8 r (\<lambda>i r. rd 1 r (\<lambda>st r. read_status (hd st) r (\<lambda>err r.
     rd 4 r (\<lambda>hl r. rd 8 r (\<lambda>bl r. rd 4 r (\<lambda>tl r.
     rd (unat (le_get hl :: u32)) r (\<lambda>h r. rd (unat (le_get bl :: u64)) r (\<lambda>b r.
     rd (unat (le_get tl :: u32)) r (\<lambda>t r.
       Some ((le_get i, hd st, err), (fst (decode h), b, fst (decode t)), r))))))))))"

text \<open>The lengths of a writer are those of its entries.\<close>

definition kvs_len :: "kvlist \<Rightarrow> int" where
  "kvs_len kvs = int (length (wire kvs))"

definition rwriter_ok :: "nrwriter \<Rightarrow> bool" where
  "rwriter_ok rw \<longleftrightarrow> headersLen rw = kvs_len (nrw_headers rw) \<and> trailersLen rw = kvs_len (nrw_trailers rw)"

lemma kvs_len_append [simp]:
  "kvs_len [] = 0" "kvs_len (kvs @ [(k, v)]) = kvs_len kvs + (4 + int (length k) + int (length v))"
  by (simp_all add: kvs_len_def wire_def enc_kv_eq)

lemma rwriter_ok_start: "rwriter_ok (zero_writer i)"
  by (simp add: rwriter_ok_def zero_writer_def)

lemma rwriter_ok_step:
  assumes "rwriter_ok rw"
  shows "rwriter_ok (WriteHeader k v rw)" "rwriter_ok (WriteHeaderString k v rw)"
    "rwriter_ok (WriteTrailer k v rw)" "rwriter_ok (WriteTrailerString k v rw)"
  using assms
  by (simp_all add: rwriter_ok_def WriteHeader_def WriteHeaderString_def WriteTrailer_def WriteTrailerString_def)

lemma le_put_append:
  "le_put (m + n) (u :: 'a::len word) = le_put m u @ le_put n (drop_bit (8 * m) u)"
  by (induction m arbitrary: u) (simp_all add: drop_bit_drop_bit add.commute)

lemma le_put_ucast:
  "8 * n \<le> LENGTH('b) \<Longrightarrow> le_put n (x :: 'a::len word) = le_put n (ucast x :: 'b::len word)"
proof (induction n arbitrary: x)
  case (Suc n)
  have "ucast x = (ucast (ucast x :: 'b word) :: byte)"
    by (rule bit_word_eqI) (use Suc.prems in \<open>auto simp: bit_simps\<close>)
  moreover have "le_put n (drop_bit 8 (ucast x :: 'b word)) = le_put n (ucast (drop_bit 8 x) :: 'b word)"
    by (rule le_put_cong) (use Suc.prems in \<open>auto simp: bit_simps dest: bit_imp_le_length\<close>)
  ultimately show ?case using Suc.IH [of "drop_bit 8 x"] Suc.prems by simp
qed simp

lemma kv_lens_bytes:
  assumes "fits kv"
  shows "le_put 4 (kv_lens kv) = le_put 2 (of_nat (length (fst kv)) :: u16) @ le_put 2 (of_nat (length (snd kv)) :: u16)"
proof -
  have k: "\<not> bit (length (fst kv)) (i + 16)" for i
  proof -
    have "length (fst kv) < 2 ^ (i + 16)"
      using assms power_increasing [of 16 "i + 16" "2 :: nat"] by (simp add: fits_def)
    then show ?thesis by (simp add: bit_nat_iff bit_iff_odd)
  qed
  have "ucast (kv_lens kv) = (of_nat (length (fst kv)) :: u16)"
    by (rule bit_word_eqI) (simp add: kv_lens_def bit_simps bit_of_nat_iff)
  moreover have "ucast (drop_bit 16 (kv_lens kv)) = (of_nat (length (snd kv)) :: u16)"
    by (rule bit_word_eqI) (simp add: kv_lens_def bit_simps bit_of_nat_iff k add.commute)
  moreover have "le_put 4 (kv_lens kv) = le_put 2 (kv_lens kv) @ le_put 2 (drop_bit 16 (kv_lens kv))"
    using le_put_append [of 2 2 "kv_lens kv"] by simp
  ultimately show ?thesis
    using le_put_ucast [of 2 "kv_lens kv", where 'b = 16] le_put_ucast [of 2 "drop_bit 16 (kv_lens kv)", where 'b = 16]
    by simp
qed

lemma kv_bytes_enc: "fits kv \<Longrightarrow> kv_bytes kv = enc_kv (fst kv) (snd kv)"
  by (simp add: kv_bytes_def kv_lens_bytes enc_kv_eq)

section \<open>Writing a response\<close>

lemma write_out_unlimited [simp]:
  "room w = None \<Longrightarrow> write_out b w = Returns (w\<lparr>out := out w @ b\<rparr>, None)"
  by (simp add: write_out_def)

lemma and_then_ok [simp]:
  "and_then (Returns (w, None)) f = f w" "and_then (Returns (w, Some y)) f = Returns (w, Some y)"
  by (simp_all add: and_then_def)

lemma wire_kv_simps [simp]: "wire [] = []" "wire (kv # kvs) = enc_kv (fst kv) (snd kv) @ wire kvs"
  by (simp_all add: wire_def split_beta)

lemma writeOutHeaders_wire:
  "room w = None \<Longrightarrow> list_all fits kvs \<Longrightarrow>
   writeOutHeaders kvs w = Returns (w\<lparr>out := out w @ wire kvs\<rparr>, None)"
  by (induction kvs arbitrary: w) (simp_all add: kv_bytes_enc)

lemma writeOutTrailers_wire:
  "room w = None \<Longrightarrow> list_all fits kvs \<Longrightarrow>
   writeOutTrailers kvs w = Returns (w\<lparr>out := out w @ wire kvs\<rparr>, None)"
  by (induction kvs arbitrary: w) (simp_all add: kv_bytes_enc)

lemma Encode_to_connection [simp]:
  "room w = None \<Longrightarrow> Encode_to (Inr d) conn_Write w = (w\<lparr>out := out w @ d\<rparr>, None)"
  by (simp add: Encode_to_def)

definition answered :: "'m nresponse \<Rightarrow> byte" where
  "answered resp = (if np_Status resp = StatusOk \<and> np_Error resp \<noteq> [] then StatusErr else np_Status resp)"

definition response_wire :: "nrwriter \<Rightarrow> 'm nresponse \<Rightarrow> bytes \<Rightarrow> bytes" where
  "response_wire rw resp d =
     le_put 8 (np_reqId resp) @ status_bytes (resp\<lparr>np_Status := answered resp\<rparr>) @
     le_put 4 (word_of_int (headersLen rw) :: u32) @ le_put 8 (of_nat (length d) :: u64) @
     le_put 4 (word_of_int (trailersLen rw) :: u32) @
     wire (nrw_headers rw) @ d @ wire (nrw_trailers rw)"

lemma writeOutResponse_wire:
  assumes "room w = None" and "enc_out E (np_Data resp) = Inr d"
    and "list_all fits (nrw_headers rw)" and "list_all fits (nrw_trailers rw)"
  shows "writeOutResponse E rw resp w = Returns (w\<lparr>out := out w @ response_wire rw resp d\<rparr>, None)"
proof -
  have l: "Output_SerLen E (np_Data resp) = of_nat (length d)"
    by (simp add: Output_SerLen_def Encode_to_def LengthWriter_Write_def assms(2))
  show ?thesis
    using assms
    by (cases "np_Status resp = StatusOk \<and> np_Error resp \<noteq> []")
      (auto simp: writeOutResponse_def Let_def Output_SerTo_def writeOutHeaders_wire writeOutTrailers_wire
        l response_wire_def answered_def)
qed

lemma unat_le_get_put [simp]:
  "unat (le_get (le_put 4 (u :: u32)) :: u32) = unat u"
  "unat (le_get (le_put 8 (v :: u64)) :: u64) = unat v"
  "unat (le_get (le_put 2 (s :: u16)) :: u16) = unat s"
  by (simp_all add: le_get_put take_bit_word_eq_self)

lemma unat_len:
  "n < 2 ^ 32 \<Longrightarrow> unat (word_of_int (int n) :: u32) = n"
  "n < 2 ^ 64 \<Longrightarrow> unat (of_nat n :: u64) = n"
  "n < 2 ^ 16 \<Longrightarrow> unat (of_nat n :: u16) = n"
  by (simp_all add: unat_of_nat take_bit_nat_eq_self_iff unsigned_of_int take_bit_int_eq_self_iff)

lemma rd_one [simp]: "rd (Suc 0) (x # r) k = k [x] r"
  using rd_append [of "[x]" "Suc 0" r k] by simp

lemma read_status_answered:
  assumes "length (np_Error resp) < 2 ^ 16"
  shows "rd (Suc 0) (status_bytes (resp\<lparr>np_Status := st\<rparr>) @ r) (\<lambda>x r. read_status (hd x) r (k x)) =
    k [st] (if st = StatusOk then [] else np_Error resp) r"
proof (cases "st = StatusOk")
  case True
  then show ?thesis
    by (simp add: status_bytes_def read_status_def)
next
  case False
  then show ?thesis
    using assms
    by (simp add: status_bytes_def read_status_def unat_len)
qed

lemma nresponse_read:
  assumes "room w = None" and "enc_out E (np_Data resp) = Inr d" and "rwriter_ok rw"
    and "list_all fits (nrw_headers rw)" and "list_all fits (nrw_trailers rw)"
    and "headersLen rw < 2 ^ 32" and "trailersLen rw < 2 ^ 32" and "length d < 2 ^ 64"
    and "length (np_Error resp) < 2 ^ 16"
  shows "\<exists>b. writeOutResponse E rw resp w = Returns (w\<lparr>out := out w @ b\<rparr>, None) \<and>
    read_response (b @ rest) =
      Some ((np_reqId resp, answered resp, if answered resp = StatusOk then [] else np_Error resp),
        (nrw_headers rw, d, nrw_trailers rw), rest)"
proof -
  have h: "unat (word_of_int (headersLen rw) :: u32) = length (wire (nrw_headers rw))"
    and t: "unat (word_of_int (trailersLen rw) :: u32) = length (wire (nrw_trailers rw))"
    using assms(3,6,7) unat_len(1) [of "length (wire (nrw_headers rw))"] unat_len(1) [of "length (wire (nrw_trailers rw))"]
    by (simp_all add: rwriter_ok_def kvs_len_def)
  have d: "unat (of_nat (length d) :: u64) = length d" by (rule unat_len(2) [OF assms(8)])
  have dec: "fst (decode (wire kvs)) = kvs" if "list_all fits kvs" for kvs
    using decode_wire [OF that entry_Nil] by simp
  have "read_response (response_wire rw resp d @ rest) =
      Some ((np_reqId resp, answered resp, if answered resp = StatusOk then [] else np_Error resp),
        (nrw_headers rw, d, nrw_trailers rw), rest)"
    by (simp add: read_response_def response_wire_def read_status_answered [OF assms(9)] h t d dec assms(4,5)
        le_get_put take_bit_word_eq_self)
  then show ?thesis using writeOutResponse_wire [OF assms(1,2,4,5)] by blast
qed

text \<open>C23: A response is read back.  When the lengths fit their fields, what \<open>writeOutResponse\<close> sends on a
  working connection is read by the reader of the documented format as the response: its id, its
  status (an error where one is set on an OK response) and error, the headers and trailers that
  were added to the writer, and the encoded data, with nothing left over.\<close>

theorem nresponse_read_back:
  assumes "room w = None" and "enc_out E (np_Data resp) = Inr d" and "rwriter_ok rw"
    and "list_all fits (nrw_headers rw)" and "list_all fits (nrw_trailers rw)"
    and "headersLen rw < 2 ^ 32" and "trailersLen rw < 2 ^ 32" and "length d < 2 ^ 64"
    and "length (np_Error resp) < 2 ^ 16"
  shows "\<exists>b. writeOutResponse E rw resp w = Returns (w\<lparr>out := out w @ b\<rparr>, None) \<and>
    read_response (b @ rest) =
      Some ((np_reqId resp, answered resp, if answered resp = StatusOk then [] else np_Error resp),
        (nrw_headers rw, d, nrw_trailers rw), rest)"
  by (rule nresponse_read [OF assms])

text \<open>A codec for concrete runs: one byte per number, and no text for 255.\<close>

definition demo_nenv :: "byte nenv" where
  "demo_nenv = \<lparr>f_add = (+), f_sub = (-), f_mul = (*), f_div = (\<lambda>a b. word_of_nat (unat a div unat b)),
     f_pow = (\<lambda>a b. a ^ unat b), f_is0 = (\<lambda>a. a = 0),
     enc_in = (\<lambda>m. case m of None \<Rightarrow> Inr [] | Some x \<Rightarrow> Inr [in_A x, in_B x]),
     dec_in = (\<lambda>b. if length b = 2 then Inr \<lparr>in_A = b ! 0, in_B = b ! 1\<rparr> else Inl (lit ''bad'')),
     enc_out = (\<lambda>m. case m of None \<Rightarrow> Inr []
       | Some x \<Rightarrow> if out_Value x = 255 then Inl (lit ''unsupported value'') else Inr [out_Value x]),
     dec_out = (\<lambda>b. if length b = 1 then Inr \<lparr>out_Value = b ! 0\<rparr> else Inl (lit ''bad''))\<rparr>"

lemma nresponse_read_back_witness:
  "let rw = WriteTrailer [3] [] (WriteHeaderString [1] [2] (zero_writer 7));
     resp = nnewResponse (\<lambda>_. []) 7 (Some \<lparr>out_Value = 5 :: byte\<rparr>) (Some DivideBy0); w = \<lparr>out = [], room = None\<rparr>
   in \<exists>b. writeOutResponse demo_nenv rw resp w = Returns (w\<lparr>out := out w @ b\<rparr>, None) \<and>
    read_response (b @ [9]) =
      Some ((np_reqId resp, answered resp, if answered resp = StatusOk then [] else np_Error resp),
        (nrw_headers rw, [5], nrw_trailers rw), [9])"
  unfolding Let_def
proof (rule nresponse_read_back)
  show "rwriter_ok (WriteTrailer [3] [] (WriteHeaderString [1] [2] (zero_writer 7)))"
    by (intro rwriter_ok_step rwriter_ok_start)
qed (simp_all add: demo_nenv_def nnewResponse_def WriteTrailer_def WriteHeaderString_def zero_writer_def fits_def lit_def)

text \<open>A value that cannot be encoded.  The length announced for the body is 0, and the response breaks
  off after the headers: the trailers it announced are not sent.\<close>

theorem nresponse_refused:
  assumes "room w = None" and "enc_out E (np_Data resp) = Inl x" and "list_all fits (nrw_headers rw)"
  shows "writeOutResponse E rw resp w = Returns (w\<lparr>out := out w @
     response_wire (rw\<lparr>nrw_trailers := []\<rparr>) resp []\<rparr>, Some (JsonErr x))"
proof -
  have l: "Output_SerLen E (np_Data resp) = 0"
    by (simp add: Output_SerLen_def Encode_to_def assms(2))
  show ?thesis
    using assms
    by (cases "np_Status resp = StatusOk \<and> np_Error resp \<noteq> []")
      (auto simp: writeOutResponse_def Let_def Output_SerTo_def writeOutHeaders_wire
        l response_wire_def answered_def Encode_to_def)
qed

lemma nresponse_refused_witness:
  "let rw = WriteTrailer [3] [] (zero_writer 7); w = \<lparr>out = [], room = None\<rparr>;
     resp = \<lparr>np_reqId = 7, np_Status = 0, np_Data = Some \<lparr>out_Value = 255 :: byte\<rparr>, np_Error = []\<rparr>
   in writeOutResponse demo_nenv rw resp w = Returns (w\<lparr>out := out w @
     response_wire (rw\<lparr>nrw_trailers := []\<rparr>) resp []\<rparr>, Some (JsonErr (lit ''unsupported value'')))"
  unfolding Let_def
  by (rule nresponse_refused) (simp_all add: demo_nenv_def WriteTrailer_def zero_writer_def)

text \<open>A key of 64 KiB or more.  Its high bits are added to the length of the value: a reader takes an
  entry with a shorter key and another value.\<close>

theorem long_key_corrupts:
  assumes "length key = 2 ^ 16 + n" and "n < 2 ^ 16"
  shows "kv_bytes (key, []) = le_put 2 (of_nat n :: u16) @ le_put 2 (1 :: u16) @ key"
proof -
  have b: "bit (65536 :: u32) i = (i = 16)" for i
    using bit_exp_iff [where 'a = u32, of 16 i] by auto
  have b': "bit (65536 :: nat) i = (i = 16)" "bit (65536 :: int) i = (i = 16)" for i
    using bit_exp_iff [where 'a = nat, of 16 i] bit_exp_iff [where 'a = int, of 16 i] by auto
  have *: "(of_nat (length key) :: u32) = push_bit 16 1 OR of_nat n"
  proof -
    have "push_bit 16 1 AND (of_nat n :: u32) = 0"
    proof (rule bit_word_eqI)
      fix i
      have "i = 16 \<Longrightarrow> \<not> bit n i" using assms(2) by (simp add: bit_iff_odd)
      moreover have "bit (push_bit 16 (1 :: u32)) i = (i = 16)" by (auto simp: b b')
      ultimately show "bit (push_bit 16 1 AND (of_nat n :: u32)) i = bit (0 :: u32) i"
        unfolding bit_and_iff by (auto simp: bit_of_nat_iff)
    qed
    then show ?thesis using disjunctive_add_eq_or [of "push_bit 16 1" "of_nat n :: u32"] assms(1) by simp
  qed
  have k: "\<not> bit n (i + 16)" for i
    using assms(2) power_increasing [of 16 "i + 16" "2 :: nat"] by (simp add: bit_iff_odd)
  have "ucast (kv_lens (key, [])) = (of_nat n :: u16)"
    by (rule bit_word_eqI) (auto simp: kv_lens_def * b b' bit_simps bit_of_nat_iff)
  moreover have "ucast (drop_bit 16 (kv_lens (key, []))) = (1 :: u16)"
    by (rule bit_word_eqI) (auto simp: kv_lens_def * b b' bit_simps bit_of_nat_iff k add.commute)
  moreover have "le_put 4 (kv_lens (key, [])) = le_put 2 (kv_lens (key, [])) @ le_put 2 (drop_bit 16 (kv_lens (key, [])))"
    using le_put_append [of 2 2 "kv_lens (key, [])"] by simp
  ultimately show ?thesis
    using le_put_ucast [of 2 "kv_lens (key, [])", where 'b = 16]
      le_put_ucast [of 2 "drop_bit 16 (kv_lens (key, []))", where 'b = 16]
    by (simp add: kv_bytes_def)
qed

lemma long_key_corrupts_witness:
  "kv_bytes (replicate (2 ^ 16 + 3) 0, []) = le_put 2 (of_nat 3 :: u16) @ le_put 2 (1 :: u16) @ replicate (2 ^ 16 + 3) 0"
  by (rule long_key_corrupts) simp_all

end
