(* ===== verification/NtwkServer.thy ===== *)
theory NtwkServer
  imports NtwkResp "HOL-Library.Monad_Syntax"
begin

text \<open>
  \<open>ntwk/server.go\<close>: the server of the service runner, on a connection and over HTTP.

  \<^item> \<open>nframe\<close> is one round of \<open>handleConn\<close>'s loop, \<open>nloop\<close> the loop, which gives the goroutines it
    started.  Every round takes the bytes of at least the initial bytes, so the loop is a total
    function on what is still to arrive.
  \<^item> \<open>ntask_run\<close> is such a goroutine: \<open>handleAdd\<close> and the other four, with the state of the locked
    writer, and a panic where a nil message is dereferenced.
  \<^item> The source passes one argument to \<open>s.Add\<close> in \<open>ServeAddHTTP\<close> where \<open>Add\<close> has two, assigns
    \<open>maxBodyLen\<close> without using it, and uses \<open>fmt\<close> in \<open>req_resp.go\<close> without importing it: it does not
    compile as it is.  The model reads the call as one with the request's message.
\<close>

section \<open>Reading requests\<close>

definition initialBytesLen :: int where "initialBytesLen = 16"

definition initialBytesBytes :: bytes where
  "initialBytesBytes = [0, 0, 0, 0, 0, 1, 5] @ lit ''jtrpc'' @ [0, 0] @ [1, 0]"

text \<open>\<open>io.CopyN\<close> into the buffer that was just reset; the source returns on every error of it.\<close>

definition nread :: "int \<Rightarrow> bytes \<Rightarrow> (bytes \<times> bytes) option" where
  "nread n r = (case CopyN n r of (a, r', e) \<Rightarrow> if e = None then Some (a, r') else None)"

definition maxHeaderLen :: "nserver \<Rightarrow> int" where
  "maxHeaderLen S = (if MaxHeaderLen S = 0 then 2 ^ 32 - 1 else uint (MaxHeaderLen S))"

text \<open>The id, the name, the lengths of headers and body, and what follows them; \<open>None\<close> where the source
  returns.  The length of the body, a signed number here, is compared with the limit of the
  headers.\<close>

definition nhead :: "int \<Rightarrow> bytes \<Rightarrow> ((u64 \<times> gostring \<times> u32 \<times> u64) \<times> bytes) option" where
  "nhead maxHeader r = do {
     (initial, r) \<leftarrow> nread initialBytesLen r;
     if initial \<noteq> initialBytesBytes then None
     else do {
       (i, r) \<leftarrow> nread 8 r;
       (l, r) \<leftarrow> nread 2 r;
       (fnName, r) \<leftarrow> nread (uint (le_get l :: u16)) r;
       (hl, r) \<leftarrow> nread 4 r;
       if uint (le_get hl :: u32) > maxHeader then None
       else do {
         (bl, r) \<leftarrow> nread 8 r;
         if sint (le_get bl :: u64) > maxHeader then None
         else Some ((le_get i, fnName, le_get hl, le_get bl), r)
       }
     }
   }"

datatype nop = OpAdd | OpSub | OpMul | OpDiv | OpPow

definition nop_of :: "gostring \<Rightarrow> nop option" where
  "nop_of fnName =
     (if fnName = lit ''add'' then Some OpAdd
      else if fnName = lit ''sub'' then Some OpSub
      else if fnName = lit ''mul'' then Some OpMul
      else if fnName = lit ''div'' then Some OpDiv
      else if fnName = lit ''pow'' then Some OpPow
      else None)"

record 'm ntask =
  nt_op :: nop
  nt_req :: "'m nrequest"
  nt_rw :: nrwriter

text \<open>An operation: its buffers, the headers and the body, whose read error is ignored, and the
  goroutine.\<close>

definition nstart ::
    "(bytes option list \<Rightarrow> nat option) \<Rightarrow> u64 \<Rightarrow> u32 \<Rightarrow> u64 \<Rightarrow> nop \<Rightarrow> nserver \<Rightarrow> bytes \<Rightarrow>
     (nserver \<times> (bytes \<times> 'm ntask option) option) outcome" where
  "nstart pick i hl bl op S r =
     (case pool_Get pick (headerBuffers S) of (hb, hp) \<Rightarrow>
      (case pool_Get pick (bodyBuffers S) of (bb, bp) \<Rightarrow>
         obind (readHeadersBodyInto hb hl bb bl r) (\<lambda>(hb, bb, r, e).
           Returns (S\<lparr>headerBuffers := hp, bodyBuffers := bp\<rparr>,
             Some (r, Some \<lparr>nt_op = op, nt_req = nnewRequest i hb bb, nt_rw = zero_writer i\<rparr>)))))"

definition ndiscard :: "u32 \<Rightarrow> u64 \<Rightarrow> bytes \<Rightarrow> bytes" where
  "ndiscard hl bl r =
     (case CopyN (uint hl) r of (_, r, e) \<Rightarrow>
        if e \<noteq> None then r else (case CopyN (sint bl) r of (_, r, _) \<Rightarrow> r))"

text \<open>The result of a round: the server, and unless the source returns what is left to read and the
  goroutine it started.\<close>

definition nframe ::
    "(bytes option list \<Rightarrow> nat option) \<Rightarrow> nserver \<Rightarrow> bytes \<Rightarrow> (nserver \<times> (bytes \<times> 'm ntask option) option) outcome" where
  "nframe pick S r =
     (case pool_Get pick (headerBuffers S) of (buf, hp) \<Rightarrow>
        (let S = S\<lparr>headerBuffers := hp\<rparr>
         in if buf = None then Panics NilDeref
            else (case nhead (maxHeaderLen S) r of
                    None \<Rightarrow> Returns (S, None)
                  | Some ((i, fnName, hl, bl), r) \<Rightarrow>
                      (case nop_of fnName of
                         Some op \<Rightarrow> nstart pick i hl bl op S r
                       | None \<Rightarrow>
                           if fnName = lit ''stream_add'' then Returns (S, Some (r, None))
                           else Returns (S, Some (ndiscard hl bl r, None))))))"

lemma nread_Some: "nread n r = Some (a, r') \<longleftrightarrow> r = a @ r' \<and> length a = nat n"
proof
  assume "nread n r = Some (a, r')"
  then show "r = a @ r' \<and> length a = nat n"
    by (auto simp: nread_def CopyN_def split: if_splits)
next
  assume "r = a @ r' \<and> length a = nat n"
  then show "nread n r = Some (a, r')"
    by (cases "0 \<le> n") (auto simp: nread_def CopyN_def)
qed

lemma nhead_shorter: "nhead m r = Some (x, r') \<Longrightarrow> length r' + 16 \<le> length r"
  by (auto simp: nhead_def nread_Some initialBytesLen_def split: Option.bind_splits if_splits)

lemma copy_into_shorter: "copy_into b n r = Returns (b', r', e) \<Longrightarrow> length r' \<le> length r"
  by (auto simp: copy_into_def CopyN_def split: option.splits if_splits)

lemma nframe_shorter: "nframe pick S r = Returns (S', Some (r', t)) \<Longrightarrow> length r' < length r"
proof -
  assume f: "nframe pick S r = Returns (S', Some (r', t))"
  obtain buf hp where g: "pool_Get pick (headerBuffers S) = (buf, hp)" by force
  with f obtain i fnName hl bl r1 where h: "nhead (maxHeaderLen (S\<lparr>headerBuffers := hp\<rparr>)) r = Some ((i, fnName, hl, bl), r1)"
    by (auto simp: nframe_def Let_def split: if_splits option.splits)
  have "length r' \<le> length r1"
    using f g h
    by (auto simp: nframe_def Let_def nstart_def readHeadersBodyInto_def readHeadersInto_def readBodyInto_def
        ndiscard_def CopyN_def outcome_simps dest!: copy_into_shorter split: if_splits option.splits prod.splits)
  then show ?thesis using nhead_shorter [OF h] by simp
qed

function nloop :: "(bytes option list \<Rightarrow> nat option) \<Rightarrow> nserver \<Rightarrow> bytes \<Rightarrow> (nserver \<times> 'm ntask list) outcome" where
  "nloop pick S r =
     (case nframe pick S r of
        Panics p \<Rightarrow> Panics p
      | Blocks \<Rightarrow> Blocks
      | Returns (S', None) \<Rightarrow> Returns (S', [])
      | Returns (S', Some (r', t)) \<Rightarrow>
          obind (nloop pick S' r') (\<lambda>(S'', ts). Returns (S'', (case t of None \<Rightarrow> ts | Some t \<Rightarrow> t # ts))))"
  by pat_completeness auto
termination
  by (relation "measure (\<lambda>(_, _, r). length r)") (auto simp: nframe_shorter)

declare nloop.simps [simp del]

definition handleConn :: "(bytes option list \<Rightarrow> nat option) \<Rightarrow> nserver \<Rightarrow> bytes \<Rightarrow> (nserver \<times> 'm ntask list) outcome" where
  "handleConn pick S r = nloop pick S r"

text \<open>\<open>Run\<close> on what \<open>net.Listen\<close> gives for the server's address: the connections that \<open>handleConn\<close> is
  started on in \<open>n\<close> rounds of its loop.\<close>

definition nServer_Run :: "(gostring \<Rightarrow> 'e + 'l) \<Rightarrow> ('l \<Rightarrow> ('l \<times> ('e + 'c)) outcome) \<Rightarrow> nat \<Rightarrow> gostring \<Rightarrow>
    'e + 'c list \<times> ('l \<times> 'e option) outcome" where
  "nServer_Run listen accept n addr =
     (case listen addr of Inl e \<Rightarrow> Inl e | Inr ln \<Rightarrow> Inr (serve_rounds accept n ln))"

section \<open>The operations\<close>

type_synonym 'f nresult = "'f noutput option \<times> nerror option"

definition nAdd :: "'f nenv \<Rightarrow> 'f ninput option \<Rightarrow> 'f nresult outcome" where
  "nAdd E i = (case i of None \<Rightarrow> Panics NilDeref
     | Some x \<Rightarrow> Returns (Some \<lparr>out_Value = f_add E (in_A x) (in_B x)\<rparr>, None))"

definition nSub :: "'f nenv \<Rightarrow> 'f ninput option \<Rightarrow> 'f nresult outcome" where
  "nSub E i = (case i of None \<Rightarrow> Panics NilDeref
     | Some x \<Rightarrow> Returns (Some \<lparr>out_Value = f_sub E (in_A x) (in_B x)\<rparr>, None))"

definition nMul :: "'f nenv \<Rightarrow> 'f ninput option \<Rightarrow> 'f nresult outcome" where
  "nMul E i = (case i of None \<Rightarrow> Panics NilDeref
     | Some x \<Rightarrow> Returns (Some \<lparr>out_Value = f_mul E (in_A x) (in_B x)\<rparr>, None))"

definition nDiv :: "'f nenv \<Rightarrow> 'f ninput option \<Rightarrow> 'f nresult outcome" where
  "nDiv E i = (case i of None \<Rightarrow> Panics NilDeref
     | Some x \<Rightarrow>
         if f_is0 E (in_B x) then Returns (None, Some DivideBy0)
         else Returns (Some \<lparr>out_Value = f_div E (in_A x) (in_B x)\<rparr>, None))"

definition nPow :: "'f nenv \<Rightarrow> 'f ninput option \<Rightarrow> 'f nresult outcome" where
  "nPow E i = (case i of None \<Rightarrow> Panics NilDeref
     | Some x \<Rightarrow> Returns (Some \<lparr>out_Value = f_pow E (in_A x) (in_B x)\<rparr>, None))"

text \<open>What a caller of \<open>ntwk/service.go\<close>'s interface \<open>Service\<close> relies on: an operation returns on every
  message, with a result or an error and not both, and dereferences the message it is given.\<close>

locale service_operation =
  fixes f :: "'f ninput option \<Rightarrow> 'f nresult outcome"
  assumes nil_message: "f None = Panics NilDeref"
    and result_or_error: "\<exists>msg err. f (Some x) = Returns (msg, err) \<and> (msg = None \<longleftrightarrow> err \<noteq> None)"
begin

lemma run_nil: "obind (f None) g = Panics NilDeref"
  by (simp add: nil_message)

lemma run_message:
  obtains msg err where "obind (f (Some x)) g = g (msg, err)" "msg = None \<longleftrightarrow> err \<noteq> None"
  using result_or_error [of x] by auto

end

interpretation add_op: service_operation "nAdd E" for E
  by unfold_locales (simp_all add: nAdd_def)

interpretation sub_op: service_operation "nSub E" for E
  by unfold_locales (simp_all add: nSub_def)

interpretation mul_op: service_operation "nMul E" for E
  by unfold_locales (simp_all add: nMul_def)

interpretation div_op: service_operation "nDiv E" for E
  by unfold_locales (simp_all add: nDiv_def)

interpretation pow_op: service_operation "nPow E" for E
  by unfold_locales (simp_all add: nPow_def)

text \<open>\<open>handleAdd\<close> locks the writer and does not unlock it; an error of the write is ignored.  The
  others only print their result.\<close>

definition handleAdd ::
    "(ioerr \<Rightarrow> gostring) \<Rightarrow> 'f nenv \<Rightarrow> 'f ninput nrequest \<Rightarrow> nrwriter \<Rightarrow> lwriter \<Rightarrow> lwriter outcome" where
  "handleAdd io_text E r rw lw =
     obind (nAdd E (nq_Data r)) (\<lambda>(msg, err).
       let resp = nnewResponse io_text (nq_id r) msg err
       in obind (lw_Lock lw) (\<lambda>lw.
            obind (writeOutResponse E rw resp (lw_w lw)) (\<lambda>(w, e). Returns (lw\<lparr>lw_w := w\<rparr>))))"

definition handleSub :: "'f nenv \<Rightarrow> 'f ninput nrequest \<Rightarrow> nrwriter \<Rightarrow> lwriter \<Rightarrow> lwriter outcome" where
  "handleSub E r rw lw = obind (nSub E (nq_Data r)) (\<lambda>(msg, err). Returns lw)"

definition handleMul :: "'f nenv \<Rightarrow> 'f ninput nrequest \<Rightarrow> nrwriter \<Rightarrow> lwriter \<Rightarrow> lwriter outcome" where
  "handleMul E r rw lw = obind (nMul E (nq_Data r)) (\<lambda>(msg, err). Returns lw)"

definition handleDiv :: "'f nenv \<Rightarrow> 'f ninput nrequest \<Rightarrow> nrwriter \<Rightarrow> lwriter \<Rightarrow> lwriter outcome" where
  "handleDiv E r rw lw = obind (nDiv E (nq_Data r)) (\<lambda>(msg, err). Returns lw)"

definition handlePow :: "'f nenv \<Rightarrow> 'f ninput nrequest \<Rightarrow> nrwriter \<Rightarrow> lwriter \<Rightarrow> lwriter outcome" where
  "handlePow E r rw lw = obind (nPow E (nq_Data r)) (\<lambda>(msg, err). Returns lw)"

text \<open>\<open>handleStreamAdd\<close>, which nothing calls, does nothing.\<close>

definition handleStreamAdd :: "'f ninput nrequest \<Rightarrow> nrwriter \<Rightarrow> lwriter \<Rightarrow> lwriter outcome" where
  "handleStreamAdd r rw lw = Returns lw"

fun ntask_run :: "(ioerr \<Rightarrow> gostring) \<Rightarrow> 'f nenv \<Rightarrow> 'f ninput ntask \<Rightarrow> lwriter \<Rightarrow> lwriter outcome" where
  "ntask_run io_text E t lw =
     (case nt_op t of
        OpAdd \<Rightarrow> handleAdd io_text E (nt_req t) (nt_rw t) lw
      | OpSub \<Rightarrow> handleSub E (nt_req t) (nt_rw t) lw
      | OpMul \<Rightarrow> handleMul E (nt_req t) (nt_rw t) lw
      | OpDiv \<Rightarrow> handleDiv E (nt_req t) (nt_rw t) lw
      | OpPow \<Rightarrow> handlePow E (nt_req t) (nt_rw t) lw)"

text \<open>\<open>StreamAdd\<close> loops until an error; not returning is \<open>None\<close>.\<close>

partial_function (option) StreamAdd :: "'f nenv \<Rightarrow> nstream \<Rightarrow> nerror outcome option" where
  "StreamAdd E s =
     (case nStream_Recv s of (s, i, err) \<Rightarrow>
        (case err of
           Some x \<Rightarrow> Some (Returns x)
         | None \<Rightarrow>
             (case i of
                None \<Rightarrow> Some (Panics NilDeref)
              | Some (x :: 'f ninput) \<Rightarrow>
                  (case nStream_Send (Some \<lparr>out_Value = f_add E (in_A x) (in_B x)\<rparr>) s of (s, err) \<Rightarrow>
                     (case err of Some x \<Rightarrow> Some (Returns x) | None \<Rightarrow> StreamAdd E s)))))"

section \<open>Requests on a connection\<close>

text \<open>A request as the wire format has it: its id, its name, its headers and its body.\<close>

type_synonym nreq = "u64 \<times> gostring \<times> bytes \<times> bytes"

fun nwire :: "nreq \<Rightarrow> bytes" where
  "nwire (i, name, h, b) =
     initialBytesBytes @ le_put 8 i @ le_put 2 (of_nat (length name) :: u16) @ name @
     le_put 4 (of_nat (length h) :: u32) @ le_put 8 (of_nat (length b) :: u64) @ h @ b"

fun nfits :: "nserver \<Rightarrow> nreq \<Rightarrow> bool" where
  "nfits S (i, name, h, b) \<longleftrightarrow> length name < 2 ^ 16 \<and> length h < 2 ^ 32 \<and> int (length h) \<le> maxHeaderLen S \<and>
     length b < 2 ^ 63"

lemma nread_append [simp]: "n = int (length a) \<Longrightarrow> nread n (a @ r) = Some (a, r)"
  by (simp add: nread_Some)

lemma length_initialBytesBytes [simp]: "length initialBytesBytes = 16"
  by (simp add: initialBytesBytes_def lit_def)

lemma uint_len:
  "n < 2 ^ 16 \<Longrightarrow> uint (of_nat n :: u16) = int n" "n < 2 ^ 32 \<Longrightarrow> uint (of_nat n :: u32) = int n"
  by (simp_all add: unsigned_of_nat take_bit_nat_eq_self_iff)

lemma sint_len: "n < 2 ^ 63 \<Longrightarrow> sint (of_nat n :: u64) = int n"
  by (simp add: signed_of_nat signed_take_bit_int_eq_self)

lemma le_get_put_id [simp]:
  "le_get (le_put 2 (s :: u16)) = s" "le_get (le_put 4 (u :: u32)) = u" "le_get (le_put 8 (v :: u64)) = v"
  by (simp_all add: le_get_put take_bit_word_eq_self)

lemma nhead_wire:
  assumes "nfits S (i, name, h, b)"
  shows "nhead (maxHeaderLen S) (nwire (i, name, h, b) @ r) =
    (if int (length b) \<le> maxHeaderLen S
     then Some ((i, name, of_nat (length h), of_nat (length b)), h @ b @ r) else None)"
  using assms by (simp add: nhead_def initialBytesLen_def uint_len sint_len)

lemma pool_Get_empty [simp]: "pool_Get pick [] = (Some [], [])"
  by (simp add: pool_Get_def split: option.split)

text \<open>The buffers a request gets; without any in the pools they are new.\<close>

definition fresh :: "nserver \<Rightarrow> bool" where
  "fresh S \<longleftrightarrow> headerBuffers S = [] \<and> bodyBuffers S = []"

lemma fresh_nNewServer: "fresh nNewServer"
  by (simp add: fresh_def nNewServer_def)

lemma fresh_same [simp]: "fresh S \<Longrightarrow> S\<lparr>headerBuffers := [], bodyBuffers := []\<rparr> = S"
  "fresh S \<Longrightarrow> S\<lparr>headerBuffers := []\<rparr> = S" "fresh S \<Longrightarrow> S\<lparr>bodyBuffers := []\<rparr> = S"
  by (simp_all add: fresh_def)

fun ntasks :: "nreq \<Rightarrow> 'm ntask list" where
  "ntasks (i, name, h, b) =
     (case nop_of name of
        None \<Rightarrow> []
      | Some op \<Rightarrow> [\<lparr>nt_op = op, nt_req = \<lparr>nq_id = i, nq_headersBuf = Some h, nq_bodyBuf = Some b, nq_Data = None\<rparr>,
          nt_rw = zero_writer i\<rparr>])"

lemma nframe_wire:
  assumes "fresh S" and "nfits S (i, name, h, b)" and "int (length b) \<le> maxHeaderLen S" and "name \<noteq> lit ''stream_add''"
  shows "nframe pick S (nwire (i, name, h, b) @ r) =
    Returns (S, Some (r, case ntasks (i, name, h, b) of [] \<Rightarrow> None | t # _ \<Rightarrow> Some t))"
proof -
  have l: "length name < 2 ^ 16" "length h < 2 ^ 32" "length b < 2 ^ 63" using assms(2) by auto
  have e: "headerBuffers S = []" "bodyBuffers S = []" using assms(1) by (auto simp: fresh_def)
  show ?thesis
  proof (cases "nop_of name")
    case None
    then show ?thesis
      using nhead_wire [OF assms(2), of r] assms(1,3,4) l
      by (simp add: nframe_def e Let_def ndiscard_def uint_len sint_len)
  next
    case (Some op)
    then show ?thesis
      using nhead_wire [OF assms(2), of r] assms(1,3,4) l
      by (simp add: nframe_def e Let_def nstart_def readHeadersBodyInto_def readHeadersInto_def readBodyInto_def
          copy_into_def uint_len sint_len nnewRequest_def)
  qed
qed

lemma requests_tasks:
  assumes "fresh S" and "nhead (maxHeaderLen S) r = None"
    and "\<forall>q\<in>set qs. nfits S q \<and> int (length (snd (snd (snd q)))) \<le> maxHeaderLen S \<and> fst (snd q) \<noteq> lit ''stream_add''"
  shows "handleConn pick S (concat (map nwire qs) @ r) = Returns (S, concat (map ntasks qs) :: 'm ntask list)"
  using assms(3)
proof (induction qs)
  case Nil
  have "nframe pick S r = Returns (S, None :: (bytes \<times> 'm ntask option) option)"
    using assms(1,2) by (simp add: nframe_def fresh_def Let_def)
  then show ?case by (subst handleConn_def, subst nloop.simps) simp
next
  case (Cons q qs)
  obtain i name h b where q: "q = (i, name, h, b)" by (cases q) auto
  have f: "nframe pick S (nwire q @ concat (map nwire qs) @ r) =
      Returns (S, Some (concat (map nwire qs) @ r, case ntasks q of [] \<Rightarrow> None | t # _ \<Rightarrow> Some (t :: 'm ntask)))"
    using nframe_wire [OF assms(1), of i name h b pick "concat (map nwire qs) @ r"] Cons.prems by (simp add: q del: nwire.simps)
  have "nloop pick S (concat (map nwire qs) @ r) = Returns (S, concat (map ntasks qs) :: 'm ntask list)"
    using Cons by (simp add: handleConn_def)
  moreover have "ntasks q = ([] :: 'm ntask list) \<or> (\<exists>t. ntasks q = [t :: 'm ntask])" by (auto simp: q split: option.split)
  ultimately show ?case
    unfolding handleConn_def by (subst nloop.simps) (auto simp: f simp del: nwire.simps)
qed

text \<open>C24: Requests start their operations.  A server whose buffers are its own reads requests sent back to
  back, each name short enough and headers and body within the limit of the headers, in order;
  every one of the five operations starts one goroutine, with its id, exactly its headers and its
  body, and an unknown name is skipped with its headers and body.  Then the server goes on with
  what follows, here bytes it closes the connection on.\<close>

theorem requests_start_tasks:
  assumes "fresh S" and "nhead (maxHeaderLen S) r = None"
    and "\<forall>q\<in>set qs. nfits S q \<and> int (length (snd (snd (snd q)))) \<le> maxHeaderLen S \<and> fst (snd q) \<noteq> lit ''stream_add''"
  shows "handleConn pick S (concat (map nwire qs) @ r) = Returns (S, concat (map ntasks qs) :: 'm ntask list)"
  by (rule requests_tasks [OF assms])

lemma requests_start_tasks_witness:
  "handleConn (\<lambda>_. None) nNewServer
     (concat (map nwire [(1, lit ''add'', [], [5]), (2, lit ''none'', [], [6]), (3, lit ''pow'', [7], [])]) @ []) =
   Returns (nNewServer, concat (map ntasks [(1, lit ''add'', [], [5]), (2, lit ''none'', [], [6]), (3, lit ''pow'', [7], [])]))"
  by (rule requests_start_tasks)
    (simp_all add: fresh_def nhead_def nread_def CopyN_def initialBytesLen_def lit_def
      nNewServer_def DefaultMaxHeaderLen_def maxHeaderLen_def)

lemma nloop_stop:
  "nframe pick S r = Returns (S', None :: (bytes \<times> 'm ntask option) option) \<Longrightarrow>
   nloop pick S r = Returns (S', [] :: 'm ntask list)"
  by (subst nloop.simps) simp

lemma nloop_skip:
  assumes "nframe pick S r = Returns (S', Some (r', None :: 'm ntask option))"
  shows "nloop pick S r = (nloop pick S' r' :: (nserver \<times> 'm ntask list) outcome)"
  using assms
  by (subst nloop.simps) (cases "nloop pick S' r' :: (nserver \<times> 'm ntask list) outcome"; simp add: split_beta)

lemma nframe_head_None:
  "fresh S \<Longrightarrow> nhead (maxHeaderLen S) r = None \<Longrightarrow> nframe pick S r = Returns (S, None)"
  by (simp add: nframe_def fresh_def Let_def)

text \<open>The body is measured with the limit of the headers.  A request whose body is longer than
  \<open>MaxHeaderLen\<close>, however large \<open>MaxBodyLen\<close> is, makes the server close the connection without an
  answer and without starting anything.\<close>

theorem body_over_header_limit:
  assumes "fresh S" and "nfits S (i, name, h, b)" and "maxHeaderLen S < int (length b)"
  shows "handleConn pick S (nwire (i, name, h, b) @ r) = Returns (S, [])"
  unfolding handleConn_def
  by (rule nloop_stop [OF nframe_head_None [OF assms(1)]]) (use nhead_wire [OF assms(2), of r] assms(3) in simp)

lemma body_over_header_limit_witness:
  "handleConn (\<lambda>_. None) nNewServer (nwire (1, lit ''add'', [], replicate 32769 0) @ []) = Returns (nNewServer, [])"
  by (rule body_over_header_limit)
    (simp_all add: fresh_def nNewServer_def DefaultMaxHeaderLen_def maxHeaderLen_def lit_def)

text \<open>A request for \<open>stream_add\<close> is not skipped.  The server goes on behind its lengths: its headers
  and its body are read as the next request, and unless they begin like one the connection is
  closed, whatever was sent behind them.\<close>

theorem stream_add_desyncs:
  assumes "fresh S" and "nfits S (i, lit ''stream_add'', h, b)" and "int (length b) \<le> maxHeaderLen S"
  shows "nframe pick S (nwire (i, lit ''stream_add'', h, b) @ r) = Returns (S, Some (h @ b @ r, None :: 'm ntask option)) \<and>
    (if take 16 (h @ b @ r) = initialBytesBytes
     then handleConn pick S (nwire (i, lit ''stream_add'', h, b) @ r) = (handleConn pick S (h @ b @ r) :: (nserver \<times> 'm ntask list) outcome)
     else handleConn pick S (nwire (i, lit ''stream_add'', h, b) @ r) = Returns (S, [] :: 'm ntask list))"
proof -
  have n: "nop_of (lit ''stream_add'') = None" by (simp add: nop_of_def lit_def)
  have f: "nframe pick S (nwire (i, lit ''stream_add'', h, b) @ r) = Returns (S, Some (h @ b @ r, None :: 'm ntask option))"
    using nhead_wire [OF assms(2), of r] assms(1,3) n by (simp add: nframe_def fresh_def Let_def)
  have h: "nhead (maxHeaderLen S) (h @ b @ r) = None" if t: "take 16 (h @ b @ r) \<noteq> initialBytesBytes"
  proof (cases "nread initialBytesLen (h @ b @ r)")
    case (Some x)
    then obtain a r' where x: "x = (a, r')" "h @ b @ r = a @ r'" "length a = 16"
      by (cases x) (auto simp: nread_Some initialBytesLen_def)
    then have "a \<noteq> initialBytesBytes" using t by simp
    then show ?thesis using Some by (simp add: nhead_def x(1))
  qed (simp add: nhead_def)
  have "nloop pick S (h @ b @ r) = Returns (S, [] :: 'm ntask list)" if "take 16 (h @ b @ r) \<noteq> initialBytesBytes"
    by (rule nloop_stop [OF nframe_head_None [OF assms(1) h [OF that]]])
  then show ?thesis
    using f nloop_skip [OF f]
    by (simp add: handleConn_def del: nwire.simps)
qed

lemma stream_add_desyncs_witness:
  "nframe (\<lambda>_. None) nNewServer (nwire (1, lit ''stream_add'', [], [5]) @ [6]) = Returns (nNewServer, Some ([] @ [5] @ [6], None :: nat ntask option)) \<and>
    (if take 16 ([] @ [5] @ [6]) = initialBytesBytes
     then handleConn (\<lambda>_. None) nNewServer (nwire (1, lit ''stream_add'', [], [5]) @ [6]) =
       (handleConn (\<lambda>_. None) nNewServer ([] @ [5] @ [6]) :: (nserver \<times> nat ntask list) outcome)
     else handleConn (\<lambda>_. None) nNewServer (nwire (1, lit ''stream_add'', [], [5]) @ [6]) = Returns (nNewServer, [] :: nat ntask list))"
  by (rule stream_add_desyncs)
    (simp_all add: fresh_def nNewServer_def DefaultMaxHeaderLen_def maxHeaderLen_def lit_def)

lemma nframe_data:
  "nframe pick S r = Returns (S', Some (r', Some t)) \<Longrightarrow> nq_Data (nt_req t) = None"
  by (auto simp: nframe_def nstart_def nnewRequest_def Let_def outcome_simps split: if_splits option.splits prod.splits)

lemma nloop_data:
  fixes t :: "'m ntask"
  shows "nloop pick S r = Returns (S', ts) \<Longrightarrow> t \<in> set ts \<Longrightarrow> nq_Data (nt_req t) = None"
proof (induction "length r" arbitrary: S r S' ts rule: less_induct)
  case less
  from less.prems(1) consider "ts = []"
    | S1 r1 u us where "nframe pick S r = Returns (S1, Some (r1, u :: 'm ntask option))"
        "nloop pick S1 r1 = Returns (S', us)" "ts = (case u of None \<Rightarrow> us | Some t \<Rightarrow> t # us)"
    by (subst (asm) nloop.simps) (auto simp: outcome_simps split: outcome.splits option.splits prod.splits)
  then show ?case
  proof cases
    case 2
    have "length r1 < length r" using nframe_shorter [OF 2(1)] .
    from less.hyps [OF this 2(2)] show ?thesis
      using 2(3) less.prems(2) nframe_data [of pick S r S1 r1] 2(1) by (auto split: option.splits)
  qed (use less.prems(2) in simp)
qed

text \<open>Every operation crashes the program.  The goroutine of any request the server reads from a
  connection dereferences the nil message: the body is never parsed into \<open>Data\<close>.\<close>

theorem tasks_panic:
  assumes "handleConn pick S r = Returns (S', ts)" and "t \<in> set ts"
  shows "ntask_run io_text E t lw = Panics NilDeref"
proof -
  have n: "nq_Data (nt_req t) = None" using assms nloop_data by (auto simp: handleConn_def)
  then show ?thesis
    by (cases "nt_op t")
      (simp_all add: handleAdd_def handleSub_def handleMul_def handleDiv_def handlePow_def
        add_op.run_nil sub_op.run_nil mul_op.run_nil div_op.run_nil pow_op.run_nil)
qed

lemma tasks_panic_witness:
  "let t = hd (ntasks (1, lit ''add'', [], [5]))
   in ntask_run (\<lambda>_. []) demo_nenv t (NewLockedWriter \<lparr>out = [], room = None\<rparr>) = Panics NilDeref"
  unfolding Let_def
proof (rule tasks_panic)
  show "handleConn (\<lambda>_. None) nNewServer (concat (map nwire [(1, lit ''add'', [], [5])]) @ []) =
      Returns (nNewServer, concat (map ntasks [(1, lit ''add'', [], [5])]))"
    by (rule requests_tasks)
      (simp_all add: fresh_def nhead_def nread_def CopyN_def initialBytesLen_def lit_def
        nNewServer_def DefaultMaxHeaderLen_def maxHeaderLen_def)
qed (simp add: nop_of_def lit_def)

text \<open>What the code means to do: an addition with its message is answered.  \<open>handleAdd\<close> on a working
  connection whose writer is free sends a response that is read as the request's id, no error
  and the encoded sum, without headers and trailers.  It keeps the lock: whoever adds next on that
  connection waits for ever.\<close>

theorem add_answers_once:
  assumes "nq_Data q = Some x" and "\<not> lw_locked lw" and "room (lw_w lw) = None"
    and "enc_out E (Some \<lparr>out_Value = f_add E (in_A x) (in_B x)\<rparr>) = Inr d" and "length d < 2 ^ 64"
    and "nq_Data q' = Some x'"
  shows "\<exists>b lw'. handleAdd io_text E q (zero_writer (nq_id q)) lw = Returns lw' \<and>
    out (lw_w lw') = out (lw_w lw) @ b \<and>
    read_response (b @ rest) = Some ((nq_id q, StatusOk, []), ([], d, []), rest) \<and>
    handleAdd io_text E q' rw lw' = Blocks"
proof -
  let ?resp = "nnewResponse io_text (nq_id q) (Some \<lparr>out_Value = f_add E (in_A x) (in_B x)\<rparr>) None"
  have r: "np_Status ?resp = StatusOk" "np_Error ?resp = []" "np_reqId ?resp = nq_id q"
    "np_Data ?resp = Some \<lparr>out_Value = f_add E (in_A x) (in_B x)\<rparr>"
    by (simp_all add: nnewResponse_def StatusOk_def)
  obtain b where b: "writeOutResponse E (zero_writer (nq_id q)) ?resp (lw_w lw) = Returns ((lw_w lw)\<lparr>out := out (lw_w lw) @ b\<rparr>, None)"
    "read_response (b @ rest) = Some ((nq_id q, StatusOk, []), ([], d, []), rest)"
    using nresponse_read [where resp = ?resp and rw = "zero_writer (nq_id q)" and w = "lw_w lw" and E = E and d = d and rest = rest]
      assms(3-5) rwriter_ok_start
    by (auto simp: r answered_def zero_writer_def)
  then show ?thesis
    using assms by (auto simp: handleAdd_def nAdd_def lw_Lock_def Let_def)
qed

lemma add_answers_once_witness:
  "let q = \<lparr>nq_id = 1, nq_headersBuf = None, nq_bodyBuf = None, nq_Data = Some \<lparr>in_A = 2 :: byte, in_B = 3\<rparr>\<rparr>;
     lw = NewLockedWriter \<lparr>out = [], room = None\<rparr>
   in \<exists>b lw'. handleAdd (\<lambda>_. []) demo_nenv q (zero_writer (nq_id q)) lw = Returns lw' \<and>
    out (lw_w lw') = out (lw_w lw) @ b \<and>
    read_response (b @ []) = Some ((nq_id q, StatusOk, []), ([], [5], []), []) \<and>
    handleAdd (\<lambda>_. []) demo_nenv q (zero_writer 2) lw' = Blocks"
  unfolding Let_def
  by (rule add_answers_once [where x = "\<lparr>in_A = 2, in_B = 3\<rparr>" and x' = "\<lparr>in_A = 2, in_B = 3\<rparr>"])
    (simp_all add: NewLockedWriter_def demo_nenv_def)

text \<open>\<open>StreamAdd\<close> dereferences the nil message \<open>Recv\<close> gives before it sends anything.\<close>

theorem StreamAdd_panics: "StreamAdd E s = Some (Panics NilDeref)"
  by (subst StreamAdd.simps) (simp add: nStream_Recv_def)

text \<open>Buffers are not emptied.  When a request is closed and its buffers go back to the pools, a later
  request that gets the body buffer has the body of the first one in front of its own.  Closed
  twice, its buffers are nil in the pools, and the next request that gets one crashes the server.\<close>

theorem stale_body:
  assumes "fresh S" and "nfits S (i, name, h, b)" and "int (length b) \<le> maxHeaderLen S" and "nop_of name = Some op"
    and "nq_headersBuf q = Some h0" and "nq_bodyBuf q = Some b0" and "S1 = fst (nRequest_Close S q)"
    and "S2 = fst (nRequest_Close S1 (snd (nRequest_Close S q)))"
  shows "(\<exists>S' t. nframe (\<lambda>_. Some 0) S1 (nwire (i, name, h, b) @ r) = Returns (S', Some (r, Some t)) \<and>
      nq_bodyBuf (nt_req t) = Some (b0 @ b) \<and> nq_headersBuf (nt_req t) = Some h) \<and>
    nframe (\<lambda>_. Some 0) S2 r' = Panics NilDeref"
proof -
  have S1: "headerBuffers S1 = [Some h0]" "bodyBuffers S1 = [Some b0]"
      "maxHeaderLen (S1\<lparr>headerBuffers := []\<rparr>) = maxHeaderLen S"
    and S2: "headerBuffers S2 = [None, Some h0]"
    using assms(1,5-8) by (auto simp: nRequest_Close_def fresh_def maxHeaderLen_def)
  have p: "nframe (\<lambda>_. Some 0) S2 r' = Panics NilDeref"
    by (simp add: nframe_def S2 pool_Get_def Let_def)
  have l: "length h < 2 ^ 32" "length b < 2 ^ 63" using assms(2) by auto
  have "\<exists>S' t. nframe (\<lambda>_. Some 0) S1 (nwire (i, name, h, b) @ r) = Returns (S', Some (r, Some t)) \<and>
      nq_bodyBuf (nt_req t) = Some (b0 @ b) \<and> nq_headersBuf (nt_req t) = Some h"
    using nhead_wire [OF assms(2), of r] assms(3,4) l
    by (simp add: nframe_def S1 pool_Get_def Let_def nstart_def readHeadersBodyInto_def readHeadersInto_def
        readBodyInto_def copy_into_def uint_len sint_len nnewRequest_def del: nwire.simps)
  then show ?thesis using p by blast
qed

lemma stale_body_witness:
  "let q = \<lparr>nq_id = 1, nq_headersBuf = Some [1], nq_bodyBuf = Some [2], nq_Data = None\<rparr>;
     S1 = fst (nRequest_Close nNewServer q); S2 = fst (nRequest_Close S1 (snd (nRequest_Close nNewServer q)))
   in (\<exists>S' t. nframe (\<lambda>_. Some 0) S1 (nwire (3, lit ''add'', [4], [5]) @ [6]) = Returns (S', Some ([6], Some t)) \<and>
      nq_bodyBuf (nt_req t) = Some ([2] @ [5]) \<and> nq_headersBuf (nt_req t) = Some [4]) \<and>
    nframe (\<lambda>_. Some 0) S2 [] = Panics NilDeref"
  unfolding Let_def
  by (rule stale_body [where S = nNewServer and op = OpAdd and q = "\<lparr>nq_id = 1, nq_headersBuf = Some [1], nq_bodyBuf = Some [2], nq_Data = None\<rparr>"])
    (simp_all add: fresh_def nNewServer_def DefaultMaxHeaderLen_def maxHeaderLen_def lit_def nop_of_def)

section \<open>The client\<close>

text \<open>\<open>ntwk/client.go\<close>: the client counts its requests in 64 bits, but sends none yet; its operations
  compute their result themselves.\<close>

definition nextReqId :: "u64 \<Rightarrow> u64 \<times> u64" where
  "nextReqId reqCounter = (reqCounter + 1, reqCounter + 1)"

definition nClient_Add :: "'f nenv \<Rightarrow> 'f ninput option \<Rightarrow> 'f nresult outcome" where
  "nClient_Add E i = (case i of None \<Rightarrow> Panics NilDeref
     | Some x \<Rightarrow> Returns (Some \<lparr>out_Value = f_add E (in_A x) (in_B x)\<rparr>, None))"

definition nClient_Sub :: "'f nenv \<Rightarrow> 'f ninput option \<Rightarrow> 'f nresult outcome" where
  "nClient_Sub E i = (case i of None \<Rightarrow> Panics NilDeref
     | Some x \<Rightarrow> Returns (Some \<lparr>out_Value = f_sub E (in_A x) (in_B x)\<rparr>, None))"

definition nClient_Mul :: "'f nenv \<Rightarrow> 'f ninput option \<Rightarrow> 'f nresult outcome" where
  "nClient_Mul E i = (case i of None \<Rightarrow> Panics NilDeref
     | Some x \<Rightarrow> Returns (Some \<lparr>out_Value = f_mul E (in_A x) (in_B x)\<rparr>, None))"

definition nClient_Div :: "'f nenv \<Rightarrow> 'f ninput option \<Rightarrow> 'f nresult outcome" where
  "nClient_Div E i = (case i of None \<Rightarrow> Panics NilDeref
     | Some x \<Rightarrow>
         if f_is0 E (in_B x) then Returns (None, Some DivideBy0)
         else Returns (Some \<lparr>out_Value = f_div E (in_A x) (in_B x)\<rparr>, None))"

definition nClient_Pow :: "'f nenv \<Rightarrow> 'f ninput option \<Rightarrow> 'f nresult outcome" where
  "nClient_Pow E i = (case i of None \<Rightarrow> Panics NilDeref
     | Some x \<Rightarrow> Returns (Some \<lparr>out_Value = f_pow E (in_A x) (in_B x)\<rparr>, None))"

lemma client_as_server:
  "nClient_Add = nAdd" "nClient_Sub = nSub" "nClient_Mul = nMul" "nClient_Div = nDiv" "nClient_Pow = nPow"
  by (simp_all add: fun_eq_iff nClient_Add_def nClient_Sub_def nClient_Mul_def nClient_Div_def nClient_Pow_def
      nAdd_def nSub_def nMul_def nDiv_def nPow_def)

text \<open>The ids of a client differ until the counter wraps.\<close>

fun nids :: "nat \<Rightarrow> u64 \<Rightarrow> u64 list" where
  "nids 0 c = []"
| "nids (Suc n) c = (case nextReqId c of (i, c') \<Rightarrow> i # nids n c')"

lemma nids_nth: "k < n \<Longrightarrow> nids n c ! k = c + of_nat (Suc k)"
  by (induction n arbitrary: c k) (auto simp: nextReqId_def nth_Cons split: nat.split)

lemma length_nids [simp]: "length (nids n c) = n"
  by (induction n arbitrary: c) (simp_all add: nextReqId_def)

theorem nids_distinct: "distinct (nids n c) \<longleftrightarrow> n \<le> 2 ^ 64"
proof
  assume d: "distinct (nids n c)"
  have "card (set (nids n c)) \<le> card (UNIV :: u64 set)" by (rule card_mono) simp_all
  then show "n \<le> 2 ^ 64" using distinct_card [OF d] by (simp add: card_word)
next
  assume n: "n \<le> 2 ^ 64"
  show "distinct (nids n c)"
    unfolding distinct_conv_nth
  proof (intro allI impI)
    fix i j assume ij: "i < length (nids n c)" "j < length (nids n c)" "i \<noteq> j"
    show "nids n c ! i \<noteq> nids n c ! j"
    proof
      assume "nids n c ! i = nids n c ! j"
      then have "(of_nat i :: u64) = of_nat j" using ij by (simp add: nids_nth)
      then have "unat (of_nat i :: u64) = unat (of_nat j :: u64)" by simp
      moreover have "i < 2 ^ 64" "j < 2 ^ 64" using ij n by simp_all
      ultimately show False using ij(3) unat_len(2) [of i] unat_len(2) [of j] by simp
    qed
  qed
qed

end
