(* ===== verification/NtwkHTTP.thy ===== *)
theory NtwkHTTP
  imports NtwkServer
begin

text \<open>
  The part of \<open>ntwk/server.go\<close> that answers over HTTP: \<open>ServeHTTP\<close> and the function it has for each
  operation.  The requests and answers are what the code reads and writes of \<open>net/http\<close>; the JSON
  texts of the two structs are the argument \<open>hcodec\<close>.
\<close>

section \<open>Over HTTP\<close>

text \<open>An HTTP request as the source reads it: its path, the two headers and its body; and the answer.\<close>

record hrequest =
  h_Path :: gostring
  h_Func :: gostring
  h_ReqId :: gostring
  h_Body :: bytes

record hreply =
  h_code :: nat
  h_text :: bytes

text \<open>The codec of the two structs: \<open>Data\<close> of a decoded \<open>Request\<close> (nil when the text has none), and the
  exported fields of a \<open>Response\<close>, its id not among them.\<close>

record 'f hcodec =
  dec_req :: "bytes \<Rightarrow> gostring + 'f ninput option"
  enc_resp :: "byte \<times> 'f noutput option \<times> gostring \<Rightarrow> gostring + bytes"

text \<open>\<open>strconv.ParseUint(s, 10, 64)\<close>\<close>

definition ParseUint :: "gostring \<Rightarrow> u64 option" where
  "ParseUint s =
     (if s = [] \<or> (\<exists>c\<in>set s. c < 48 \<or> 57 < c) then None
      else (let n = foldl (\<lambda>n c. 10 * n + (unat c - 48)) 0 s
            in if n < 2 ^ 64 then Some (of_nat n) else None))"

definition http_Error :: "gostring \<Rightarrow> nat \<Rightarrow> hreply" where
  "http_Error msg code = \<lparr>h_code = code, h_text = msg @ [10]\<rparr>"

text \<open>The body that \<open>ServeAddHTTP\<close> and the four functions like it share, for the operation each calls.\<close>

definition serve_operation ::
    "('f ninput option \<Rightarrow> 'f nresult outcome) \<Rightarrow> (ioerr \<Rightarrow> gostring) \<Rightarrow> 'f hcodec \<Rightarrow> hrequest \<Rightarrow> hreply outcome" where
  "serve_operation f io_text C q =
     (case ParseUint (h_ReqId q) of
        None \<Rightarrow> Returns (http_Error (lit ''missing request id'') 500)
      | Some i \<Rightarrow>
          (case dec_req C (h_Body q) of
             Inl _ \<Rightarrow> Returns (http_Error (lit ''internal server error'') 500)
           | Inr data \<Rightarrow>
               obind (f data) (\<lambda>(msg, err).
                 let resp = \<lparr>np_reqId = i, np_Status = 0, np_Data = msg, np_Error = nerrStr io_text err\<rparr>
                 in Returns (case enc_resp C (np_Status resp, np_Data resp, np_Error resp) of
                      Inl _ \<Rightarrow> http_Error (lit ''internal server error'') 500
                    | Inr b \<Rightarrow> \<lparr>h_code = 200, h_text = b\<rparr>))))"

definition ServeAddHTTP :: "'f nenv \<Rightarrow> (ioerr \<Rightarrow> gostring) \<Rightarrow> 'f hcodec \<Rightarrow> hrequest \<Rightarrow> hreply outcome" where
  "ServeAddHTTP E = serve_operation (nAdd E)"

definition ServeSubHTTP :: "'f nenv \<Rightarrow> (ioerr \<Rightarrow> gostring) \<Rightarrow> 'f hcodec \<Rightarrow> hrequest \<Rightarrow> hreply outcome" where
  "ServeSubHTTP E = serve_operation (nSub E)"

definition ServeMulHTTP :: "'f nenv \<Rightarrow> (ioerr \<Rightarrow> gostring) \<Rightarrow> 'f hcodec \<Rightarrow> hrequest \<Rightarrow> hreply outcome" where
  "ServeMulHTTP E = serve_operation (nMul E)"

definition ServeDivHTTP :: "'f nenv \<Rightarrow> (ioerr \<Rightarrow> gostring) \<Rightarrow> 'f hcodec \<Rightarrow> hrequest \<Rightarrow> hreply outcome" where
  "ServeDivHTTP E = serve_operation (nDiv E)"

definition ServePowHTTP :: "'f nenv \<Rightarrow> (ioerr \<Rightarrow> gostring) \<Rightarrow> 'f hcodec \<Rightarrow> hrequest \<Rightarrow> hreply outcome" where
  "ServePowHTTP E = serve_operation (nPow E)"

text \<open>
  \<open>ServeStreamAdd\<close> and \<open>getWs\<close>: a websocket, if the request is one for it (\<open>ws\<close>), with which nothing is
  done; the id is printed.
\<close>

datatype stream_reply = StreamHTTP hreply | StreamNone | StreamPrinted u64

definition ServeStreamAdd :: "bool \<Rightarrow> hrequest \<Rightarrow> stream_reply" where
  "ServeStreamAdd ws q =
     (case ParseUint (h_ReqId q) of
        None \<Rightarrow> StreamHTTP (http_Error (lit ''missing request id'') 500)
      | Some i \<Rightarrow> if \<not> ws then StreamNone else StreamPrinted i)"

text \<open>The name taken from the path is overwritten by the header before it is used.  For \<open>stream_add\<close>
  nothing is written: an empty answer with status 200.\<close>

definition nServeHTTP :: "'f nenv \<Rightarrow> (ioerr \<Rightarrow> gostring) \<Rightarrow> 'f hcodec \<Rightarrow> hrequest \<Rightarrow> hreply outcome" where
  "nServeHTTP E io_text C q =
     (let name = h_Path q;
          name = (if length name \<noteq> 0 \<and> hd name = 47 then tl name else name);
          name = h_Func q
      in if name = lit ''add'' then ServeAddHTTP E io_text C q
         else if name = lit ''sub'' then ServeSubHTTP E io_text C q
         else if name = lit ''mul'' then ServeMulHTTP E io_text C q
         else if name = lit ''div'' then ServeDivHTTP E io_text C q
         else if name = lit ''pow'' then ServePowHTTP E io_text C q
         else if name = lit ''stream_add'' then Returns \<lparr>h_code = 200, h_text = []\<rparr>
         else Returns (http_Error (lit ''not found'') 404))"

context service_operation
begin

lemma serve_nil:
  "ParseUint (h_ReqId q) = Some i \<Longrightarrow> dec_req C (h_Body q) = Inr None \<Longrightarrow>
   serve_operation f io_text C q = Panics NilDeref"
  by (simp add: serve_operation_def run_nil)

lemma serve_message:
  assumes "ParseUint (h_ReqId q) = Some i" and "dec_req C (h_Body q) = Inr (Some x)" and "\<And>r. enc_resp C r = Inr (enc r)"
  shows "serve_operation f io_text C q =
    (case f (Some x) of
       Returns (msg, err) \<Rightarrow> Returns \<lparr>h_code = 200, h_text = enc (StatusOk, msg, nerrStr io_text err)\<rparr>
     | y \<Rightarrow> Blocks)"
  using assms result_or_error [of x] by (auto simp: serve_operation_def Let_def StatusOk_def)

end

text \<open>The operation a name stands for.\<close>

fun nop_fun :: "'f nenv \<Rightarrow> nop \<Rightarrow> 'f ninput option \<Rightarrow> 'f nresult outcome" where
  "nop_fun E OpAdd = nAdd E"
| "nop_fun E OpSub = nSub E"
| "nop_fun E OpMul = nMul E"
| "nop_fun E OpDiv = nDiv E"
| "nop_fun E OpPow = nPow E"

text \<open>Over HTTP the header alone routes, and errors look like results.  A request with a decimal id
  below 2 to the 64 and a message is answered, whatever its path, by the operation its header
  names, with status 200 and the response's own status OK even for a division by zero; without
  such a header it is not found, and without a message the operation panics.\<close>

theorem http_answers:
  assumes "ParseUint (h_ReqId q) = Some i" and "dec_req C (h_Body q) = Inr data"
    and "\<And>r. enc_resp C r = Inr (enc r)"
  shows "nServeHTTP E io_text C q =
    (case nop_of (h_Func q) of
       None \<Rightarrow> Returns (if h_Func q = lit ''stream_add'' then \<lparr>h_code = 200, h_text = []\<rparr> else http_Error (lit ''not found'') 404)
     | Some op \<Rightarrow>
         (case data of
            None \<Rightarrow> Panics NilDeref
          | Some x \<Rightarrow>
              if op = OpDiv \<and> f_is0 E (in_B x)
              then Returns \<lparr>h_code = 200, h_text = enc (StatusOk, None, lit ''divide by 0'')\<rparr>
              else (case nop_fun E op (Some x) of
                      Returns (msg, _) \<Rightarrow> Returns \<lparr>h_code = 200, h_text = enc (StatusOk, msg, [])\<rparr>
                    | y \<Rightarrow> Blocks)))"
proof (cases data)
  case None
  note nil = assms(1) assms(2) [unfolded None]
  show ?thesis
    unfolding None
    by (simp add: nServeHTTP_def nop_of_def Let_def ServeAddHTTP_def ServeSubHTTP_def ServeMulHTTP_def
        ServeDivHTTP_def ServePowHTTP_def add_op.serve_nil [OF nil] sub_op.serve_nil [OF nil]
        mul_op.serve_nil [OF nil] div_op.serve_nil [OF nil] pow_op.serve_nil [OF nil])
next
  case (Some x)
  note msg = assms(1) assms(2) [unfolded Some] assms(3)
  show ?thesis
    unfolding Some
    by (simp add: nServeHTTP_def nop_of_def Let_def ServeAddHTTP_def ServeSubHTTP_def ServeMulHTTP_def
        ServeDivHTTP_def ServePowHTTP_def add_op.serve_message [OF msg] sub_op.serve_message [OF msg]
        mul_op.serve_message [OF msg] div_op.serve_message [OF msg] pow_op.serve_message [OF msg]
        nAdd_def nSub_def nMul_def nDiv_def nPow_def nerrStr_def)
qed

lemma http_answers_witness:
  "let C = \<lparr>dec_req = (\<lambda>b. Inr (Some \<lparr>in_A = 6 :: byte, in_B = 0\<rparr>)),
       enc_resp = (\<lambda>(st, msg, e). Inr (st # e @ (case msg of None \<Rightarrow> [] | Some v \<Rightarrow> [out_Value v])))\<rparr>;
     q = \<lparr>h_Path = lit ''/add'', h_Func = lit ''div'', h_ReqId = lit ''12'', h_Body = []\<rparr>
   in nServeHTTP demo_nenv (\<lambda>_. []) C q = Returns \<lparr>h_code = 200, h_text = 0 # lit ''divide by 0''\<rparr>"
  unfolding Let_def
  by (subst http_answers [where i = 12 and data = "Some \<lparr>in_A = 6, in_B = 0\<rparr>"
        and enc = "\<lambda>(st, msg, e). st # e @ (case msg of None \<Rightarrow> [] | Some v \<Rightarrow> [out_Value v])"])
    (simp_all add: ParseUint_def nop_of_def lit_def demo_nenv_def StatusOk_def split_beta)

section \<open>Ids as text\<close>

lemma digit_unat: "k < 10 \<Longrightarrow> unat (of_nat (48 + k) :: byte) = 48 + k"
  by (simp only: unat_of_nat) simp

lemma dec_nat_digits: "\<forall>c\<in>set (dec_nat n). 48 \<le> c \<and> c \<le> 57"
proof (induction n rule: dec_nat.induct)
  case (1 n)
  have d: "48 \<le> (of_nat (48 + k) :: byte) \<and> (of_nat (48 + k) :: byte) \<le> 57" if "k < 10" for k
    using that by (simp add: word_le_nat_alt digit_unat [simplified])
  show ?case
    using 1 d [of n] d [of "n mod 10"] by (subst dec_nat.simps) auto
qed

lemma dec_nat_value: "foldl (\<lambda>n c. 10 * n + (unat (c :: byte) - 48)) 0 (dec_nat n) = n"
proof (induction n rule: dec_nat.induct)
  case (1 n)
  have d: "unat (of_nat (48 + k) :: byte) - 48 = k" if "k < 10" for k
    using that by (simp add: digit_unat [simplified])
  show ?case
    using 1 d [of n] d [of "n mod 10"] by (subst dec_nat.simps) auto
qed

lemma dec_nat_nonempty [simp]: "dec_nat n \<noteq> []"
  by (subst dec_nat.simps) simp

lemma ParseUint_dec_nat: "ParseUint (dec_nat n) = (if n < 2 ^ 64 then Some (of_nat n) else None)"
  using dec_nat_digits [of n] dec_nat_value [of n] by (auto simp: ParseUint_def Let_def not_less)


end
