(* ===== verification/Spec2Isabelle.thy ===== *)
theory Spec2Isabelle
  imports ServerRun EndToEnd ProxyServe Headers ReqResp MuxGo Stream ClientGo ServerGo ServerHTTP ProxyListener ProxyCmd NtwkHTTP
begin

text \<open>
  jtrpc is a small RPC protocol over any byte stream.  A client opens a connection with 14 fixed
  bytes, sends requests (an id, flags, a path, headers, a body) and gets for each a response with the
  same id; a request may ask for a stream, and after an OK response both sides exchange messages
  under its id until one closes it.  Requests, responses and messages are frames: a head with
  little-endian lengths, then the parts.  This library models the Go programs of the repository and
  proves what makes them correct, and where they are not: the package \<open>go/\<close>, which implements both
  sides; the program \<open>proxy/\<close>, a server that passes requests and streams on to other servers, also
  to ones it can only reach through a tunnel they opened, and is administered with requests; and
  the unfinished service runner \<open>ntwk/\<close>, an older protocol of the same kind.

  The theories, in the order they build on each other:

  \<^item> \<open>Prelude\<close>: bytes, words, Go's panics and blocking as values (\<open>outcome\<close>), slicing, \<open>io.ReadFull\<close>,
    \<open>io.CopyN\<close>, connections that may fail.  What the program calls of the package
    \<open>github.com/johnietre/utils\<close>, which is not in the repository, is one argument \<open>U :: utils\<close> of the
    model, with its laws in the locale \<open>utils_contract\<close> (\<open>WriteAll\<close> writes all bytes or a prefix and
    an error, \<open>CloneSlice\<close> copies).  Whether its locks can be taken twice by one goroutine is the
    field \<open>reentrant\<close>; nothing is assumed of it except where a theorem says so.
  \<^item> \<open>Wire\<close> (\<open>go/other.go\<close>): \<open>append2\<close>, \<open>place2\<close>, \<open>get2\<close>, \<open>append8\<close>, \<open>place8\<close>, \<open>get8\<close>; the locale
    \<open>le_codec\<close> (reading undoes writing) and the locale \<open>frame_codec\<close> (a writer and a reader agree on
    where a frame ends), which \<open>ReqResp\<close> interprets for requests and for responses.
  \<^item> \<open>Headers\<close> (\<open>go/req_resp.go\<close>, \<open>Headers\<close> and its methods): both representations, raw bytes and map;
    every loop over raw bytes is computed by a specification on lists (\<open>decode\<close>, \<open>entry\<close>, \<open>wire\<close>), the
    points where 16-bit sums wrap or a stale length is used included.  The locale \<open>header_dict\<close> is
    the dictionary both representations implement.
  \<^item> \<open>ReqResp\<close> (the rest of that file): flags, \<open>Request\<close>, \<open>Response\<close>, status codes,
    \<open>ReadCloseCounter\<close>; frames written to a failing or working connection, and read back.
  \<^item> \<open>MuxGo\<close> (\<open>go/mux.go\<close>): middleware, \<open>MapMux\<close>; the locale \<open>routes\<close> is one side of a multiplexer.
  \<^item> \<open>Stream\<close> (\<open>go/stream.go\<close>): messages, and streams with their channel of capacity 50 and overflow list.
    The locale \<open>fifo\<close> is the queue that \<open>addMsg\<close> and \<open>Recv\<close> implement when they run one at a time;
    \<open>stream_step\<close> is the interleaving of the connection's reader loop with any number of receivers.
  \<^item> \<open>ClientGo\<close> (\<open>go/client.go\<close>): \<open>WithRW\<close>, \<open>Send\<close> in its two halves, one round of the reader loop
    (\<open>client_frame\<close>) and the loop, closing, \<open>RespChan\<close>.
  \<^item> \<open>ServerGo\<close> (\<open>go/server.go\<close>): the handshake, one round of \<open>handleServerConn\<close> (\<open>server_frame\<close>) and
    the loop, \<open>handleReq\<close>, \<open>handleStreamMsg\<close>, the goroutine of a request (\<open>task_run\<close>), closing.
    \<open>conn_step\<close> interleaves the loop, the tasks and the users of streams.
  \<^item> \<open>ServerHTTP\<close>: \<open>ServeHTTP\<close>, \<open>wsHandler\<close> and \<open>wsStreamHandler\<close> of the same file.
  \<^item> \<open>ServerRun\<close> (the same file, and \<open>HandlerFunc\<close> of \<open>go/mux.go\<close>): the methods of \<open>Server\<close> that set it up,
    over the interface \<open>Mux\<close> (\<open>mux_methods\<close>), and \<open>configured\<close>, what a list of such calls says a
    request is answered with; the connect timeout; \<open>Serve\<close> and \<open>Run\<close> over any listener, as rounds
    (\<open>serve_rounds\<close> of Prelude), since the loop has no other end than an error of \<open>Accept\<close>.
  \<^item> \<open>ProxyMux\<close> (\<open>proxy/mux.go\<close>): the state of the proxy (\<open>proxy\<close>: servers, clients, connections,
    timers), every handler and middleware of its multiplexer, and the path, authentication and
    routing lemmas.  \<open>ProxyAdmin\<close>: adding, deleting and replacing servers.  \<open>ProxyState\<close>: the invariant
    \<open>proxy_ok\<close> (every reference is valid, every reachable server initialised) and that \<open>sendReq\<close>
    keeps it and returns.  \<open>ProxyForward\<close>: a request through the proxy, and the invariant for every
    handler.  \<open>ProxyPipe\<close>: streams through the proxy.
  \<^item> \<open>ProxyListener\<close> (\<open>proxy/listeners.go\<close>): \<open>Conn\<close> with its first byte, the dispatch of connections, both
    ends of a tunnel, closing.  The locale \<open>handshake_end\<close> is what the two ends that answer a tunnel
    handshake promise.
  \<^item> \<open>ProxyCmd\<close> (\<open>proxy/client.go\<close>, \<open>proxy/server.go\<close>): the administration commands, with one followed
    through the proxy and back, and the configuration a proxy starts with.
  \<^item> \<open>EndToEnd\<close>: a client, the proxy's server with the proxy's handlers in it, and a server behind the
    proxy, joined by the bytes they write.  \<open>ProxyServe\<close> (\<open>proxy/server.go\<close>): \<open>RunServer\<close>, and \<open>run_step\<close>, the
    interleaving of the threads it starts: the listener's loop, the two servers that accept, the
    handlers of tunnels and requests, and the close of the listener.  \<open>run_ok\<close> is its invariant;
    \<open>ProxyConns\<close> shows that no handler of requests touches a connection that a server waits for.
  \<^item> \<open>NtwkIO\<close> (\<open>ntwk/utils.go\<close>): \<open>writeAll\<close> over any writer, as a partial function; the locale
    \<open>io_writer\<close> is the contract under which one call is enough.  \<open>NtwkResp\<close> (\<open>ntwk/msgs.go\<close>,
    \<open>ntwk/req_resp.go\<close>): messages, pooled buffers, responses, read back by a reader written after
    spec.md.  \<open>NtwkServer\<close> and \<open>NtwkHTTP\<close> (\<open>ntwk/server.go\<close>, \<open>ntwk/client.go\<close>): the loop of a connection,
    the operations (the locale \<open>service_operation\<close> is the interface of \<open>ntwk/service.go\<close>), HTTP.

  This root theory holds what spans components: the handshake of a client with a server, and a
  request that becomes a response.

  How state corresponds: a struct is a record with the source's field names (prefixed where two
  structs share one), a pointer held in a map is an index into a list of allocated objects, a nil
  pointer, map or interface is \<open>None\<close>. The order in which Go visits a map is an argument (\<open>kvs\<close> for
  headers, pointer lists for streams and channels). Readers are lists of the bytes still to come;
  writers record what left and how much more will be taken. Integers are \<open>w word\<close> where the source
  has a fixed width; \<open>wrap64\<close> marks the signed sums that can overflow. Loops over input are total
  functions, with the remaining length as measure, so they need no fuel; only the accept loops count
  their rounds, and the end of \<open>ProxyServe\<close> says how many are enough. A step of a goroutine between two
  blocking points is atomic, except in \<open>stream_step\<close>, which splits \<open>Recv\<close> where the source can be
  interrupted, and \<open>Send\<close>, which is split into its two halves.

  Bounds: 16-bit path and header lengths and 64-bit body lengths are those of the wire format; the
  theorems on requests read by the server ask for bodies below \<open>2^62\<close> so that the sum of the three
  lengths does not overflow.

  The proxy's model takes from outside: the JSON codec (\<open>json\<close>), which element \<open>Range\<close> of a set and
  of a map visits first, the connections the network will make to an address (\<open>p_dials\<close>), what other
  goroutines do while one waits for a connection (\<open>e_others\<close>), and \<open>utils.UChan\<close> with its laws
  (\<open>uchan_ok\<close> for one operation, \<open>uchan_fifo\<close> for the order of what it holds). A wait for a response
  runs the reader loop of the client it waits on (\<open>await_resp\<close>), which ends because every frame is
  read. In \<open>run_step\<close> a handler of requests is one step; what runs while it waits is again
  \<open>e_others\<close>, which is asked to keep the invariant and to leave alone the connections that are no
  server's (\<open>env_ok\<close>, \<open>env_apart\<close>). Timers have a state and no time. The model of
  \<open>ntwk/\<close> takes the arithmetic of \<open>float64\<close>, the JSON codec, and which buffer a \<open>sync.Pool\<close> hands
  out; the sources of that package do not compile as they are, and NtwkServer says how they are
  read. Loops that may run for ever, \<open>writeAll\<close> and \<open>StreamAdd\<close>, are option-valued, with \<open>None\<close> for
  not returning; every other loop is a total function on its input, its attempts or its queue.

  Not modelled: sockets (\<open>net.Listen\<close>, \<open>Accept\<close> and the \<open>Addr\<close> methods are arguments or left out),
  timers' durations, read deadlines other than that of the handshake beyond whether setting one
  fails, log lines, the pooling of buffers in \<open>go/\<close> (each buffer is the local value it is used as),
  \<open>ErrorResp.Error\<close> and \<open>ArrayValue.String\<close>, whose \<open>%q\<close> depends on Unicode tables, \<open>CloserWrapper\<close>
  (a \<open>Close\<close> that does nothing), contexts in \<open>ntwk/\<close> (\<open>newContext\<close>), flag parsing and \<open>main\<close>
  functions, the websocket and HTTP libraries (whether \<open>getWs\<close> gets a connection is an argument).
  The programs under \<open>tests/\<close> only exercise the packages above; the Rust and Julia implementations
  and the code generator under \<open>compiler/\<close> are other programs.
\<close>

section \<open>Client and server together\<close>

text \<open>C18: The handshake.  A client and a server over working connections: the server accepts the
  bytes the client starts with, whatever the two version bytes are, and with the server's answer
  the client is set up, open and with nothing registered; both go on exactly behind what was
  exchanged.\<close>

theorem handshake:
  assumes "utils_contract U" and "room v = None" and "room w = None"
  shows "\<exists>v' c. server_handle U (initialBytes @ [major, minor] @ rest) v =
      Inr (newServerConn v' :: ('v, 'g) serverConn, rest) \<and>
    WithRW U (drop (length (out v)) (out v') @ rest') w = Inr (c :: 'v client, rest') \<and>
    out (c_out c) = out w @ initialBytesVer \<and> \<not> c_isClosed c \<and> reqs c = Map.empty \<and>
    initialBytesVer = initialBytes @ [0, 1]"
proof -
  obtain v' where s: "server_handle U (initialBytes @ [major, minor] @ rest) v =
      Inr (newServerConn v' :: ('v, 'g) serverConn, rest)"
    and v': "out v' = out v @ response_frame ([], (zeroResponse :: (unit, unit) response)\<lparr>reqId := 0, StatusCode := StatusOK\<rparr>)"
    using server_handle_ok [OF assms(1,2)] by metis
  obtain w' where w': "WriteAll U w initialBytesVer = (w', length initialBytesVer, None)"
    "out w' = out w @ initialBytesVer"
    using utils_WriteAll(4) [OF assms(1,3), of initialBytesVer] by blast
  have r: "\<exists>n resp. Response_ReadFrom (zeroResponse :: ('v, nat) response)
      (drop (length (out v)) (out v') @ rest') = (resp, rest', n, None) \<and> StatusCode resp = StatusOK"
    unfolding out_is_prefix [OF v'] Response_ReadFrom_bytes [OF bare_response_fits]
    by (simp add: response_read_def)
  then obtain n resp where "Response_ReadFrom (zeroResponse :: ('v, nat) response)
      (drop (length (out v)) (out v') @ rest') = (resp, rest', n, None)" "StatusCode resp = StatusOK"
    by blast
  with s w' show ?thesis
    by (intro exI [of _ v']) (simp add: WithRW_def initialBytesVer_def initialBytes_def)
qed

lemma handshake_witness:
  "\<exists>v' c. server_handle plain_utils (initialBytes @ [7, 7] @ [1]) \<lparr>out = [], room = None\<rparr> =
      Inr (newServerConn v' :: (nat, nat) serverConn, [1]) \<and>
    WithRW plain_utils (drop (length (out \<lparr>out = [], room = None\<rparr>)) (out v') @ [2]) \<lparr>out = [], room = None\<rparr> =
      Inr (c :: nat client, [2]) \<and>
    out (c_out c) = out \<lparr>out = [], room = None\<rparr> @ initialBytesVer \<and> \<not> c_isClosed c \<and> reqs c = Map.empty \<and>
    initialBytesVer = initialBytes @ [0, 1]"
  by (rule handshake [OF plain.utils_contract_axioms]) simp_all

text \<open>Refused connections.  When the first 12 bytes are not the protocol's, the server answers with
  the invalid-initial-bytes status and closes, and a client that reads that answer gets it as an
  error response.\<close>

theorem handshake_refused:
  assumes "utils_contract U" and "room v = None" and "room w = None"
    and "14 \<le> length r" and "take 12 r \<noteq> initialBytes"
  shows "\<exists>v' resp. (server_handle U r v :: _ + ('v, 'g) serverConn \<times> bytes) = Inl (v', True) \<and>
    (WithRW U (drop (length (out v)) (out v') @ rest') w :: _ + 'v client \<times> bytes) = Inl (DialErrorResp resp) \<and>
    StatusCode resp = StatusInvalidInitialBytes"
proof -
  let ?st = StatusInvalidInitialBytes
  obtain v' where v': "writeResp U 0 ?st v = (v', 20, None)"
    "out v' = out v @ response_frame ([], (zeroResponse :: (unit, unit) response)\<lparr>reqId := 0, StatusCode := ?st\<rparr>)"
    using writeResp_frame [OF assms(1,2), of 0 ?st] by blast
  obtain w' where w': "WriteAll U w initialBytesVer = (w', length initialBytesVer, None)"
    using utils_WriteAll(4) [OF assms(1,3), of initialBytesVer] by blast
  have f: "ReadFull 14 r = Inr (take 14 r, drop 14 r)" using assms(4) by (simp add: ReadFull_def)
  have t: "take 12 (take 14 r) = take 12 r" by simp
  have s: "(server_handle U r v :: _ + ('v, 'g) serverConn \<times> bytes) = Inl (v', True)"
    unfolding server_handle_def f sum.case prod.case t using assms(5) by (simp add: v')
  obtain n resp where rr: "Response_ReadFrom (zeroResponse :: ('v, nat) response)
      (drop (length (out v)) (out v') @ rest') = (resp, rest', n, None)" "StatusCode resp = ?st"
    unfolding out_is_prefix [OF v'(2)] Response_ReadFrom_bytes [OF bare_response_fits]
    by (simp add: response_read_def)
  then have "(WithRW U (drop (length (out v)) (out v') @ rest') w :: _ + 'v client \<times> bytes) = Inl (DialErrorResp resp)"
    using w' by (simp add: WithRW_def status_defs)
  with s rr show ?thesis by blast
qed

lemma handshake_refused_witness:
  "\<exists>v' resp. (server_handle plain_utils (replicate 14 1) \<lparr>out = [], room = None\<rparr>
      :: _ + (nat, nat) serverConn \<times> bytes) = Inl (v', True) \<and>
    (WithRW plain_utils (drop (length (out \<lparr>out = [], room = None\<rparr>)) (out v') @ []) \<lparr>out = [], room = None\<rparr>
      :: _ + nat client \<times> bytes) = Inl (DialErrorResp resp) \<and>
    StatusCode resp = StatusInvalidInitialBytes"
  by (rule handshake_refused [OF plain.utils_contract_axioms])
    (simp_all add: initialBytes_def numeral_eq_Suc)

text \<open>C2: A request and its response.  A client sends a request for a path the server has a regular
  handler for, with lengths that fit and a body within the limit; the server's loop reads exactly
  that frame and starts one task; when the task has run, the client's loop reads exactly the
  response and the channel \<open>Send\<close> returned holds a response with the handler's status, header
  bytes and body.  The handler saw the request's path, flags, header bytes and body.\<close>

theorem request_response:
  fixes c :: "'v client" and sc :: "('v, 'g) serverConn"
  assumes U: "utils_contract U"
    and c: "\<not> c_isClosed c" "room (c_out c) = None" and sc: "room (sc_out sc) = None"
    and l: "length (Path r) < 2 ^ 16" "length (hdr_out kvs (rq_Headers r)) < 2 ^ 16"
      "length (body_out (rq_Body r)) < 2 ^ 62"
    and lim: "int (length (body_out (rq_Body r))) \<le> MaxBodyLen s"
    and fl: "\<not> hasStreamMsgFlag (Flags r)"
    and rt: "route s (Flags r) (Path r) = Inr (h, 0, None)"
    and req: "req = served_request (reqCounter c + 1) addr (Flags r) (Path r)
      (hdr_out kvs (rq_Headers r)) (body_out (rq_Body r))"
    and resp: "h (req, newResponse (reqCounter c + 1) 0 (Some req)) = (req', resp)"
      "reqId resp = reqCounter c + 1" "rflags resp = 0" "response_fits (kvs', resp)"
  shows "\<exists>q c1 sc1 t c2 resp'. Client_Send U kvs r c = (Inr q, c1) \<and>
    server_frame U s addr sc (drop (length (out (c_out c))) (out (c_out c1)) @ rest) = Returns (sc1, rest, None) \<and>
    sc_tasks sc1 = sc_tasks sc @ [t] \<and> t_req t = req \<and>
    client_frame U c1 (drop (length (out (sc_out sc))) (out (sc_out (task_run U kvs' t sc1))) @ rest') =
      Returns (c2, rest', None) \<and>
    ch (resp_chans c2 ! q) = Some resp' \<and> StatusCode resp' = StatusCode resp \<and>
    rHeaders resp' = Some (newHeaders (hdr_out kvs' (rHeaders resp))) \<and>
    snd (BodyBytes resp') = response_body resp"
  by (rule request_run [OF U c sc l lim fl rt req resp, of rest rest'])
    (intro exI conjI, assumption+, simp_all add: delivered_body [OF resp(4)])

lemma request_response_witness:
  "let U = plain_utils; c = new_client; sc = demo_conn; r = demo_request; s = demo_server; kvs = [];
       addr = []; req = served_request (reqCounter c + 1) addr (Flags r) (Path r)
         (hdr_out kvs (rq_Headers r)) (body_out (rq_Body r));
       resp = Response_SetBodyBytes [1, 2] (newResponse (reqCounter c + 1) 0 (Some req)) :: (nat, nat) response; rest = [3]; rest' = [4];
       kvs' = []
   in \<exists>q c1 sc1 t c2 resp'. Client_Send U kvs r c = (Inr q, c1) \<and>
    server_frame U s addr sc (drop (length (out (c_out c))) (out (c_out c1)) @ rest) = Returns (sc1, rest, None) \<and>
    sc_tasks sc1 = sc_tasks sc @ [t] \<and> t_req t = req \<and>
    client_frame U c1 (drop (length (out (sc_out sc))) (out (sc_out (task_run U kvs' t sc1))) @ rest') =
      Returns (c2, rest', None) \<and>
    ch (resp_chans c2 ! q) = Some resp' \<and> StatusCode resp' = StatusCode resp \<and>
    rHeaders resp' = Some (newHeaders (hdr_out kvs' (rHeaders resp))) \<and>
    snd (BodyBytes resp') = response_body resp"
  unfolding Let_def
  by (rule request_response [OF plain.utils_contract_axioms, where h = "\<lambda>(req, resp). (req, Response_SetBodyBytes [1, 2] resp)"])
    (simp_all add: new_client_def demo_conn_def newServerConn_def demo_request_sel demo_server_def
      demo_route [unfolded demo_server_def] response_fits_def Response_SetBodyBytes_def SetBodyReader_def
      SetBodyReadCloser_def newResponse_def FromReader_def avail_def)

end
